(* ===== verification/Esp_Prelude.thy ===== *)
theory Esp_Prelude
  imports Main "HOL-Library.Word"
begin

text \<open>
  Shared vocabulary of the development: the machine types of the Rust sources, error values,
  a small state-and-error monad for the asynchronous readers and writers, the byte connection
  they work on, big-endian integers, UTF-8 validity and saturating arithmetic. It also holds
  the interface \<open>wire_codec\<close> that every message format of the program satisfies: what the
  writer puts on a connection is exactly what the reader takes off it.
\<close>

section \<open>Machine types\<close>

type_synonym byte = "8 word"
type_synonym bytes = "byte list"
type_synonym u8 = "8 word"
type_synonym u16 = "16 word"
type_synonym u32 = "32 word"
type_synonym u64 = "64 word"

text \<open>
  A Rust \<^verbatim>\<open>String\<close> is its UTF-8 bytes. Literals are written as Isabelle strings and read as
  bytes by \<open>ascii\<close>.
\<close>

type_synonym rstring = bytes

definition ascii :: "string \<Rightarrow> bytes" where
  "ascii s = map of_char s"

text \<open>
  Lengths and sizes (\<^verbatim>\<open>usize\<close>, 64 bits on the supported targets) are natural numbers; where the
  code saturates, the bound is written out.
\<close>

definition usize_max :: nat where
  "usize_max = 18446744073709551615"

definition sat_add :: "nat \<Rightarrow> nat \<Rightarrow> nat" where
  "sat_add a b = min (a + b) usize_max"

definition sat_mul :: "nat \<Rightarrow> nat \<Rightarrow> nat" where
  "sat_mul a b = min (a * b) usize_max"

definition u16_max :: nat where
  "u16_max = 65535"

definition u32_max :: nat where
  "u32_max = 4294967295"

definition u64_max :: nat where
  "u64_max = 18446744073709551615"

definition i64_min :: int where
  "i64_min = - 9223372036854775808"

definition i64_max :: int where
  "i64_max = 9223372036854775807"

section \<open>Errors and the reader/writer monad\<close>

text \<open>
  An \<^verbatim>\<open>anyhow\<close> error carries its message; a message with an interpolated number carries the number
  beside the text. \<open>Panic\<close> stands for a run-time panic (an arithmetic overflow or an out-of-range
  slice) where the code has one.
\<close>

datatype error =
    Bail string
  | BailNum string nat
  | UnexpectedEof
  | Utf8Error
  | Panic string

type_synonym 'a result = "error + 'a"

type_synonym ('s, 'a) io = "'s \<Rightarrow> 'a result \<times> 's"

named_theorems io_simps
named_theorems codec_simps

definition io_return :: "'a \<Rightarrow> ('s, 'a) io" where
  "io_return a s = (Inr a, s)"

definition io_fail :: "error \<Rightarrow> ('s, 'a) io" where
  "io_fail e s = (Inl e, s)"

text \<open>The \<^verbatim>\<open>?\<close> operator after an awaited call: an error stops the function and is passed on.\<close>

definition io_bind :: "('s, 'a) io \<Rightarrow> ('a \<Rightarrow> ('s, 'b) io) \<Rightarrow> ('s, 'b) io" where
  "io_bind m f s =
     (case m s of (Inl e, t) \<Rightarrow> (Inl e, t) | (Inr a, t) \<Rightarrow> f a t)"

definition io_then :: "('s, 'a) io \<Rightarrow> ('s, 'b) io \<Rightarrow> ('s, 'b) io" where
  "io_then m k = io_bind m (\<lambda>_. k)"

definition io_result :: "'a result \<Rightarrow> ('s, 'a) io" where
  "io_result r s = (r, s)"

definition res_bind :: "'a result \<Rightarrow> ('a \<Rightarrow> 'b result) \<Rightarrow> 'b result" where
  "res_bind r f = (case r of Inl e \<Rightarrow> Inl e | Inr a \<Rightarrow> f a)"

lemma io_return_apply [simp, io_simps]: "io_return a s = (Inr a, s)"
  by (simp add: io_return_def)

lemma io_fail_apply [simp, io_simps]: "io_fail e s = (Inl e, s)"
  by (simp add: io_fail_def)

lemma io_result_apply [simp, io_simps]: "io_result r s = (r, s)"
  by (simp add: io_result_def)

lemma io_bind_Inr [io_simps]: "m s = (Inr a, t) \<Longrightarrow> io_bind m f s = f a t"
  by (simp add: io_bind_def)

lemma io_bind_Inl [io_simps]: "m s = (Inl e, t) \<Longrightarrow> io_bind m f s = (Inl e, t)"
  by (simp add: io_bind_def)

lemma io_then_Inr [io_simps]: "m s = (Inr a, t) \<Longrightarrow> io_then m k s = k t"
  by (simp add: io_then_def io_bind_def)

lemma io_then_Inl [io_simps]: "m s = (Inl e, t) \<Longrightarrow> io_then m k s = (Inl e, t)"
  by (simp add: io_then_def io_bind_def)

lemma io_bind_result_cases:
  assumes "io_bind m f s = (Inr b, u)"
  obtains a t where "m s = (Inr a, t)" and "f a t = (Inr b, u)"
  using assms by (auto simp: io_bind_def split: prod.splits sum.splits)

lemma io_bind_return_left [simp]: "io_bind (io_return a) f = f a"
  by (rule ext) (simp add: io_bind_def)

lemma io_bind_fail [simp]: "io_bind (io_fail e) f = io_fail e"
  by (rule ext) (simp add: io_bind_def)

lemma io_bind_assoc: "io_bind (io_bind m f) g = io_bind m (\<lambda>a. io_bind (f a) g)"
  by (rule ext) (auto simp: io_bind_def split: prod.splits sum.splits)

lemma res_bind_Inr [simp]: "res_bind (Inr a) f = f a"
  by (simp add: res_bind_def)

lemma res_bind_Inl [simp]: "res_bind (Inl e) f = Inl e"
  by (simp add: res_bind_def)

lemma res_bind_eq_Inr: "res_bind r f = Inr b \<longleftrightarrow> (\<exists>a. r = Inr a \<and> f a = Inr b)"
  by (cases r) auto

section \<open>Saturating arithmetic\<close>

lemma sat_add_le [simp]: "sat_add a b \<le> usize_max"
  by (simp add: sat_add_def)

lemma sat_mul_le [simp]: "sat_mul a b \<le> usize_max"
  by (simp add: sat_mul_def)

lemma sat_add_exact: "a + b \<le> usize_max \<Longrightarrow> sat_add a b = a + b"
  by (simp add: sat_add_def)

lemma sat_add_ge_left: "a \<le> usize_max \<Longrightarrow> a \<le> sat_add a b"
  by (simp add: sat_add_def)

section \<open>Big-endian integers\<close>

text \<open>\<^verbatim>\<open>to_be_bytes\<close> at \<open>k\<close> bytes, and \<^verbatim>\<open>from_be_bytes\<close>.\<close>

fun be_encode :: "nat \<Rightarrow> nat \<Rightarrow> bytes" where
  "be_encode 0 n = []"
| "be_encode (Suc k) n = be_encode k (n div 256) @ [of_nat (n mod 256)]"

definition be_decode :: "bytes \<Rightarrow> nat" where
  "be_decode bs = foldl (\<lambda>n b. n * 256 + unat b) 0 bs"

lemma be_encode_numeral [simp]:
  "be_encode (numeral k) n = be_encode (pred_numeral k) (n div 256) @ [of_nat (n mod 256)]"
  unfolding numeral_eq_Suc [of k] by (rule be_encode.simps(2))

lemma be_encode_length [simp]: "length (be_encode k n) = k"
  by (induction k arbitrary: n) auto

lemma be_decode_Nil [simp]: "be_decode [] = 0"
  by (simp add: be_decode_def)

lemma be_decode_snoc: "be_decode (bs @ [b]) = be_decode bs * 256 + unat b"
  by (simp add: be_decode_def)

lemma be_decode_Cons: "be_decode (b # bs) = unat b * 256 ^ length bs + be_decode bs"
proof (induction bs rule: rev_induct)
  case (snoc x xs)
  have "be_decode (b # xs @ [x]) = be_decode (b # xs) * 256 + unat x"
    using be_decode_snoc [of "b # xs" x] by simp
  with snoc show ?case
    by (simp add: be_decode_snoc algebra_simps)
qed (simp add: be_decode_def)

lemma unat_of_nat_byte: "unat (of_nat n :: byte) = n mod 256"
  by (simp add: unat_of_nat take_bit_eq_mod)

lemma be_decode_encode_mod: "be_decode (be_encode k n) = n mod 256 ^ k"
  by (induction k arbitrary: n) (simp_all add: be_decode_snoc unat_of_nat_byte mod_mult2_eq)

lemma be_decode_encode [codec_simps]: "n < 256 ^ k \<Longrightarrow> be_decode (be_encode k n) = n"
  by (simp add: be_decode_encode_mod)

lemma be_decode_less: "be_decode bs < 256 ^ length bs"
proof (induction bs rule: rev_induct)
  case (snoc b bs)
  have "unat b < 256"
    using unsigned_less [where 'a = nat and w = b] by simp
  with snoc show ?case
    by (simp add: be_decode_snoc)
qed simp

lemma be_encode_decode [codec_simps]: "be_encode (length bs) (be_decode bs) = bs"
proof (induction bs rule: rev_induct)
  case (snoc b bs)
  have "unat b < 256"
    using unsigned_less [where 'a = nat and w = b] by simp
  then have "(be_decode bs * 256 + unat b) div 256 = be_decode bs"
    and "(be_decode bs * 256 + unat b) mod 256 = unat b"
    by simp_all
  with snoc show ?case
    by (simp add: be_decode_snoc)
qed simp

text \<open>The fixed widths, and that they are lossless.\<close>

definition to_be_u16 :: "u16 \<Rightarrow> bytes" where
  "to_be_u16 w = be_encode 2 (unat w)"

definition to_be_u32 :: "u32 \<Rightarrow> bytes" where
  "to_be_u32 w = be_encode 4 (unat w)"

definition to_be_u64 :: "u64 \<Rightarrow> bytes" where
  "to_be_u64 w = be_encode 8 (unat w)"

definition from_be_u16 :: "bytes \<Rightarrow> u16" where
  "from_be_u16 bs = of_nat (be_decode bs)"

definition from_be_u32 :: "bytes \<Rightarrow> u32" where
  "from_be_u32 bs = of_nat (be_decode bs)"

definition from_be_u64 :: "bytes \<Rightarrow> u64" where
  "from_be_u64 bs = of_nat (be_decode bs)"

lemma to_be_length [simp]:
  "length (to_be_u16 a) = 2" "length (to_be_u32 b) = 4" "length (to_be_u64 c) = 8"
  by (simp_all add: to_be_u16_def to_be_u32_def to_be_u64_def del: be_encode_numeral)

lemma unat_u16_less: "unat (w :: u16) < 65536"
  using unsigned_less [where 'a = nat and w = w] by simp

lemma unat_u32_less: "unat (w :: u32) < 4294967296"
  using unsigned_less [where 'a = nat and w = w] by simp

lemma unat_u64_less: "unat (w :: u64) < 18446744073709551616"
  using unsigned_less [where 'a = nat and w = w] by simp

lemma unat_u16_le: "unat (w :: u16) \<le> u16_max"
  using unat_u16_less [of w] by (simp add: u16_max_def)

lemma unat_u32_le: "unat (w :: u32) \<le> u32_max"
  using unat_u32_less [of w] by (simp add: u32_max_def)

lemma from_to_be_u16 [simp, codec_simps]: "from_be_u16 (to_be_u16 w) = w"
  using unat_u16_less [of w]
  by (simp add: from_be_u16_def to_be_u16_def be_decode_encode del: be_encode_numeral)

lemma from_to_be_u32 [simp, codec_simps]: "from_be_u32 (to_be_u32 w) = w"
  using unat_u32_less [of w]
  by (simp add: from_be_u32_def to_be_u32_def be_decode_encode del: be_encode_numeral)

lemma from_to_be_u64 [simp, codec_simps]: "from_be_u64 (to_be_u64 w) = w"
  using unat_u64_less [of w]
  by (simp add: from_be_u64_def to_be_u64_def be_decode_encode del: be_encode_numeral)

lemma unat_of_nat_u16: "n \<le> u16_max \<Longrightarrow> unat (of_nat n :: u16) = n"
  by (simp add: u16_max_def unat_of_nat take_bit_eq_mod)

lemma unat_of_nat_u32: "n \<le> u32_max \<Longrightarrow> unat (of_nat n :: u32) = n"
  by (simp add: u32_max_def unat_of_nat take_bit_eq_mod)

lemma unat_of_nat_u64: "n \<le> u64_max \<Longrightarrow> unat (of_nat n :: u64) = n"
  by (simp add: u64_max_def unat_of_nat take_bit_eq_mod)

lemma to_from_be_u16: "length bs = 2 \<Longrightarrow> to_be_u16 (from_be_u16 bs) = bs"
  using be_decode_less [of bs] be_encode_decode [of bs]
  by (simp add: to_be_u16_def from_be_u16_def unat_of_nat take_bit_eq_mod del: be_encode_numeral)

lemma to_from_be_u32: "length bs = 4 \<Longrightarrow> to_be_u32 (from_be_u32 bs) = bs"
  using be_decode_less [of bs] be_encode_decode [of bs]
  by (simp add: to_be_u32_def from_be_u32_def unat_of_nat take_bit_eq_mod del: be_encode_numeral)

lemma to_from_be_u64: "length bs = 8 \<Longrightarrow> to_be_u64 (from_be_u64 bs) = bs"
  using be_decode_less [of bs] be_encode_decode [of bs]
  by (simp add: to_be_u64_def from_be_u64_def unat_of_nat take_bit_eq_mod del: be_encode_numeral)

section \<open>Slices\<close>

text \<open>\<^verbatim>\<open>input[a..b]\<close>; every use in the model is guarded by a length check, as in the code.\<close>

definition subslice :: "nat \<Rightarrow> nat \<Rightarrow> 'a list \<Rightarrow> 'a list" where
  "subslice a b xs = take (b - a) (drop a xs)"

lemma subslice_length [simp]: "b \<le> length xs \<Longrightarrow> a \<le> b \<Longrightarrow> length (subslice a b xs) = b - a"
  by (simp add: subslice_def)

lemma subslice_split: "a \<le> b \<Longrightarrow> drop a xs = subslice a b xs @ drop b xs"
  using append_take_drop_id [of "b - a" "drop a xs"] by (simp add: subslice_def)

section \<open>UTF-8\<close>

text \<open>
  \<^verbatim>\<open>String::from_utf8\<close> accepts exactly the well-formed sequences: no overlong forms, no surrogates,
  nothing above U+10FFFF.
\<close>

definition utf8_cont :: "byte \<Rightarrow> bool" where
  "utf8_cont b \<longleftrightarrow> 128 \<le> b \<and> b \<le> 191"

definition utf8_second :: "byte \<Rightarrow> byte \<Rightarrow> bool" where
  "utf8_second a b \<longleftrightarrow>
     (if a = 224 then 160 \<le> b \<and> b \<le> 191
      else if a = 237 then 128 \<le> b \<and> b \<le> 159
      else if a = 240 then 144 \<le> b \<and> b \<le> 191
      else if a = 244 then 128 \<le> b \<and> b \<le> 143
      else utf8_cont b)"

fun utf8_valid :: "bytes \<Rightarrow> bool" where
  "utf8_valid [] = True"
| "utf8_valid (a # bs) =
     (if a < 128 then utf8_valid bs
      else if 194 \<le> a \<and> a \<le> 223 then
        (case bs of b # cs \<Rightarrow> utf8_cont b \<and> utf8_valid cs | _ \<Rightarrow> False)
      else if 224 \<le> a \<and> a \<le> 239 then
        (case bs of b # c # cs \<Rightarrow> utf8_second a b \<and> utf8_cont c \<and> utf8_valid cs | _ \<Rightarrow> False)
      else if 240 \<le> a \<and> a \<le> 244 then
        (case bs of b # c # d # cs \<Rightarrow>
           utf8_second a b \<and> utf8_cont c \<and> utf8_cont d \<and> utf8_valid cs | _ \<Rightarrow> False)
      else False)"

definition string_from_utf8 :: "bytes \<Rightarrow> rstring result" where
  "string_from_utf8 bs = (if utf8_valid bs then Inr bs else Inl Utf8Error)"

lemma utf8_valid_ascii: "\<forall>b \<in> set bs. b < 128 \<Longrightarrow> utf8_valid bs"
  by (induction bs) auto

section \<open>A byte connection\<close>

text \<open>
  The asynchronous reader and writer halves: \<open>rx\<close> holds the bytes the peer has sent and that are
  not read yet (followed by end of file), \<open>tx\<close> what has been written. \<open>read_exact\<close> on a
  connection that ends early consumes what is there and fails with \<^verbatim>\<open>UnexpectedEof\<close>.
\<close>

record conn =
  rx :: bytes
  tx :: bytes

definition read_exact :: "nat \<Rightarrow> (conn, bytes) io" where
  "read_exact n c =
     (if n \<le> length (rx c) then (Inr (take n (rx c)), c\<lparr>rx := drop n (rx c)\<rparr>)
      else (Inl UnexpectedEof, c\<lparr>rx := []\<rparr>))"

definition read_u8 :: "(conn, u8) io" where
  "read_u8 = io_bind (read_exact 1) (\<lambda>bs. io_return (hd bs))"

definition read_u16 :: "(conn, u16) io" where
  "read_u16 = io_bind (read_exact 2) (\<lambda>bs. io_return (from_be_u16 bs))"

definition read_u32 :: "(conn, u32) io" where
  "read_u32 = io_bind (read_exact 4) (\<lambda>bs. io_return (from_be_u32 bs))"

definition write_all :: "bytes \<Rightarrow> (conn, unit) io" where
  "write_all bs c = (Inr (), c\<lparr>tx := tx c @ bs\<rparr>)"

definition write_u8 :: "u8 \<Rightarrow> (conn, unit) io" where
  "write_u8 b = write_all [b]"

definition write_u16 :: "u16 \<Rightarrow> (conn, unit) io" where
  "write_u16 w = write_all (to_be_u16 w)"

definition write_u32 :: "u32 \<Rightarrow> (conn, unit) io" where
  "write_u32 w = write_all (to_be_u32 w)"

lemma read_exact_append [io_simps]:
  "rx c = bs @ rest \<Longrightarrow> length bs = n \<Longrightarrow> read_exact n c = (Inr bs, c\<lparr>rx := rest\<rparr>)"
  by (simp add: read_exact_def)

lemma read_exact_short [io_simps]:
  "length (rx c) < n \<Longrightarrow> read_exact n c = (Inl UnexpectedEof, c\<lparr>rx := []\<rparr>)"
  by (simp add: read_exact_def)

lemma read_exact_InrD:
  "read_exact n c = (Inr bs, d) \<Longrightarrow> rx c = bs @ rx d \<and> length bs = n \<and> tx d = tx c"
  by (auto simp: read_exact_def split: if_splits)

lemma read_u8_Cons [io_simps]: "rx c = b # rest \<Longrightarrow> read_u8 c = (Inr b, c\<lparr>rx := rest\<rparr>)"
  by (simp add: read_u8_def io_bind_def read_exact_def)

lemma read_u8_eof [io_simps]: "rx c = [] \<Longrightarrow> read_u8 c = (Inl UnexpectedEof, c)"
  by (cases c) (simp add: read_u8_def io_bind_def read_exact_def)

lemma read_u16_append [io_simps]:
  "rx c = to_be_u16 w @ rest \<Longrightarrow> read_u16 c = (Inr w, c\<lparr>rx := rest\<rparr>)"
  by (simp add: read_u16_def io_bind_def read_exact_append)

lemma read_u32_append [io_simps]:
  "rx c = to_be_u32 w @ rest \<Longrightarrow> read_u32 c = (Inr w, c\<lparr>rx := rest\<rparr>)"
  by (simp add: read_u32_def io_bind_def read_exact_append)

lemma read_u8_InrD: "read_u8 c = (Inr b, d) \<Longrightarrow> rx c = b # rx d \<and> tx d = tx c"
  by (cases "rx c") (auto simp: io_simps)

lemma read_u16_InrD: "read_u16 c = (Inr w, d) \<Longrightarrow> rx c = to_be_u16 w @ rx d \<and> tx d = tx c"
  by (auto simp: read_u16_def to_from_be_u16 elim!: io_bind_result_cases dest!: read_exact_InrD)

lemma read_u32_InrD: "read_u32 c = (Inr w, d) \<Longrightarrow> rx c = to_be_u32 w @ rx d \<and> tx d = tx c"
  by (auto simp: read_u32_def to_from_be_u32 elim!: io_bind_result_cases dest!: read_exact_InrD)

lemma write_apply [io_simps]:
  "write_all bs c = (Inr (), c\<lparr>tx := tx c @ bs\<rparr>)"
  "write_u8 b c = (Inr (), c\<lparr>tx := tx c @ [b]\<rparr>)"
  "write_u16 w c = (Inr (), c\<lparr>tx := tx c @ to_be_u16 w\<rparr>)"
  "write_u32 v c = (Inr (), c\<lparr>tx := tx c @ to_be_u32 v\<rparr>)"
  by (simp_all add: write_all_def write_u8_def write_u16_def write_u32_def)

section \<open>The interface of a message format\<close>

text \<open>
  A format has a writer, a reader, the messages it can carry and the bytes of each. The client's
  lemmas: the bytes determine the message even inside a longer stream, a sequence of written
  messages is read back message by message, and nothing of what follows is consumed.
\<close>

fun io_mapM :: "('a \<Rightarrow> ('s, unit) io) \<Rightarrow> 'a list \<Rightarrow> ('s, unit) io" where
  "io_mapM f [] = io_return ()"
| "io_mapM f (x # xs) = io_then (f x) (io_mapM f xs)"

fun io_repeat :: "nat \<Rightarrow> ('s, 'a) io \<Rightarrow> ('s, 'a list) io" where
  "io_repeat 0 m = io_return []"
| "io_repeat (Suc n) m = io_bind m (\<lambda>a. io_bind (io_repeat n m) (\<lambda>as. io_return (a # as)))"

locale wire_codec =
  fixes put :: "'a \<Rightarrow> (conn, unit) io"
    and get :: "(conn, 'a) io"
    and wire :: "'a \<Rightarrow> bytes"
    and valid :: "'a \<Rightarrow> bool"
  assumes put_wire: "valid a \<Longrightarrow> put a c = (Inr (), c\<lparr>tx := tx c @ wire a\<rparr>)"
    and get_wire: "valid a \<Longrightarrow> rx c = wire a @ rest \<Longrightarrow> get c = (Inr a, c\<lparr>rx := rest\<rparr>)"
begin

lemma wire_prefix_free:
  assumes "valid a" and "valid b" and "wire a @ r = wire b @ s"
  shows "a = b \<and> r = s"
proof -
  let ?c = "\<lparr>rx = wire a @ r, tx = []\<rparr>"
  from assms(1) have "get ?c = (Inr a, ?c\<lparr>rx := r\<rparr>)"
    by (rule get_wire) simp
  moreover from assms(2) have "get ?c = (Inr b, ?c\<lparr>rx := s\<rparr>)"
    by (rule get_wire) (simp add: assms(3))
  ultimately show ?thesis by simp
qed

lemma put_many:
  "\<forall>a \<in> set as. valid a \<Longrightarrow>
     io_mapM put as c = (Inr (), c\<lparr>tx := tx c @ concat (map wire as)\<rparr>)"
  by (induction as arbitrary: c) (simp_all add: io_then_Inr put_wire)

lemma get_many:
  "\<forall>a \<in> set as. valid a \<Longrightarrow> rx c = concat (map wire as) @ rest \<Longrightarrow>
     io_repeat (length as) get c = (Inr as, c\<lparr>rx := rest\<rparr>)"
proof (induction as arbitrary: c)
  case Nil
  then show ?case by simp
next
  case (Cons a as)
  from Cons.prems have "get c = (Inr a, c\<lparr>rx := concat (map wire as) @ rest\<rparr>)"
    by (intro get_wire) simp_all
  with Cons show ?case
    by (simp add: io_bind_def)
qed

text \<open>Everything written on one side of a connection is read on the other.\<close>

lemma stream_roundtrip:
  assumes "\<forall>a \<in> set as. valid a" and "tx c = []"
    and "io_mapM put as c = (Inr (), d)" and "rx e = tx d @ rest"
  shows "io_repeat (length as) get e = (Inr as, e\<lparr>rx := rest\<rparr>)"
proof -
  from assms(1-3) have "tx d = concat (map wire as)"
    by (auto simp: put_many)
  with assms(1,4) show ?thesis
    by (intro get_many) simp_all
qed

end

end
