(* ===== verification/Esp_Request.thy ===== *)
theory Esp_Request
  imports Esp_Prelude
begin

text \<open>
  The request that opens every tunnel stream (\<^verbatim>\<open>protocol/request.rs\<close>): its priorities, its two
  kinds, the writers and the reader. Shown: the reader takes back exactly what the writers put on
  the stream, and accepts no other bytes; the errors of each side.
\<close>

section \<open>Data\<close>

definition CMD_TCP_CONNECT :: u8 where
  "CMD_TCP_CONNECT = 1"

definition CMD_UDP_DATAGRAM :: u8 where
  "CMD_UDP_DATAGRAM = 2"

definition MAX_UDP_PAYLOAD_LEN :: nat where
  "MAX_UDP_PAYLOAD_LEN = u16_max"

datatype StreamPriority = Interactive | Bulk

fun priority_u8 :: "StreamPriority \<Rightarrow> u8" where
  "priority_u8 Interactive = 1"
| "priority_u8 Bulk = 2"

definition priority_try_from :: "u8 \<Rightarrow> StreamPriority result" where
  "priority_try_from value =
     (if value = 1 then Inr Interactive
      else if value = 2 then Inr Bulk
      else Inl (BailNum ''unsupported stream priority'' (unat value)))"

datatype TunnelRequest =
    TcpConnect rstring StreamPriority
  | UdpDatagram rstring StreamPriority bytes

section \<open>Writers\<close>

definition write_authority :: "rstring \<Rightarrow> (conn, unit) io" where
  "write_authority authority =
     (if length authority > u16_max then io_fail (Bail ''target authority too long'')
      else io_then (write_u16 (of_nat (length authority))) (write_all authority))"

definition write_tcp_connect_with_priority :: "rstring \<Rightarrow> StreamPriority \<Rightarrow> (conn, unit) io" where
  "write_tcp_connect_with_priority authority priority =
     io_then (write_u8 CMD_TCP_CONNECT)
       (io_then (write_u8 (priority_u8 priority)) (write_authority authority))"

definition write_tcp_connect :: "rstring \<Rightarrow> (conn, unit) io" where
  "write_tcp_connect authority = write_tcp_connect_with_priority authority Interactive"

definition write_udp_datagram_with_priority ::
  "rstring \<Rightarrow> StreamPriority \<Rightarrow> bytes \<Rightarrow> (conn, unit) io"
where
  "write_udp_datagram_with_priority authority priority payload =
     (if length payload > MAX_UDP_PAYLOAD_LEN then io_fail (Bail ''UDP payload too large'')
      else io_then (write_u8 CMD_UDP_DATAGRAM)
        (io_then (write_u8 (priority_u8 priority))
          (io_then (write_authority authority)
            (io_then (write_u16 (of_nat (length payload))) (write_all payload)))))"

definition write_udp_datagram :: "rstring \<Rightarrow> bytes \<Rightarrow> (conn, unit) io" where
  "write_udp_datagram authority payload =
     write_udp_datagram_with_priority authority Interactive payload"

section \<open>The reader\<close>

definition read_authority :: "(conn, rstring) io" where
  "read_authority =
     io_bind read_u16 (\<lambda>len.
       if unat len = 0 then io_fail (Bail ''empty target authority'')
       else io_bind (read_exact (unat len)) (\<lambda>bs. io_result (string_from_utf8 bs)))"

definition read_tunnel_request :: "(conn, TunnelRequest) io" where
  "read_tunnel_request =
     io_bind read_u8 (\<lambda>cmd.
     io_bind read_u8 (\<lambda>p.
     io_bind (io_result (priority_try_from p)) (\<lambda>priority.
     io_bind read_authority (\<lambda>authority.
       if cmd = CMD_TCP_CONNECT then io_return (TcpConnect authority priority)
       else if cmd = CMD_UDP_DATAGRAM then
         io_bind read_u16 (\<lambda>payload_len.
         io_bind (read_exact (unat payload_len)) (\<lambda>payload.
           io_return (UdpDatagram authority priority payload)))
       else io_fail (BailNum ''unsupported tunnel request command'' (unat cmd))))))"

section \<open>The format\<close>

fun write_request :: "TunnelRequest \<Rightarrow> (conn, unit) io" where
  "write_request (TcpConnect authority priority) =
     write_tcp_connect_with_priority authority priority"
| "write_request (UdpDatagram authority priority payload) =
     write_udp_datagram_with_priority authority priority payload"

definition authority_wire :: "rstring \<Rightarrow> bytes" where
  "authority_wire authority = to_be_u16 (of_nat (length authority)) @ authority"

fun request_wire :: "TunnelRequest \<Rightarrow> bytes" where
  "request_wire (TcpConnect authority priority) =
     [1, priority_u8 priority] @ authority_wire authority"
| "request_wire (UdpDatagram authority priority payload) =
     [2, priority_u8 priority] @ authority_wire authority
       @ to_be_u16 (of_nat (length payload)) @ payload"

definition authority_valid :: "rstring \<Rightarrow> bool" where
  "authority_valid authority \<longleftrightarrow>
     authority \<noteq> [] \<and> length authority \<le> u16_max \<and> utf8_valid authority"

fun request_valid :: "TunnelRequest \<Rightarrow> bool" where
  "request_valid (TcpConnect authority priority) = authority_valid authority"
| "request_valid (UdpDatagram authority priority payload) =
     (authority_valid authority \<and> length payload \<le> u16_max)"

lemma priority_roundtrip [simp]: "priority_try_from (priority_u8 p) = Inr p"
  by (cases p) (simp_all add: priority_try_from_def)

lemma priority_try_from_InrD: "priority_try_from v = Inr p \<Longrightarrow> v = priority_u8 p"
  by (auto simp: priority_try_from_def split: if_splits)

lemma write_authority_ok:
  "length authority \<le> u16_max \<Longrightarrow>
     write_authority authority c = (Inr (), c\<lparr>tx := tx c @ authority_wire authority\<rparr>)"
  by (simp add: write_authority_def authority_wire_def io_then_Inr [OF write_apply(3)]
      write_apply)

lemma read_authority_wire:
  assumes "authority_valid authority" and "rx c = authority_wire authority @ rest"
  shows "read_authority c = (Inr authority, c\<lparr>rx := rest\<rparr>)"
proof -
  let ?len = "of_nat (length authority) :: u16"
  from assms(1) have len: "unat ?len = length authority" and ne: "authority \<noteq> []"
    and utf8: "utf8_valid authority"
    by (simp_all add: authority_valid_def unat_of_nat_u16)
  from assms(2) have "read_u16 c = (Inr ?len, c\<lparr>rx := authority @ rest\<rparr>)"
    by (intro read_u16_append) (simp add: authority_wire_def)
  then show ?thesis
    using len ne utf8
    by (simp add: read_authority_def io_bind_def read_exact_def string_from_utf8_def)
qed

lemma read_authority_InrD:
  assumes "read_authority c = (Inr a, d)"
  shows "authority_valid a \<and> rx c = authority_wire a @ rx d \<and> tx d = tx c"
proof -
  from assms obtain len e bs where r: "read_u16 c = (Inr len, e)" "unat len \<noteq> 0"
    "read_exact (unat len) e = (Inr bs, d)" "string_from_utf8 bs = Inr a"
    unfolding read_authority_def
    by (auto elim!: io_bind_result_cases split: if_splits)
  from r(4) have "bs = a" and "utf8_valid a"
    by (auto simp: string_from_utf8_def split: if_splits)
  moreover from r(3) have "rx e = bs @ rx d" "length bs = unat len" "tx d = tx e"
    using read_exact_InrD by blast+
  moreover from r(1) have "rx c = to_be_u16 len @ rx e" "tx e = tx c"
    using read_u16_InrD by blast+
  ultimately show ?thesis
    using r(2) unat_u16_less [of len]
    by (auto simp: authority_valid_def authority_wire_def u16_max_def)
qed

lemma write_request_ok:
  assumes "request_valid r"
  shows "write_request r c = (Inr (), c\<lparr>tx := tx c @ request_wire r\<rparr>)"
proof (cases r)
  case (TcpConnect authority priority)
  with assms show ?thesis
    by (simp add: write_tcp_connect_with_priority_def io_then_def io_bind_def write_apply
        write_authority_ok authority_valid_def CMD_TCP_CONNECT_def)
next
  case (UdpDatagram authority priority payload)
  with assms show ?thesis
    by (simp add: write_udp_datagram_with_priority_def io_then_def io_bind_def write_apply
        write_authority_ok authority_valid_def CMD_UDP_DATAGRAM_def MAX_UDP_PAYLOAD_LEN_def)
qed

lemma read_request_wire:
  assumes "request_valid r" and "rx c = request_wire r @ rest"
  shows "read_tunnel_request c = (Inr r, c\<lparr>rx := rest\<rparr>)"
proof (cases r)
  case (TcpConnect authority priority)
  let ?c = "c\<lparr>rx := authority_wire authority @ rest\<rparr>"
  from assms TcpConnect have "read_authority ?c = (Inr authority, ?c\<lparr>rx := rest\<rparr>)"
    by (intro read_authority_wire) simp_all
  with assms TcpConnect show ?thesis
    by (simp add: read_tunnel_request_def io_bind_def read_u8_Cons CMD_TCP_CONNECT_def)
next
  case (UdpDatagram authority priority payload)
  let ?rest = "to_be_u16 (of_nat (length payload)) @ payload @ rest"
  let ?c = "c\<lparr>rx := authority_wire authority @ ?rest\<rparr>"
  from assms UdpDatagram have a: "read_authority ?c = (Inr authority, ?c\<lparr>rx := ?rest\<rparr>)"
    by (intro read_authority_wire) simp_all
  have "read_u16 (c\<lparr>rx := ?rest\<rparr>) =
      (Inr (of_nat (length payload)), c\<lparr>rx := payload @ rest\<rparr>)"
    using read_u16_append [of "c\<lparr>rx := ?rest\<rparr>"] by simp
  moreover from assms UdpDatagram have "unat (of_nat (length payload) :: u16) = length payload"
    by (simp add: unat_of_nat_u16)
  ultimately show ?thesis
    using assms UdpDatagram a
    by (simp add: read_tunnel_request_def io_bind_def read_u8_Cons read_exact_def
        CMD_TCP_CONNECT_def CMD_UDP_DATAGRAM_def)
qed

interpretation request_codec: wire_codec write_request read_tunnel_request request_wire request_valid
  by unfold_locales (simp_all add: write_request_ok read_request_wire)

lemma read_request_InrD:
  assumes "read_tunnel_request c = (Inr r, d)"
  shows "request_valid r \<and> rx c = request_wire r @ rx d \<and> tx d = tx c"
proof -
  from assms obtain cmd e1 p e2 priority authority e3 where
    r: "read_u8 c = (Inr cmd, e1)" "read_u8 e1 = (Inr p, e2)"
      "priority_try_from p = Inr priority" "read_authority e2 = (Inr authority, e3)" and
    k: "(if cmd = CMD_TCP_CONNECT then io_return (TcpConnect authority priority)
       else if cmd = CMD_UDP_DATAGRAM then
         io_bind read_u16 (\<lambda>payload_len.
         io_bind (read_exact (unat payload_len)) (\<lambda>payload.
           io_return (UdpDatagram authority priority payload)))
       else io_fail (BailNum ''unsupported tunnel request command'' (unat cmd))) e3 = (Inr r, d)"
    unfolding read_tunnel_request_def by (auto elim!: io_bind_result_cases)
  from r(1,2) have "rx c = cmd # p # rx e2" "tx e2 = tx c"
    by (auto dest!: read_u8_InrD)
  moreover from r(4) have "authority_valid authority" "rx e2 = authority_wire authority @ rx e3"
    "tx e3 = tx e2"
    using read_authority_InrD by blast+
  moreover from r(3) have "p = priority_u8 priority" by (rule priority_try_from_InrD)
  moreover have "r = TcpConnect authority priority \<and> cmd = 1 \<and> d = e3 \<or>
      (\<exists>len payload. r = UdpDatagram authority priority payload \<and> cmd = 2 \<and> tx d = tx e3 \<and>
         rx e3 = to_be_u16 len @ payload @ rx d \<and> length payload = unat len)"
    using k
    by (auto simp: CMD_TCP_CONNECT_def CMD_UDP_DATAGRAM_def split: if_splits
        elim!: io_bind_result_cases dest!: read_u16_InrD read_exact_InrD)
  ultimately show ?thesis
    by (auto simp: unat_u16_le)
qed

section \<open>Properties\<close>

text \<open>
  C12: requests written one after the other on a stream are read back one after the other,
  whatever bytes follow them.
\<close>

theorem requests_roundtrip:
  assumes "\<forall>r \<in> set rs. request_valid r" and "tx c = []"
    and "io_mapM write_request rs c = (Inr (), d)" and "rx e = tx d @ rest"
  shows "io_repeat (length rs) read_tunnel_request e = (Inr rs, e\<lparr>rx := rest\<rparr>)"
  using assms by (rule request_codec.stream_roundtrip)

theorem requests_roundtrip_witness:
  "io_repeat 2 read_tunnel_request \<lparr>rx = [1, 1, 0, 1, 65, 2, 2, 0, 1, 66, 0, 1, 9, 77], tx = []\<rparr> =
    (Inr [TcpConnect [65] Interactive, UdpDatagram [66] Bulk [9]], \<lparr>rx = [77], tx = []\<rparr>)"
proof -
  let ?rs = "[TcpConnect [65] Interactive, UdpDatagram [66] Bulk [9]]"
  have v: "\<forall>r \<in> set ?rs. request_valid r"
    by (simp add: authority_valid_def u16_max_def)
  have "io_mapM write_request ?rs \<lparr>rx = [], tx = []\<rparr> =
      (Inr (), \<lparr>rx = [], tx = [1, 1, 0, 1, 65, 2, 2, 0, 1, 66, 0, 1, 9]\<rparr>)"
    using request_codec.put_many [OF v]
    by (simp add: authority_wire_def to_be_u16_def del: io_mapM.simps)
  then show ?thesis
    using requests_roundtrip [OF v, of "\<lparr>rx = [], tx = []\<rparr>"
        "\<lparr>rx = [], tx = [1, 1, 0, 1, 65, 2, 2, 0, 1, 66, 0, 1, 9]\<rparr>"
        "\<lparr>rx = [1, 1, 0, 1, 65, 2, 2, 0, 1, 66, 0, 1, 9, 77], tx = []\<rparr>" "[77]"]
    by (simp add: numeral_2_eq_2)
qed

text \<open>
  C13: what the reader accepts is exactly the encoding of the request it returns, which is
  well-formed: a non-empty UTF-8 authority, a known command and a known priority. It consumes no
  byte beyond the request and writes nothing.
\<close>

theorem read_request_canonical:
  assumes "read_tunnel_request c = (Inr r, d)"
  shows "request_valid r \<and> rx c = request_wire r @ rx d \<and> tx d = tx c"
  using assms by (rule read_request_InrD)

theorem read_request_canonical_witness:
  "rx \<lparr>rx = [1, 2, 0, 1, 65, 7], tx = []\<rparr> = request_wire (TcpConnect [65] Bulk) @ [7]"
  using read_request_canonical [of "\<lparr>rx = [1, 2, 0, 1, 65, 7], tx = []\<rparr>" "TcpConnect [65] Bulk"
      "\<lparr>rx = [7], tx = []\<rparr>"]
  by (simp add: read_tunnel_request_def read_authority_def io_bind_def read_u8_def read_u16_def
      read_exact_def priority_try_from_def CMD_TCP_CONNECT_def CMD_UDP_DATAGRAM_def
      string_from_utf8_def from_be_u16_def be_decode_def)

end
