(* ===== verification/Esp_Udp.thy ===== *)
theory Esp_Udp
  imports Esp_Collections
begin

text \<open>
  The reliable datagram layer of \<^verbatim>\<open>protocol/udp.rs\<close>: the packet format, the sender and receiver
  bookkeeping of a session and the congestion window. Instants and durations are nanoseconds;
  32-bit sequence numbers wrap as in the release profile, and \<^verbatim>\<open>usize\<close> products are reduced modulo
  \<open>2 ^ 64\<close>.
\<close>

section \<open>Packets\<close>

definition UDP_MAGIC :: bytes where
  "UDP_MAGIC = ascii ''ESPU''"

definition UDP_VERSION :: u8 where
  "UDP_VERSION = 1"

definition UDP_HEADER_LEN :: nat where
  "UDP_HEADER_LEN = 4 + 1 + 1 + 8 + 4 + 4 + 2"

definition UDP_MAX_PAYLOAD :: nat where
  "UDP_MAX_PAYLOAD = 65507 - UDP_HEADER_LEN"

definition MAX_RETRANSMIT_DELAY :: nat where
  "MAX_RETRANSMIT_DELAY = 16 * 1000000000"

text \<open>\<^verbatim>\<open>Duration::MAX\<close>, where \<^verbatim>\<open>saturating_mul\<close> stops.\<close>

definition duration_max :: nat where
  "duration_max = u64_max * 1000000000 + 999999999"

datatype UdpPacketKind = KData | KAck | KClose

fun kind_u8 :: "UdpPacketKind \<Rightarrow> u8" where
  "kind_u8 KData = 1"
| "kind_u8 KAck = 2"
| "kind_u8 KClose = 3"

definition kind_try_from :: "u8 \<Rightarrow> UdpPacketKind result" where
  "kind_try_from value =
     (if value = 1 then Inr KData else if value = 2 then Inr KAck else if value = 3 then Inr KClose
      else Inl (BailNum ''unknown UDP underlay packet kind'' (unat value)))"

record UdpPacket =
  p_kind :: UdpPacketKind
  p_session :: u64
  p_seq :: u32
  p_ack :: u32
  p_payload :: bytes

definition udp_data :: "u64 \<Rightarrow> u32 \<Rightarrow> u32 \<Rightarrow> bytes \<Rightarrow> UdpPacket" where
  "udp_data session_id seq ack payload =
     \<lparr>p_kind = KData, p_session = session_id, p_seq = seq, p_ack = ack, p_payload = payload\<rparr>"

definition udp_ack :: "u64 \<Rightarrow> u32 \<Rightarrow> UdpPacket" where
  "udp_ack session_id ack =
     \<lparr>p_kind = KAck, p_session = session_id, p_seq = 0, p_ack = ack, p_payload = []\<rparr>"

definition udp_encode :: "UdpPacket \<Rightarrow> bytes result" where
  "udp_encode p =
     (if length (p_payload p) \<le> UDP_MAX_PAYLOAD
      then Inr (UDP_MAGIC @ [UDP_VERSION] @ [kind_u8 (p_kind p)] @ to_be_u64 (p_session p)
             @ to_be_u32 (p_seq p) @ to_be_u32 (p_ack p)
             @ to_be_u16 (of_nat (length (p_payload p))) @ p_payload p)
      else Inl (Bail ''UDP underlay payload too large''))"

definition udp_decode :: "bytes \<Rightarrow> UdpPacket result" where
  "udp_decode input =
     (if \<not> length input \<ge> UDP_HEADER_LEN then Inl (Bail ''UDP underlay packet too short'')
      else if subslice 0 4 input \<noteq> UDP_MAGIC then Inl (Bail ''bad UDP underlay magic'')
      else if input ! 4 \<noteq> UDP_VERSION then Inl (Bail ''unsupported UDP underlay version'')
      else res_bind (kind_try_from (input ! 5)) (\<lambda>kind.
        let session_id = from_be_u64 (subslice 6 14 input);
            seq = from_be_u32 (subslice 14 18 input);
            ack = from_be_u32 (subslice 18 22 input);
            payload_len = unat (from_be_u16 (subslice 22 24 input))
        in if length input = UDP_HEADER_LEN + payload_len
           then Inr \<lparr>p_kind = kind, p_session = session_id, p_seq = seq, p_ack = ack,
                  p_payload = drop UDP_HEADER_LEN input\<rparr>
           else Inl (Bail ''UDP underlay packet length mismatch'')))"

section \<open>The reliability state of a session\<close>

record DeliveredDatagram =
  d_seq :: u32
  d_payload :: bytes

record PendingPacket =
  pp_packet :: UdpPacket
  pp_last_sent :: nat
  pp_retry_after :: nat

record UdpReliability =
  r_session :: u64
  r_next_seq :: u32
  r_highest :: u32
  r_ooo :: "(u32, bytes) btree"
  r_pending :: "(u32, PendingPacket) btree"
  r_retransmit_after :: nat

definition reliability_new :: "u64 \<Rightarrow> nat \<Rightarrow> UdpReliability" where
  "reliability_new session_id retransmit_after =
     \<lparr>r_session = session_id, r_next_seq = 1, r_highest = 0, r_ooo = [], r_pending = [],
      r_retransmit_after = retransmit_after\<rparr>"

definition next_data :: "bytes \<Rightarrow> nat \<Rightarrow> UdpReliability \<Rightarrow> UdpPacket \<times> UdpReliability" where
  "next_data payload now r =
     (let seq = r_next_seq r;
          packet = udp_data (r_session r) seq (r_highest r) payload;
          entry = \<lparr>pp_packet = packet, pp_last_sent = now,
                   pp_retry_after = min (r_retransmit_after r) MAX_RETRANSMIT_DELAY\<rparr>
      in (packet, r\<lparr>r_next_seq := max (seq + 1) 1,
                    r_pending := bt_insert seq entry (r_pending r)\<rparr>))"

definition mark_acked :: "u32 \<Rightarrow> UdpReliability \<Rightarrow> UdpReliability" where
  "mark_acked ack r =
     (let acked = map fst (filter (\<lambda>(seq, _). seq \<le> ack) (r_pending r))
      in r\<lparr>r_pending := foldl (\<lambda>m seq. bt_remove seq m) (r_pending r) acked\<rparr>)"

function deliver_loop ::
  "u32 \<Rightarrow> (u32, bytes) btree \<Rightarrow> DeliveredDatagram list \<times> u32 \<times> (u32, bytes) btree"
where
  "deliver_loop highest ooo =
     (case map_of ooo (highest + 1) of
        None \<Rightarrow> ([], highest, ooo)
      | Some payload \<Rightarrow>
          (case deliver_loop (highest + 1) (bt_remove (highest + 1) ooo) of
             (ds, h, m) \<Rightarrow> (\<lparr>d_seq = highest + 1, d_payload = payload\<rparr> # ds, h, m)))"
  by pat_completeness auto
termination
  by (relation "measure (\<lambda>(_, ooo). length ooo)") (auto dest: bt_remove_length)

declare deliver_loop.simps [simp del]

definition handle_packet ::
  "UdpPacket \<Rightarrow> UdpReliability \<Rightarrow> (DeliveredDatagram list \<times> UdpPacket) result \<times> UdpReliability"
where
  "handle_packet packet r =
     (if p_session packet \<noteq> r_session r
      then (Inl (Bail ''UDP underlay session id mismatch''), r)
      else
        let r = mark_acked (p_ack packet) r;
            (delivered, r) =
              (if p_kind packet = KData \<and> p_seq packet > r_highest r
               then case deliver_loop (r_highest r)
                      (bt_or_insert (p_seq packet) (p_payload packet) (r_ooo r)) of
                      (ds, h, m) \<Rightarrow> (ds, r\<lparr>r_highest := h, r_ooo := m\<rparr>)
               else ([], r))
        in (Inr (delivered, udp_ack (r_session r) (r_highest r)), r))"

definition retransmit_entry :: "nat \<Rightarrow> PendingPacket \<Rightarrow> PendingPacket" where
  "retransmit_entry now e =
     e\<lparr>pp_last_sent := now,
       pp_retry_after := min (min (pp_retry_after e * 2) duration_max) MAX_RETRANSMIT_DELAY\<rparr>"

definition entry_due :: "nat \<Rightarrow> PendingPacket \<Rightarrow> bool" where
  "entry_due now e \<longleftrightarrow> now - pp_last_sent e \<ge> pp_retry_after e"

definition due_retransmissions :: "nat \<Rightarrow> UdpReliability \<Rightarrow> UdpPacket list \<times> UdpReliability" where
  "due_retransmissions now r =
     (map (\<lambda>(_, e). pp_packet e) (filter (\<lambda>(_, e). entry_due now e) (r_pending r)),
      r\<lparr>r_pending :=
          map (\<lambda>(seq, e). (seq, if entry_due now e then retransmit_entry now e else e))
            (r_pending r)\<rparr>)"

definition pending_len :: "UdpReliability \<Rightarrow> nat" where
  "pending_len r = length (r_pending r)"

section \<open>Congestion window\<close>







section \<open>The packet format\<close>

lemma UDP_MAGIC_length [simp]: "length UDP_MAGIC = 4"
  by (simp add: UDP_MAGIC_def ascii_def)

lemma kind_roundtrip [simp]: "kind_try_from (kind_u8 k) = Inr k"
  by (cases k) (simp_all add: kind_try_from_def)

lemma kind_try_from_InrD: "kind_try_from v = Inr k \<Longrightarrow> v = kind_u8 k"
  by (auto simp: kind_try_from_def split: if_splits)

lemma subslice_append_mid:
  "length xs = a \<Longrightarrow> length ys = b - a \<Longrightarrow> subslice a b (xs @ ys @ zs) = ys"
  by (simp add: subslice_def)

lemma udp_encode_length: "udp_encode p = Inr bs \<Longrightarrow> length bs \<le> 65507"
  by (auto simp: udp_encode_def UDP_MAX_PAYLOAD_def UDP_HEADER_LEN_def split: if_splits)

lemma udp_decode_encode: "udp_encode p = Inr bs \<Longrightarrow> udp_decode bs = Inr p"
proof -
  assume enc: "udp_encode p = Inr bs"
  let ?len = "of_nat (length (p_payload p)) :: u16"
  let ?k = "[kind_u8 (p_kind p)]" and ?v = "[UDP_VERSION]"
  let ?s = "to_be_u64 (p_session p)" and ?q = "to_be_u32 (p_seq p)" and ?a = "to_be_u32 (p_ack p)"
  from enc have le: "length (p_payload p) \<le> UDP_MAX_PAYLOAD"
    and bs: "bs = UDP_MAGIC @ ?v @ ?k @ ?s @ ?q @ ?a @ to_be_u16 ?len @ p_payload p"
    by (auto simp: udp_encode_def split: if_splits)
  from le have len: "unat ?len = length (p_payload p)"
    by (intro unat_of_nat_u16) (simp add: UDP_MAX_PAYLOAD_def u16_max_def)
  have "subslice 0 4 bs = UDP_MAGIC" "bs ! 4 = UDP_VERSION" "bs ! 5 = kind_u8 (p_kind p)"
    unfolding bs by (simp_all add: subslice_def nth_append)
  moreover have "subslice 6 14 bs = ?s" "subslice 14 18 bs = ?q" "subslice 18 22 bs = ?a"
    "subslice 22 24 bs = to_be_u16 ?len" "drop 24 bs = p_payload p"
    unfolding bs by (simp_all add: subslice_def)
  moreover have "length bs = 24 + length (p_payload p)"
    by (simp add: bs)
  ultimately show ?thesis
    by (simp add: udp_decode_def UDP_HEADER_LEN_def len)
qed

lemma udp_decode_InrD:
  assumes "udp_decode bs = Inr p" and "length bs \<le> 65507"
  shows "udp_encode p = Inr bs"
proof -
  let ?len = "from_be_u16 (subslice 22 24 bs)"
  from assms(1) have ge: "24 \<le> length bs" and magic: "subslice 0 4 bs = UDP_MAGIC"
    and ver: "bs ! 4 = UDP_VERSION" and kind: "bs ! 5 = kind_u8 (p_kind p)"
    and sess: "p_session p = from_be_u64 (subslice 6 14 bs)"
    and seq: "p_seq p = from_be_u32 (subslice 14 18 bs)"
    and ack: "p_ack p = from_be_u32 (subslice 18 22 bs)"
    and tot: "length bs = 24 + unat ?len" and pay: "p_payload p = drop 24 bs"
    by (auto simp: udp_decode_def UDP_HEADER_LEN_def res_bind_eq_Inr Let_def
        dest!: kind_try_from_InrD split: if_splits)
  have len: "of_nat (length (p_payload p)) = ?len"
    using tot pay by simp
  have parts: "to_be_u32 (p_seq p) = subslice 14 18 bs" "to_be_u32 (p_ack p) = subslice 18 22 bs"
    "to_be_u16 ?len = subslice 22 24 bs" "to_be_u64 (p_session p) = subslice 6 14 bs"
    using ge by (simp_all add: seq ack sess to_from_be_u32 to_from_be_u16 to_from_be_u64)
  have split: "bs = subslice 0 4 bs @ [bs ! 4] @ [bs ! 5] @ subslice 6 14 bs @ subslice 14 18 bs
      @ subslice 18 22 bs @ subslice 22 24 bs @ drop 24 bs"
    using ge subslice_split [of 0 4 bs] Cons_nth_drop_Suc [of 4 bs] Cons_nth_drop_Suc [of 5 bs]
      subslice_split [of 6 14 bs] subslice_split [of 14 18 bs] subslice_split [of 18 22 bs]
      subslice_split [of 22 24 bs]
    by simp
  have "length (p_payload p) \<le> UDP_MAX_PAYLOAD"
    using assms(2) ge by (simp add: pay UDP_MAX_PAYLOAD_def UDP_HEADER_LEN_def)
  then show ?thesis
    unfolding udp_encode_def len parts
    using split magic ver kind pay by simp
qed

section \<open>Acknowledgements\<close>

lemma foldl_bt_remove: "foldl (\<lambda>m k. bt_remove k m) m ks = filter (\<lambda>(j, _). j \<notin> set ks) m"
  by (induction ks arbitrary: m) (auto simp: bt_remove_def filter_empty_conv intro!: filter_cong)

lemma mark_acked_eq: "mark_acked ack r = r\<lparr>r_pending := filter (\<lambda>(k, _). \<not> k \<le> ack) (r_pending r)\<rparr>"
proof -
  have "filter (\<lambda>(j, _). j \<notin> set (map fst (filter (\<lambda>(seq, _). seq \<le> ack) m))) m =
      filter (\<lambda>(k, _). \<not> k \<le> ack) m" for m :: "(u32, PendingPacket) btree"
    by (rule filter_cong) force+
  then show ?thesis
    by (simp add: mark_acked_def Let_def foldl_bt_remove)
qed

lemma mark_acked_simps [simp]:
  "r_session (mark_acked a r) = r_session r" "r_next_seq (mark_acked a r) = r_next_seq r"
  "r_highest (mark_acked a r) = r_highest r" "r_ooo (mark_acked a r) = r_ooo r"
  by (simp_all add: mark_acked_eq)

lemma mark_acked_wf: "bt_wf (r_pending r) \<Longrightarrow> bt_wf (r_pending (mark_acked a r))"
  by (simp add: mark_acked_eq filter_keys_wf)

lemma mark_acked_pending:
  "map_of (r_pending (mark_acked a r)) k = (if k \<le> a then None else map_of (r_pending r) k)"
  using map_of_filter_key [of "\<lambda>k. \<not> k \<le> a" "r_pending r" k] by (simp add: mark_acked_eq)

section \<open>In-order delivery\<close>

lemma deliver_loop_None: "map_of m (h + 1) = None \<Longrightarrow> deliver_loop h m = ([], h, m)"
  by (simp add: deliver_loop.simps [of h m])

lemma deliver_loop_Some:
  "map_of m (h + 1) = Some p \<Longrightarrow> deliver_loop (h + 1) (bt_remove (h + 1) m) = (ds, h', m') \<Longrightarrow>
     deliver_loop h m = (\<lparr>d_seq = h + 1, d_payload = p\<rparr> # ds, h', m')"
  by (simp add: deliver_loop.simps [of h m])

lemma unat_u32_Suc: "(h :: u32) < h + 1 \<Longrightarrow> unat (h + 1) = Suc (unat h)"
  using unat_u32_less [of h] by (auto simp: word_less_nat_alt unat_word_ariths split: if_splits)

lemma of_nat_Suc_unat: "(h :: u32) < h + 1 \<Longrightarrow> h + 1 = of_nat (Suc (unat h))"
  by (simp add: add.commute)

text \<open>
  The loop delivers the maximal run of consecutive sequence numbers after \<open>h\<close>, in order, and
  leaves the rest.
\<close>

lemma deliver_loop_spec:
  assumes "bt_wf m" and "\<forall>k \<in> dom (map_of m). h < k"
    and "deliver_loop h m = (ds, h', m')"
  shows "unat h' = unat h + length ds \<and>
    map d_seq ds = map of_nat [Suc (unat h)..<Suc (unat h')] \<and>
    (\<forall>d \<in> set ds. map_of m (d_seq d) = Some (d_payload d)) \<and>
    bt_wf m' \<and> map_of m' \<subseteq>\<^sub>m map_of m \<and>
    (\<forall>k \<in> dom (map_of m'). h' < k) \<and> map_of m' (h' + 1) = None"
  using assms
proof (induction h m arbitrary: ds h' m' rule: deliver_loop.induct)
  case (1 h m)
  show ?case
  proof (cases "map_of m (h + 1)")
    case None
    with "1.prems" show ?thesis
      by (auto simp: deliver_loop_None)
  next
    case (Some p)
    let ?m = "bt_remove (h + 1) m"
    obtain es where rec: "deliver_loop (h + 1) ?m = (es, h', m')"
      and ds: "ds = \<lparr>d_seq = h + 1, d_payload = p\<rparr> # es"
      using "1.prems"(3) Some
      by (cases "deliver_loop (h + 1) ?m") (auto simp: deliver_loop_Some)
    from Some "1.prems"(2) have lt: "h < h + 1" by blast
    then have suc: "unat (h + 1) = Suc (unat h)" by (rule unat_u32_Suc)
    have keys: "\<forall>k \<in> dom (map_of ?m). h + 1 < k"
    proof
      fix k assume "k \<in> dom (map_of ?m)"
      with "1.prems"(2) have "h < k" and "k \<noteq> h + 1"
        by (auto split: if_splits)
      then show "h + 1 < k"
        using suc by (auto simp: word_less_nat_alt word_eq_iff_unsigned [where 'a = nat])
    qed
    from "1.IH" [OF Some bt_remove_wf [OF "1.prems"(1)] keys rec]
    have ih: "unat h' = unat (h + 1) + length es"
      "map d_seq es = map of_nat [Suc (unat (h + 1))..<Suc (unat h')]"
      "\<forall>d \<in> set es. map_of ?m (d_seq d) = Some (d_payload d)"
      "bt_wf m'" "map_of m' \<subseteq>\<^sub>m map_of ?m" "\<forall>k \<in> dom (map_of m'). h' < k"
      "map_of m' (h' + 1) = None"
      by blast+
    have "[Suc (unat h)..<Suc (unat h')] = Suc (unat h) # [Suc (unat (h + 1))..<Suc (unat h')]"
      using ih(1) suc by (simp add: upt_conv_Cons del: upt_Suc)
    moreover have "map_of m' \<subseteq>\<^sub>m map_of m"
      using map_le_trans [OF ih(5)] by (simp add: upd_None_map_le)
    ultimately show ?thesis
      using ih ds Some suc of_nat_Suc_unat [OF lt]
      by (auto simp del: upt_Suc split: if_splits)
  qed
qed

section \<open>Two endpoints and a hostile network\<close>

text \<open>
  A session in one direction: a sender that emits data and hears acknowledgements, a receiver that
  hears data and emits acknowledgements. A network is the set of packets ever put on it; a step
  may hand over any of them, any number of times and in any order, or none: loss, duplication and
  reordering are all included. \<open>sent\<close> and \<open>got\<close> record what the applications passed in and were
  given. A run is limited to the \<open>2 ^ 32 - 1\<close> datagrams before the sequence number wraps.
\<close>

record udp_sys =
  sender :: UdpReliability
  receiver :: UdpReliability
  to_receiver :: "UdpPacket set"
  to_sender :: "UdpPacket set"
  sent :: "bytes list"
  got :: "bytes list"

definition udp_init :: "u64 \<Rightarrow> nat \<Rightarrow> udp_sys" where
  "udp_init sid rto =
     \<lparr>sender = reliability_new sid rto, receiver = reliability_new sid rto,
      to_receiver = {}, to_sender = {}, sent = [], got = []\<rparr>"

inductive udp_step :: "udp_sys \<Rightarrow> udp_sys \<Rightarrow> bool" where
  send: "next_data payload now (sender s) = (p, x) \<Longrightarrow> r_next_seq (sender s) \<noteq> - 1 \<Longrightarrow>
    udp_step s (s\<lparr>sender := x, to_receiver := insert p (to_receiver s), sent := sent s @ [payload]\<rparr>)"
| resend: "due_retransmissions now (sender s) = (ps, x) \<Longrightarrow>
    udp_step s (s\<lparr>sender := x, to_receiver := set ps \<union> to_receiver s\<rparr>)"
| at_receiver: "p \<in> to_receiver s \<Longrightarrow> handle_packet p (receiver s) = (Inr (ds, a), y) \<Longrightarrow>
    udp_step s (s\<lparr>receiver := y, to_sender := insert a (to_sender s),
      got := got s @ map d_payload ds\<rparr>)"
| at_sender: "p \<in> to_sender s \<Longrightarrow> handle_packet p (sender s) = (Inr (ds, a), x) \<Longrightarrow>
    udp_step s (s\<lparr>sender := x, to_receiver := insert a (to_receiver s)\<rparr>)"

inductive udp_reachable :: "u64 \<Rightarrow> nat \<Rightarrow> udp_sys \<Rightarrow> bool" for sid rto where
  start: "udp_reachable sid rto (udp_init sid rto)"
| step: "udp_reachable sid rto s \<Longrightarrow> udp_step s t \<Longrightarrow> udp_reachable sid rto t"

text \<open>A packet that carries the datagram its sequence number names.\<close>

definition carries :: "u64 \<Rightarrow> bytes list \<Rightarrow> UdpPacket \<Rightarrow> bool" where
  "carries sid xs p \<longleftrightarrow> p_kind p = KData \<and> p_session p = sid \<and> p_ack p = 0 \<and>
     1 \<le> unat (p_seq p) \<and> unat (p_seq p) \<le> length xs \<and> p_payload p = xs ! (unat (p_seq p) - 1)"

definition bare_ack :: "u64 \<Rightarrow> nat \<Rightarrow> UdpPacket \<Rightarrow> bool" where
  "bare_ack sid h p \<longleftrightarrow> p_kind p = KAck \<and> p_session p = sid \<and> unat (p_ack p) \<le> h"

definition receiver_ok :: "u64 \<Rightarrow> bytes list \<Rightarrow> bytes list \<Rightarrow> UdpReliability \<Rightarrow> bool" where
  "receiver_ok sid xs ys r \<longleftrightarrow> r_session r = sid \<and> bt_wf (r_ooo r) \<and>
     unat (r_highest r) \<le> length xs \<and> ys = take (unat (r_highest r)) xs \<and>
     (\<forall>k v. map_of (r_ooo r) k = Some v \<longrightarrow>
        r_highest r < k \<and> unat k \<le> length xs \<and> v = xs ! (unat k - 1)) \<and>
     map_of (r_ooo r) (r_highest r + 1) = None"

definition sender_ok :: "u64 \<Rightarrow> bytes list \<Rightarrow> nat \<Rightarrow> UdpReliability \<Rightarrow> bool" where
  "sender_ok sid xs h r \<longleftrightarrow> r_session r = sid \<and> r_highest r = 0 \<and>
     unat (r_next_seq r) = length xs + 1 \<and> bt_wf (r_pending r) \<and>
     (\<forall>k e. map_of (r_pending r) k = Some e \<longrightarrow> carries sid xs (pp_packet e) \<and> p_seq (pp_packet e) = k) \<and>
     (\<forall>i. h < i \<and> i \<le> length xs \<longrightarrow> map_of (r_pending r) (of_nat i) \<noteq> None)"

definition udp_inv :: "u64 \<Rightarrow> udp_sys \<Rightarrow> bool" where
  "udp_inv sid s \<longleftrightarrow>
     receiver_ok sid (sent s) (got s) (receiver s) \<and>
     sender_ok sid (sent s) (unat (r_highest (receiver s))) (sender s) \<and>
     (\<forall>p \<in> to_receiver s. carries sid (sent s) p \<or> bare_ack sid 0 p) \<and>
     (\<forall>p \<in> to_sender s. bare_ack sid (unat (r_highest (receiver s))) p)"

lemma carries_append: "carries sid xs p \<Longrightarrow> carries sid (xs @ ys) p"
  by (auto simp: carries_def nth_append)

lemma receiver_ok_append:
  assumes "receiver_ok sid xs ys r"
  shows "receiver_ok sid (xs @ zs) ys r"
proof -
  have "r_highest r < k \<and> unat k \<le> length (xs @ zs) \<and> v = (xs @ zs) ! (unat k - 1)"
    if "map_of (r_ooo r) k = Some v" for k v
  proof -
    from that assms have "r_highest r < k" "unat k \<le> length xs" "v = xs ! (unat k - 1)"
      by (auto simp: receiver_ok_def)
    then show ?thesis
      by (auto simp: nth_append word_less_nat_alt)
  qed
  with assms show ?thesis
    by (auto simp: receiver_ok_def)
qed

lemma receiver_ok_le: "receiver_ok sid xs ys r \<Longrightarrow> unat (r_highest r) \<le> length xs"
  by (simp add: receiver_ok_def)

lemma handle_ack_eq:
  "p_kind p = KAck \<Longrightarrow> p_session p = r_session r \<Longrightarrow>
     handle_packet p r = (Inr ([], udp_ack (r_session r) (r_highest r)), mark_acked (p_ack p) r)"
  by (simp add: handle_packet_def Let_def)

text \<open>One packet at the receiver.\<close>

lemma handle_data_receiver:
  assumes "receiver_ok sid xs ys r" and "carries sid xs p"
    and "handle_packet p r = (Inr (ds, a), r')"
  shows "receiver_ok sid xs (ys @ map d_payload ds) r' \<and>
    unat (r_highest r) \<le> unat (r_highest r') \<and> a = udp_ack sid (r_highest r')"
proof (cases "p_seq p > r_highest r")
  case False
  with assms show ?thesis
    by (auto simp: handle_packet_def receiver_ok_def carries_def)
next
  case True
  let ?h = "r_highest r" and ?m = "bt_or_insert (p_seq p) (p_payload p) (r_ooo r)"
  obtain es h' m' where loop: "deliver_loop ?h ?m = (es, h', m')"
    by (cases "deliver_loop ?h ?m")
  from assms(1) have wf: "bt_wf ?m"
    by (auto simp: receiver_ok_def)
  have vals: "?h < k \<and> unat k \<le> length xs \<and> v = xs ! (unat k - 1)"
    if "map_of ?m k = Some v" for k v
    using that assms(1,2) True
    by (auto simp: receiver_ok_def carries_def bt_lookup_or_insert split: option.splits if_splits)
  then have keys: "\<forall>k \<in> dom (map_of ?m). ?h < k"
    by (auto simp: dom_def)
  from deliver_loop_spec [OF wf keys loop]
  have d: "unat h' = unat ?h + length es" "map d_seq es = map of_nat [Suc (unat ?h)..<Suc (unat h')]"
    "\<forall>d \<in> set es. map_of ?m (d_seq d) = Some (d_payload d)" "bt_wf m'"
    "map_of m' \<subseteq>\<^sub>m map_of ?m" "\<forall>k \<in> dom (map_of m'). h' < k" "map_of m' (h' + 1) = None"
    by blast+
  have seqs: "unat (d_seq (es ! i)) = Suc (unat ?h + i)" if "i < length es" for i
  proof -
    from that d(2) have "d_seq (es ! i) = of_nat (Suc (unat ?h + i))"
      using nth_map [OF that, of d_seq] d(1) by (simp del: upt_Suc)
    moreover have "Suc (unat ?h + i) \<le> u32_max"
      using that d(1) unat_u32_le [of h'] by simp
    ultimately show ?thesis
      by (simp only: unat_of_nat_u32)
  qed
  have low: "unat h' \<le> length xs"
  proof (cases es rule: rev_cases)
    case Nil
    with d(1) assms(1) show ?thesis by (simp add: receiver_ok_def)
  next
    case (snoc es' e)
    with d(3) have "map_of ?m (d_seq e) = Some (d_payload e)" by simp
    with vals have "unat (d_seq e) \<le> length xs" by blast
    with snoc seqs [of "length es'"] d(1) show ?thesis by simp
  qed
  have pays: "map d_payload es = take (length es) (drop (unat ?h) xs)"
  proof (rule nth_equalityI)
    from low d(1) show "length (map d_payload es) = length (take (length es) (drop (unat ?h) xs))"
      by simp
    fix i assume i: "i < length (map d_payload es)"
    then have "map_of ?m (d_seq (es ! i)) = Some (d_payload (es ! i))"
      using d(3) by simp
    with vals seqs [of i] i show "map d_payload es ! i = take (length es) (drop (unat ?h) xs) ! i"
      using assms(1) by (fastforce simp: receiver_ok_def)
  qed
  have res: "ds = es" "r' = (mark_acked (p_ack p) r)\<lparr>r_highest := h', r_ooo := m'\<rparr>"
    "a = udp_ack sid h'"
    using assms True loop
    by (auto simp: handle_packet_def carries_def receiver_ok_def)
  have "receiver_ok sid xs (ys @ map d_payload es) r'"
    unfolding receiver_ok_def res
    using assms(1) d low pays vals
    by (auto simp: receiver_ok_def take_add map_le_def dom_def)
  with res d(1) show ?thesis by simp
qed

text \<open>The sender's steps.\<close>

lemma max_Suc_u32: "(n :: u32) \<noteq> - 1 \<Longrightarrow> max (n + 1) 1 = n + 1 \<and> unat (n + 1) = unat n + 1"
proof -
  assume n: "n \<noteq> - 1"
  have "unat n \<noteq> 4294967295"
  proof
    assume "unat n = 4294967295"
    then have "n = of_nat 4294967295" by (metis word_of_nat_eq_iff unat_of_nat of_nat_unat ucast_id)
    with n show False by simp
  qed
  then have "unat (n + 1) = unat n + 1"
    using unat_u32_less [of n] by (simp add: unat_word_ariths)
  then show ?thesis
    by (simp add: max_def word_le_nat_alt unat_eq_0)
qed

lemma sender_send:
  assumes "sender_ok sid xs h r" and "r_next_seq r \<noteq> - 1" and "h \<le> length xs"
    and "next_data payload now r = (p, r')"
  shows "sender_ok sid (xs @ [payload]) h r' \<and> carries sid (xs @ [payload]) p"
proof -
  let ?q = "r_next_seq r"
  from assms(1) have q: "unat ?q = length xs + 1" by (simp add: sender_ok_def)
  from assms(4) have p: "p = udp_data (r_session r) ?q (r_highest r) payload"
    and r': "r' = r\<lparr>r_next_seq := max (?q + 1) 1, r_pending := bt_insert ?q
        \<lparr>pp_packet = p, pp_last_sent = now,
         pp_retry_after = min (r_retransmit_after r) MAX_RETRANSMIT_DELAY\<rparr> (r_pending r)\<rparr>"
    by (auto simp: next_data_def Let_def)
  have new: "carries sid (xs @ [payload]) p"
    using assms(1) q by (simp add: p carries_def udp_data_def sender_ok_def)
  have "map_of (r_pending r') (of_nat i) \<noteq> None" if "h < i" "i \<le> length (xs @ [payload])" for i
  proof (cases "i \<le> length xs")
    case True
    with that assms(1) show ?thesis by (auto simp: r' sender_ok_def)
  next
    case False
    with that q have "i = unat ?q" by simp
    then show ?thesis by (simp add: r')
  qed
  moreover have "carries sid (xs @ [payload]) (pp_packet e) \<and> p_seq (pp_packet e) = k"
    if "map_of (r_pending r') k = Some e" for k e
    using that assms(1) new
    by (auto simp: r' sender_ok_def carries_append p udp_data_def split: if_splits)
  ultimately have "sender_ok sid (xs @ [payload]) h r'"
    using assms(1) max_Suc_u32 [OF assms(2)] q by (auto simp: sender_ok_def r')
  with new show ?thesis by simp
qed

lemma resend_map_of:
  "map_of (map (\<lambda>(k, e). (k, f e)) m) k = map_option f (map_of m k)"
  by (induction m) auto

lemma resend_wf: "bt_wf (map (\<lambda>(k, e). (k, f e)) m) = bt_wf m"
  by (simp add: bt_wf_def comp_def case_prod_unfold)

lemma retransmit_entry_packet [simp]: "pp_packet (retransmit_entry now e) = pp_packet e"
  by (simp add: retransmit_entry_def)

lemma sender_resend:
  assumes "sender_ok sid xs h r" and "due_retransmissions now r = (ps, r')"
  shows "sender_ok sid xs h r' \<and> (\<forall>p \<in> set ps. carries sid xs p)"
proof -
  let ?f = "\<lambda>e. if entry_due now e then retransmit_entry now e else e"
  from assms(2) have r': "r' = r\<lparr>r_pending := map (\<lambda>(k, e). (k, ?f e)) (r_pending r)\<rparr>"
    and ps: "ps = map (\<lambda>(_, e). pp_packet e) (filter (\<lambda>(_, e). entry_due now e) (r_pending r))"
    by (auto simp: due_retransmissions_def)
  have "carries sid xs p" if "p \<in> set ps" for p
    using that assms(1) by (auto simp: ps sender_ok_def bt_mem_lookup)
  moreover have "sender_ok sid xs h r'"
    using assms(1) by (auto simp: r' sender_ok_def resend_map_of resend_wf)
  ultimately show ?thesis by simp
qed

lemma sender_ack:
  assumes "sender_ok sid xs h r" and "bare_ack sid h p" and "h \<le> length xs"
    and "length xs \<le> u32_max"
  shows "sender_ok sid xs h (mark_acked (p_ack p) r)"
proof -
  have "map_of (r_pending (mark_acked (p_ack p) r)) (of_nat i) \<noteq> None"
    if "h < i" "i \<le> length xs" for i
  proof -
    have "unat (of_nat i :: u32) = i"
      using that assms(4) by (intro unat_of_nat_u32) simp
    with that assms(2) have "\<not> (of_nat i :: u32) \<le> p_ack p"
      by (auto simp: bare_ack_def word_le_nat_alt)
    with that assms(1) show ?thesis
      by (simp add: mark_acked_pending sender_ok_def)
  qed
  with assms(1) show ?thesis
    by (auto simp: sender_ok_def mark_acked_pending mark_acked_wf split: if_splits)
qed

lemma sender_ok_pending:
  "sender_ok sid xs h r \<Longrightarrow> h < i \<Longrightarrow> i \<le> length xs \<Longrightarrow>
     \<exists>e. map_of (r_pending r) (of_nat i) = Some e \<and> carries sid xs (pp_packet e) \<and>
       p_seq (pp_packet e) = of_nat i"
  by (fastforce simp: sender_ok_def)

lemma sender_ok_mono: "sender_ok sid xs h r \<Longrightarrow> h \<le> h' \<Longrightarrow> sender_ok sid xs h' r"
  by (auto simp: sender_ok_def)

lemma bare_ack_mono: "bare_ack sid h p \<Longrightarrow> h \<le> h' \<Longrightarrow> bare_ack sid h' p"
  by (simp add: bare_ack_def)

lemma udp_inv_init: "udp_inv sid (udp_init sid rto)"
  by (auto simp: udp_inv_def udp_init_def receiver_ok_def sender_ok_def reliability_new_def)

lemma sender_ok_length: "sender_ok sid xs h r \<Longrightarrow> length xs \<le> u32_max"
  using unat_u32_less [of "r_next_seq r"] by (simp add: sender_ok_def u32_max_def)

lemma udp_inv_step:
  assumes "udp_step s t" and "udp_inv sid s"
  shows "udp_inv sid t"
  using assms
proof (induction rule: udp_step.induct)
  case (send payload now s p x)
  then show ?case
    using sender_send [of sid "sent s" "unat (r_highest (receiver s))" "sender s" payload now p x]
    by (auto simp: udp_inv_def receiver_ok_append carries_append receiver_ok_le)
next
  case (resend now s ps x)
  then show ?case
    using sender_resend [of sid "sent s" "unat (r_highest (receiver s))" "sender s" now ps x]
    by (auto simp: udp_inv_def)
next
  case (at_receiver p s ds a y)
  let ?h = "unat (r_highest (receiver s))"
  from at_receiver have inv: "receiver_ok sid (sent s) (got s) (receiver s)"
    "carries sid (sent s) p \<or> bare_ack sid 0 p"
    by (auto simp: udp_inv_def)
  have "receiver_ok sid (sent s) (got s @ map d_payload ds) y \<and> ?h \<le> unat (r_highest y) \<and>
      a = udp_ack sid (r_highest y)"
    using inv(2)
  proof
    assume "carries sid (sent s) p"
    with inv(1) at_receiver show ?thesis by (intro handle_data_receiver)
  next
    assume "bare_ack sid 0 p"
    with inv(1) have "ds = []" "y = mark_acked (p_ack p) (receiver s)"
      "a = udp_ack sid (r_highest y)"
      using at_receiver.hyps(2) by (auto simp: handle_ack_eq bare_ack_def receiver_ok_def)
    with inv(1) show ?thesis
      by (simp add: receiver_ok_def)
  qed
  then show ?case
    using at_receiver.prems sender_ok_mono bare_ack_mono
    by (fastforce simp: udp_inv_def bare_ack_def udp_ack_def)
next
  case (at_sender p s ds a x)
  let ?h = "unat (r_highest (receiver s))"
  from at_sender have ack: "bare_ack sid ?h p" and ok: "sender_ok sid (sent s) ?h (sender s)"
    and h: "?h \<le> length (sent s)"
    by (auto simp: udp_inv_def receiver_ok_def)
  then have "x = mark_acked (p_ack p) (sender s)" "a = udp_ack sid 0"
    using at_sender.hyps(2) by (auto simp: handle_ack_eq bare_ack_def sender_ok_def)
  moreover have "sender_ok sid (sent s) ?h (mark_acked (p_ack p) (sender s))"
    using ok ack h sender_ok_length [OF ok] by (rule sender_ack)
  ultimately show ?case
    using at_sender.prems by (auto simp: udp_inv_def bare_ack_def udp_ack_def)
qed

lemma udp_inv_reachable: "udp_reachable sid rto s \<Longrightarrow> udp_inv sid s"
  by (induction rule: udp_reachable.induct) (auto intro: udp_inv_init udp_inv_step)




section \<open>The congestion window\<close>







section \<open>Properties\<close>

text \<open>
  C6: over a network that loses, duplicates and reorders packets at will, the application at the
  receiver has been given exactly an initial segment of what was sent: in order, without gaps,
  without duplicates, with the right contents. Every datagram not yet handed over is still kept for
  retransmission by the sender, with its payload.
\<close>

theorem udp_reliable_in_order:
  assumes "udp_reachable sid rto s"
  shows "got s = take (unat (r_highest (receiver s))) (sent s) \<and>
    (\<forall>i. length (got s) \<le> i \<and> i < length (sent s) \<longrightarrow>
      (\<exists>e. map_of (r_pending (sender s)) (of_nat (i + 1)) = Some e \<and>
         p_payload (pp_packet e) = sent s ! i))"
proof -
  from assms have inv: "udp_inv sid s" by (rule udp_inv_reachable)
  then have ok: "sender_ok sid (sent s) (unat (r_highest (receiver s))) (sender s)"
    and got: "got s = take (unat (r_highest (receiver s))) (sent s)"
    and le: "unat (r_highest (receiver s)) \<le> length (sent s)"
    by (auto simp: udp_inv_def receiver_ok_def)
  have "\<exists>e. map_of (r_pending (sender s)) (of_nat (i + 1)) = Some e \<and>
      p_payload (pp_packet e) = sent s ! i"
    if "length (got s) \<le> i" "i < length (sent s)" for i
  proof -
    have "unat (of_nat (i + 1) :: u32) = i + 1"
      using that sender_ok_length [OF ok] by (intro unat_of_nat_u32) simp
    then show ?thesis
      using sender_ok_pending [OF ok, of "i + 1"] that got le by (auto simp: carries_def)
  qed
  with got show ?thesis by blast
qed

theorem udp_reliable_in_order_witness:
  "let s = udp_init 7 5;
       t = s\<lparr>sender := snd (next_data [9] 0 (sender s)),
             to_receiver := {fst (next_data [9] 0 (sender s))}, sent := [[9]]\<rparr>
   in got t = take (unat (r_highest (receiver t))) (sent t) \<and>
      (\<exists>e. map_of (r_pending (sender t)) (of_nat (0 + 1)) = Some e \<and>
         p_payload (pp_packet e) = sent t ! 0)"
proof -
  let ?s = "udp_init 7 5"
  let ?t = "?s\<lparr>sender := snd (next_data [9] 0 (sender ?s)),
             to_receiver := {fst (next_data [9] 0 (sender ?s))}, sent := [[9]]\<rparr>"
  have "udp_step ?s (?s\<lparr>sender := snd (next_data [9] 0 (sender ?s)),
      to_receiver := insert (fst (next_data [9] 0 (sender ?s))) (to_receiver ?s),
      sent := sent ?s @ [[9]]\<rparr>)"
    by (rule udp_step.send [of "[9]" 0]) (simp_all add: udp_init_def reliability_new_def)
  then have "udp_step ?s ?t"
    by (simp add: udp_init_def)
  then have "udp_reachable 7 5 ?t"
    by (rule udp_reachable.step [OF udp_reachable.start])
  from udp_reliable_in_order [OF this] show ?thesis
    by (simp add: Let_def udp_init_def)
qed



text \<open>
  Encoding and decoding a packet are inverse to each other on packets and on datagrams of at
  most 65507 bytes, the largest UDP payload.
\<close>

lemma udp_codec_inverse:
  "(udp_encode p = Inr bs \<longrightarrow> udp_decode bs = Inr p \<and> length bs \<le> 65507) \<and>
   (udp_decode bs = Inr p \<and> length bs \<le> 65507 \<longrightarrow> udp_encode p = Inr bs)"
  using udp_decode_encode udp_decode_InrD udp_encode_length by blast

lemma udp_codec_inverse_witness:
  "udp_decode [69, 83, 80, 85, 1, 2, 0, 0, 0, 0, 0, 0, 0, 7, 0, 0, 0, 0, 0, 0, 0, 3, 0, 0] =
     Inr (udp_ack 7 3)"
  using udp_codec_inverse [of "udp_ack 7 3"
      "[69, 83, 80, 85, 1, 2, 0, 0, 0, 0, 0, 0, 0, 7, 0, 0, 0, 0, 0, 0, 0, 3, 0, 0]"]
  by (simp add: udp_encode_def udp_ack_def UDP_MAGIC_def ascii_def UDP_VERSION_def to_be_u64_def
      to_be_u32_def to_be_u16_def UDP_MAX_PAYLOAD_def)

text \<open>
  C17: once the receiver has reached the largest sequence number it hands over nothing any more,
  whatever arrives, while the sender goes on with sequence number 1: a session does not survive
  the wrap of its 32-bit sequence number.
\<close>

theorem udp_no_delivery_after_wrap:
  assumes "r_highest r = - 1" and "handle_packet p r = (Inr (ds, a), r')"
  shows "ds = [] \<and> r_highest r' = - 1 \<and> r_next_seq (snd (next_data x now (r\<lparr>r_next_seq := - 1\<rparr>))) = 1"
  using assms
  by (auto simp: handle_packet_def next_data_def Let_def max_def split: if_splits)

theorem udp_no_delivery_after_wrap_witness:
  "\<exists>ds a r'. handle_packet (udp_data 7 1 0 [5]) ((reliability_new 7 5)\<lparr>r_highest := - 1\<rparr>) =
      (Inr (ds, a), r') \<and> ds = [] \<and> r_highest r' = - 1"
proof -
  let ?r = "(reliability_new 7 5)\<lparr>r_highest := - 1\<rparr>"
  have h: "handle_packet (udp_data 7 1 0 [5]) ?r = (Inr ([], udp_ack 7 (- 1)), ?r)"
    by (simp add: handle_packet_def udp_data_def reliability_new_def mark_acked_eq)
  from udp_no_delivery_after_wrap [OF _ h] h show ?thesis by auto
qed



end
