(* ===== verification/Esp_Native_Frame.thy ===== *)
theory Esp_Native_Frame
  imports Esp_Request
begin

text \<open>
  The frames of the native multiplexer (\<^verbatim>\<open>mux/native/frame.rs\<close>) and its queue of frames waiting to
  be written (\<^verbatim>\<open>mux/native/pending.rs\<close>). Shown: the reader takes back what the writer puts on the
  connection, and the validator used by the fuzzer accepts exactly the complete frames of known
  kinds; the queue is three first-in first-out lines under one limit, in which control frames go
  first and a waiting bulk frame is passed by at most eight interactive ones.
\<close>

section \<open>Frames\<close>

definition FRAME_OPEN :: u8 where
  "FRAME_OPEN = 1"

definition FRAME_DATA :: u8 where
  "FRAME_DATA = 2"

definition FRAME_WINDOW_UPDATE :: u8 where
  "FRAME_WINDOW_UPDATE = 3"

definition FRAME_FIN :: u8 where
  "FRAME_FIN = 4"

definition FRAME_RST :: u8 where
  "FRAME_RST = 5"

definition FRAME_PING :: u8 where
  "FRAME_PING = 6"

definition FRAME_GOAWAY :: u8 where
  "FRAME_GOAWAY = 7"

definition MAX_PAYLOAD :: nat where
  "MAX_PAYLOAD = 256 * 1024"

lemmas frame_kind_defs = FRAME_OPEN_def FRAME_DATA_def FRAME_WINDOW_UPDATE_def FRAME_FIN_def
  FRAME_RST_def FRAME_PING_def FRAME_GOAWAY_def

definition write_frame :: "u8 \<Rightarrow> u32 \<Rightarrow> bytes \<Rightarrow> (conn, unit) io" where
  "write_frame kind stream_id payload =
     (if length payload > MAX_PAYLOAD then io_fail (Bail ''native mux payload too large'')
      else io_then (write_u8 kind)
        (io_then (write_u32 stream_id)
          (io_then (write_u32 (of_nat (length payload))) (write_all payload))))"

text \<open>End of file before the first byte is the clean end of the session, \<open>None\<close>.\<close>

definition read_frame :: "(conn, (u8 \<times> u32 \<times> bytes) option) io" where
  "read_frame c =
     (case read_u8 c of
        (Inl UnexpectedEof, c) \<Rightarrow> (Inr None, c)
      | (Inl e, c) \<Rightarrow> (Inl e, c)
      | (Inr kind, c) \<Rightarrow>
          io_bind read_u32 (\<lambda>stream_id.
          io_bind read_u32 (\<lambda>len.
            if unat len > MAX_PAYLOAD then io_fail (Bail ''native mux payload too large'')
            else io_bind (read_exact (unat len)) (\<lambda>payload.
              io_return (Some (kind, stream_id, payload))))) c)"

definition validate_frame_bytes_for_fuzz :: "bytes \<Rightarrow> (u8 \<times> u32 \<times> nat) option result" where
  "validate_frame_bytes_for_fuzz input =
     (if length input < 9 then Inr None
      else
        let kind = input ! 0 in
        if kind \<noteq> FRAME_OPEN \<and> kind \<noteq> FRAME_DATA \<and> kind \<noteq> FRAME_WINDOW_UPDATE \<and> kind \<noteq> FRAME_FIN
          \<and> kind \<noteq> FRAME_RST \<and> kind \<noteq> FRAME_PING \<and> kind \<noteq> FRAME_GOAWAY
        then Inl (BailNum ''unknown native mux frame type'' (unat kind))
        else
          let stream_id = from_be_u32 [input ! 1, input ! 2, input ! 3, input ! 4];
              len = unat (from_be_u32 [input ! 5, input ! 6, input ! 7, input ! 8])
          in if len > MAX_PAYLOAD then Inl (Bail ''native mux payload too large'')
             else if length input < 9 + len then Inr None
             else Inr (Some (kind, stream_id, len)))"

type_synonym mux_frame = "u8 \<times> u32 \<times> bytes"

definition put_frame :: "mux_frame \<Rightarrow> (conn, unit) io" where
  "put_frame f = (case f of (kind, stream_id, payload) \<Rightarrow> write_frame kind stream_id payload)"

definition get_frame :: "(conn, mux_frame) io" where
  "get_frame = io_bind read_frame (\<lambda>f. case f of None \<Rightarrow> io_fail UnexpectedEof | Some f \<Rightarrow> io_return f)"

definition frame_wire :: "mux_frame \<Rightarrow> bytes" where
  "frame_wire f = (case f of (kind, stream_id, payload) \<Rightarrow>
     [kind] @ to_be_u32 stream_id @ to_be_u32 (of_nat (length payload)) @ payload)"

definition frame_valid :: "mux_frame \<Rightarrow> bool" where
  "frame_valid f \<longleftrightarrow> length (snd (snd f)) \<le> MAX_PAYLOAD"

lemma MAX_PAYLOAD_le: "MAX_PAYLOAD \<le> u32_max"
  by (simp add: MAX_PAYLOAD_def u32_max_def)

lemma write_frame_ok:
  "length payload \<le> MAX_PAYLOAD \<Longrightarrow> write_frame kind sid payload c =
     (Inr (), c\<lparr>tx := tx c @ frame_wire (kind, sid, payload)\<rparr>)"
  by (simp add: write_frame_def frame_wire_def io_then_def io_bind_def write_apply)

lemma read_frame_wire:
  assumes "length payload \<le> MAX_PAYLOAD" and "rx c = frame_wire (kind, sid, payload) @ rest"
  shows "read_frame c = (Inr (Some (kind, sid, payload)), c\<lparr>rx := rest\<rparr>)"
proof -
  let ?len = "of_nat (length payload) :: u32"
  from assms(1) have len: "unat ?len = length payload"
    by (intro unat_of_nat_u32) (use MAX_PAYLOAD_le in linarith)
  let ?c1 = "c\<lparr>rx := to_be_u32 sid @ to_be_u32 ?len @ payload @ rest\<rparr>"
  let ?c2 = "c\<lparr>rx := to_be_u32 ?len @ payload @ rest\<rparr>"
  have "read_u8 c = (Inr kind, ?c1)"
    using assms(2) by (intro read_u8_Cons [THEN trans]) (simp_all add: frame_wire_def)
  moreover have "read_u32 ?c1 = (Inr sid, ?c2)"
    using read_u32_append [of ?c1 sid] by simp
  moreover have "read_u32 ?c2 = (Inr ?len, c\<lparr>rx := payload @ rest\<rparr>)"
    using read_u32_append [of ?c2 ?len] by simp
  ultimately show ?thesis
    using assms(1) len by (simp add: read_frame_def io_bind_def read_exact_def)
qed

interpretation frame_codec: wire_codec put_frame get_frame frame_wire frame_valid
  by unfold_locales
    (auto simp: put_frame_def get_frame_def frame_valid_def write_frame_ok io_bind_def read_frame_wire)

lemma read_frame_cases:
  "read_frame c =
     (case rx c of
        [] \<Rightarrow> (Inr None, c)
      | kind # r \<Rightarrow>
          io_bind read_u32 (\<lambda>stream_id.
          io_bind read_u32 (\<lambda>len.
            if unat len > MAX_PAYLOAD then io_fail (Bail ''native mux payload too large'')
            else io_bind (read_exact (unat len)) (\<lambda>payload.
              io_return (Some (kind, stream_id, payload))))) (c\<lparr>rx := r\<rparr>))"
  by (cases "rx c") (simp_all add: read_frame_def read_u8_eof read_u8_Cons)

lemma read_frame_SomeD:
  assumes "read_frame c = (Inr (Some (kind, sid, payload)), d)"
  shows "rx c = frame_wire (kind, sid, payload) @ rx d \<and> length payload \<le> MAX_PAYLOAD \<and> tx d = tx c"
proof -
  from assms obtain r e1 e2 len where r: "rx c = kind # r" "read_u32 (c\<lparr>rx := r\<rparr>) = (Inr sid, e1)"
    "read_u32 e1 = (Inr len, e2)" "unat len \<le> MAX_PAYLOAD"
    "read_exact (unat len) e2 = (Inr payload, d)"
    by (auto simp: read_frame_cases elim!: io_bind_result_cases split: list.splits if_splits)
  then show ?thesis
    using read_u32_InrD [OF r(2)] read_u32_InrD [OF r(3)] read_exact_InrD [OF r(5)]
    by (simp add: frame_wire_def)
qed

text \<open>The validator on a complete encoding, and what it accepts.\<close>

definition known_kind :: "u8 \<Rightarrow> bool" where
  "known_kind k \<longleftrightarrow> 1 \<le> k \<and> k \<le> 7"

lemma known_kind_iff:
  "known_kind k \<longleftrightarrow> k = FRAME_OPEN \<or> k = FRAME_DATA \<or> k = FRAME_WINDOW_UPDATE \<or> k = FRAME_FIN \<or>
     k = FRAME_RST \<or> k = FRAME_PING \<or> k = FRAME_GOAWAY"
proof
  assume "known_kind k"
  then have "1 \<le> unat k" and "unat k \<le> 7"
    by (simp_all add: known_kind_def word_le_nat_alt)
  then have "unat k \<in> {1, 2, 3, 4, 5, 6, 7}" by auto
  then show "k = FRAME_OPEN \<or> k = FRAME_DATA \<or> k = FRAME_WINDOW_UPDATE \<or> k = FRAME_FIN \<or>
     k = FRAME_RST \<or> k = FRAME_PING \<or> k = FRAME_GOAWAY"
    by (auto simp: frame_kind_defs word_eq_iff_unsigned [where 'a = nat])
qed (auto simp: known_kind_def frame_kind_defs)

lemma nth_take_list:
  "9 \<le> length xs \<Longrightarrow> take 9 xs = [xs ! 0, xs ! 1, xs ! 2, xs ! 3, xs ! 4, xs ! 5, xs ! 6, xs ! 7, xs ! 8]"
  by (rule nth_equalityI) (auto simp: less_Suc_eq numeral_eq_Suc)

lemma validate_eq:
  assumes "9 \<le> length input"
  shows "validate_frame_bytes_for_fuzz input =
    (if \<not> known_kind (hd input) then Inl (BailNum ''unknown native mux frame type'' (unat (hd input)))
     else
       let sid = from_be_u32 (subslice 1 5 input); len = unat (from_be_u32 (subslice 5 9 input)) in
       if len > MAX_PAYLOAD then Inl (Bail ''native mux payload too large'')
       else if length input < 9 + len then Inr None
       else Inr (Some (hd input, sid, len)))"
proof -
  have "subslice 1 5 input = subslice 1 5 (take 9 input)" "subslice 5 9 input = subslice 5 9 (take 9 input)"
    by (simp_all add: subslice_def drop_take)
  then have "subslice 1 5 input = [input ! 1, input ! 2, input ! 3, input ! 4]"
    "subslice 5 9 input = [input ! 5, input ! 6, input ! 7, input ! 8]"
    unfolding nth_take_list [OF assms] by (simp_all add: subslice_def)
  moreover from assms have "hd input = input ! 0"
    by (cases input) auto
  ultimately show ?thesis
    using assms by (simp add: validate_frame_bytes_for_fuzz_def known_kind_iff Let_def)
qed

lemma validate_wire:
  assumes "known_kind kind" and "length payload \<le> MAX_PAYLOAD"
  shows "validate_frame_bytes_for_fuzz (frame_wire (kind, sid, payload) @ rest) =
    Inr (Some (kind, sid, length payload))"
proof -
  let ?in = "frame_wire (kind, sid, payload) @ rest"
  have len: "unat (of_nat (length payload) :: u32) = length payload"
    using assms(2) MAX_PAYLOAD_le by (intro unat_of_nat_u32) linarith
  have "subslice 1 5 ?in = to_be_u32 sid" "subslice 5 9 ?in = to_be_u32 (of_nat (length payload))"
    "hd ?in = kind" "length ?in = 9 + length payload + length rest"
    by (simp_all add: frame_wire_def subslice_def)
  then show ?thesis
    using assms len by (subst validate_eq) (simp_all add: Let_def)
qed

lemma validate_SomeD:
  assumes "validate_frame_bytes_for_fuzz input = Inr (Some (kind, sid, len))"
  shows "\<exists>payload rest. input = frame_wire (kind, sid, payload) @ rest \<and> length payload = len \<and>
    known_kind kind \<and> len \<le> MAX_PAYLOAD"
proof -
  from assms have ge: "9 \<le> length input"
    by (auto simp: validate_frame_bytes_for_fuzz_def split: if_splits)
  from assms have k: "known_kind kind" "hd input = kind" "sid = from_be_u32 (subslice 1 5 input)"
    "len = unat (from_be_u32 (subslice 5 9 input))" "len \<le> MAX_PAYLOAD" "9 + len \<le> length input"
    unfolding validate_eq [OF ge] by (auto simp: Let_def split: if_splits)
  have "to_be_u32 sid = subslice 1 5 input" "to_be_u32 (of_nat len) = subslice 5 9 input"
    using ge by (simp_all add: k(3,4) to_from_be_u32)
  moreover have "input = [hd input] @ subslice 1 5 input @ subslice 5 9 input
      @ take len (drop 9 input) @ drop len (drop 9 input)"
    using ge subslice_split [of 1 5 input] subslice_split [of 5 9 input]
      append_take_drop_id [of len "drop 9 input"]
    by (cases input) (simp_all del: drop_drop)
  moreover have "length (take len (drop 9 input)) = len"
    using k(6) by simp
  ultimately show ?thesis
    using k by (intro exI [of _ "take len (drop 9 input)"] exI [of _ "drop len (drop 9 input)"])
      (simp add: frame_wire_def del: drop_drop)
qed

section \<open>The queue of pending frames\<close>

definition MAX_INTERACTIVE_BURST :: nat where
  "MAX_INTERACTIVE_BURST = 8"

record PendingFrame =
  pf_kind :: u8
  pf_stream_id :: u32
  pf_payload :: bytes
  pf_queued_stream :: "u32 option"

record PendingFrames =
  q_control :: "PendingFrame list"
  q_interactive :: "PendingFrame list"
  q_bulk :: "PendingFrame list"
  q_len :: nat
  q_limit :: nat
  q_burst :: nat

definition pending_new :: "nat \<Rightarrow> PendingFrames" where
  "pending_new limit =
     \<lparr>q_control = [], q_interactive = [], q_bulk = [], q_len = 0, q_limit = max limit 1, q_burst = 0\<rparr>"

definition is_congested :: "PendingFrames \<Rightarrow> bool" where
  "is_congested q \<longleftrightarrow> sat_mul (q_len q) 4 \<ge> sat_mul (q_limit q) 3"

definition reserve_slot :: "(PendingFrames, unit) io" where
  "reserve_slot q =
     (if q_len q \<ge> q_limit q then
        (if is_congested q
         then (Inl (Bail ''native mux pending frame queue congested: limit reached''), q)
         else (Inl (Bail ''native mux pending frame queue limit reached''), q))
      else (Inr (), q\<lparr>q_len := q_len q + 1\<rparr>))"

definition push_control :: "PendingFrame \<Rightarrow> (PendingFrames, unit) io" where
  "push_control f =
     io_then reserve_slot (\<lambda>q. (Inr (), q\<lparr>q_control := q_control q @ [f]\<rparr>))"

definition push_data :: "StreamPriority \<Rightarrow> PendingFrame \<Rightarrow> (PendingFrames, unit) io" where
  "push_data priority f =
     io_then reserve_slot (\<lambda>q.
       (Inr (), case priority of
          Interactive \<Rightarrow> q\<lparr>q_interactive := q_interactive q @ [f]\<rparr>
        | Bulk \<Rightarrow> q\<lparr>q_bulk := q_bulk q @ [f]\<rparr>))"

text \<open>\<^verbatim>\<open>VecDeque::pop_front\<close>.\<close>

definition pop_front :: "'a list \<Rightarrow> 'a option \<times> 'a list" where
  "pop_front xs = (case xs of [] \<Rightarrow> (None, []) | x # ys \<Rightarrow> (Some x, ys))"

definition pop_next :: "PendingFrames \<Rightarrow> PendingFrame option \<times> PendingFrames" where
  "pop_next q =
     (let (frame, q) =
        (case pop_front (q_control q) of
           (Some f, rest) \<Rightarrow> (Some f, q\<lparr>q_control := rest\<rparr>)
         | (None, _) \<Rightarrow>
             if q_bulk q \<noteq> [] \<and> (q_interactive q = [] \<or> q_burst q \<ge> MAX_INTERACTIVE_BURST)
             then (let (f, rest) = pop_front (q_bulk q) in (f, q\<lparr>q_burst := 0, q_bulk := rest\<rparr>))
             else (case pop_front (q_interactive q) of
                 (Some f, rest) \<Rightarrow>
                   (Some f, q\<lparr>q_interactive := rest,
                              q_burst := (if q_bulk q \<noteq> [] then q_burst q + 1 else q_burst q)\<rparr>)
               | (None, _) \<Rightarrow>
                   (let (f, rest) = pop_front (q_bulk q) in (f, q\<lparr>q_burst := 0, q_bulk := rest\<rparr>))))
      in case frame of None \<Rightarrow> (None, q) | Some f \<Rightarrow> (Some f, q\<lparr>q_len := q_len q - 1\<rparr>))"

subsection \<open>What the queue holds\<close>

definition q_wf :: "PendingFrames \<Rightarrow> bool" where
  "q_wf q \<longleftrightarrow> q_len q = length (q_control q) + length (q_interactive q) + length (q_bulk q) \<and>
     q_len q \<le> q_limit q \<and> 1 \<le> q_limit q"

text \<open>The frames waiting, as one bag of lines: the abstraction of the queue.\<close>

definition q_lines :: "PendingFrames \<Rightarrow> PendingFrame list \<times> PendingFrame list \<times> PendingFrame list" where
  "q_lines q = (q_control q, q_interactive q, q_bulk q)"

lemma pending_new_wf: "q_wf (pending_new limit)"
  by (simp add: q_wf_def pending_new_def)

lemma push_control_eq:
  "push_control f q =
     (if q_len q \<ge> q_limit q then (fst (reserve_slot q) , q)
      else (Inr (), q\<lparr>q_len := q_len q + 1, q_control := q_control q @ [f]\<rparr>))"
  by (auto simp: push_control_def io_then_def io_bind_def reserve_slot_def)

lemma push_data_eq:
  "push_data pr f q =
     (if q_len q \<ge> q_limit q then (fst (reserve_slot q) , q)
      else (Inr (), case pr of
          Interactive \<Rightarrow> q\<lparr>q_len := q_len q + 1, q_interactive := q_interactive q @ [f]\<rparr>
        | Bulk \<Rightarrow> q\<lparr>q_len := q_len q + 1, q_bulk := q_bulk q @ [f]\<rparr>))"
  by (auto simp: push_data_def io_then_def io_bind_def reserve_slot_def split: StreamPriority.splits)

lemma reserve_slot_full: "q_len q \<ge> q_limit q \<Longrightarrow> isl (fst (reserve_slot q))"
  by (simp add: reserve_slot_def)

lemma push_control_wf: "q_wf q \<Longrightarrow> q_wf (snd (push_control f q))"
  by (auto simp: push_control_eq q_wf_def)

lemma push_data_wf: "q_wf q \<Longrightarrow> q_wf (snd (push_data pr f q))"
  by (auto simp: push_data_eq q_wf_def split: StreamPriority.splits)

lemma pop_next_cases:
  "pop_next q =
     (case q_control q of f # fs \<Rightarrow> (Some f, q\<lparr>q_control := fs, q_len := q_len q - 1\<rparr>)
      | [] \<Rightarrow> (case q_interactive q of
          [] \<Rightarrow> (case q_bulk q of
              [] \<Rightarrow> (None, q\<lparr>q_burst := 0\<rparr>)
            | b # bs \<Rightarrow> (Some b, q\<lparr>q_burst := 0, q_bulk := bs, q_len := q_len q - 1\<rparr>))
        | i # is \<Rightarrow> (case q_bulk q of
              [] \<Rightarrow> (Some i, q\<lparr>q_interactive := is, q_len := q_len q - 1\<rparr>)
            | b # bs \<Rightarrow>
                if q_burst q \<ge> MAX_INTERACTIVE_BURST
                then (Some b, q\<lparr>q_burst := 0, q_bulk := bs, q_len := q_len q - 1\<rparr>)
                else (Some i, q\<lparr>q_interactive := is, q_burst := q_burst q + 1, q_len := q_len q - 1\<rparr>))))"
  by (simp add: pop_next_def pop_front_def Let_def split: list.splits)

lemma pop_next_wf: "q_wf q \<Longrightarrow> q_wf (snd (pop_next q))"
  by (auto simp: pop_next_cases q_wf_def split: list.splits)

lemma pop_next_None: "q_wf q \<Longrightarrow> fst (pop_next q) = None \<longleftrightarrow> q_len q = 0"
  by (auto simp: pop_next_cases q_wf_def split: list.splits if_splits)

subsection \<open>Lines of waiting frames\<close>

text \<open>
  The interface of a scheduler over several lines: a frame is added to the end of the line of its
  class or refused, and the next frame is taken from the front of some line. Whatever the policy,
  each line then is first-in first-out and nothing is lost or invented.
\<close>

datatype ('c, 'f) sched_op = Enq 'c 'f | Deq

fun sched_run ::
  "('c \<Rightarrow> 'f \<Rightarrow> ('q, unit) io) \<Rightarrow> ('q \<Rightarrow> 'f option \<times> 'q) \<Rightarrow> ('c, 'f) sched_op list \<Rightarrow> 'q \<Rightarrow>
     ('c \<times> 'f) list \<times> 'f list \<times> 'q"
where
  "sched_run enq deq [] q = ([], [], q)"
| "sched_run enq deq (Enq c f # ops) q =
     (case enq c f q of
        (Inl _, q') \<Rightarrow> sched_run enq deq ops q'
      | (Inr _, q') \<Rightarrow> (case sched_run enq deq ops q' of (ins, outs, r) \<Rightarrow> ((c, f) # ins, outs, r)))"
| "sched_run enq deq (Deq # ops) q =
     (case deq q of
        (None, q') \<Rightarrow> sched_run enq deq ops q'
      | (Some f, q') \<Rightarrow> (case sched_run enq deq ops q' of (ins, outs, r) \<Rightarrow> (ins, f # outs, r)))"

definition of_class :: "'c \<Rightarrow> ('c \<times> 'f) list \<Rightarrow> 'f list" where
  "of_class c xs = map snd (filter (\<lambda>x. fst x = c) xs)"

lemma of_class_simps [simp]:
  "of_class c [] = []"
  "of_class c ((d, f) # xs) = (if d = c then f # of_class c xs else of_class c xs)"
  by (simp_all add: of_class_def)

locale line_scheduler =
  fixes enq :: "'c \<Rightarrow> 'f \<Rightarrow> ('q, unit) io"
    and deq :: "'q \<Rightarrow> 'f option \<times> 'q"
    and line :: "'c \<Rightarrow> 'q \<Rightarrow> 'f list"
    and inv :: "'q \<Rightarrow> bool"
  assumes enq_inv: "inv q \<Longrightarrow> inv (snd (enq c f q))"
    and deq_inv: "inv q \<Longrightarrow> inv (snd (deq q))"
    and enq_ok: "enq c f q = (Inr (), q') \<Longrightarrow> line d q' = line d q @ (if d = c then [f] else [])"
    and enq_refused: "enq c f q = (Inl e, q') \<Longrightarrow> line d q' = line d q"
    and deq_none: "deq q = (None, q') \<Longrightarrow> line d q' = line d q"
    and deq_some: "deq q = (Some f, q') \<Longrightarrow>
      \<exists>c. line c q = f # line c q' \<and> (\<forall>d. d \<noteq> c \<longrightarrow> line d q' = line d q)"
begin

lemma run_inv: "inv q \<Longrightarrow> inv (snd (snd (sched_run enq deq ops q)))"
proof (induction ops arbitrary: q)
  case (Cons op ops)
  show ?case
  proof (cases op)
    case (Enq c f)
    with Cons enq_inv [OF Cons.prems, of c f] show ?thesis
      by (auto split: prod.splits sum.splits) fastforce+
  next
    case Deq
    with Cons deq_inv [OF Cons.prems] show ?thesis
      by (auto split: prod.splits option.splits) fastforce+
  qed
qed simp

text \<open>
  Label every frame that left with the line it left from: in each line, what left followed by what
  is still waiting is what was waiting followed by what was added, in order.
\<close>

lemma run_lines:
  "sched_run enq deq ops q = (ins, outs, r) \<Longrightarrow>
     \<exists>cs. length cs = length outs \<and>
       (\<forall>d. of_class d (zip cs outs) @ line d r = line d q @ of_class d ins)"
proof (induction ops arbitrary: q ins outs)
  case (Cons op ops)
  show ?case
  proof (cases op)
    case (Enq c f)
    obtain res q' where e: "enq c f q = (res, q')" by (cases "enq c f q")
    show ?thesis
    proof (cases res)
      case (Inl err)
      with Cons.prems Enq e have "sched_run enq deq ops q' = (ins, outs, r)" by simp
      from Cons.IH [OF this] enq_refused [of c f q err q'] e Inl show ?thesis by simp
    next
      case (Inr u)
      with Cons.prems Enq e obtain ins' where ins: "ins = (c, f) # ins'"
        and "sched_run enq deq ops q' = (ins', outs, r)"
        by (auto split: prod.splits)
      from Cons.IH [OF this(2)] obtain cs where cs: "length cs = length outs"
        "\<forall>d. of_class d (zip cs outs) @ line d r = line d q' @ of_class d ins'" by blast
      moreover have "line d q' = line d q @ (if d = c then [f] else [])" for d
        using enq_ok [of c f q q'] e Inr by simp
      ultimately show ?thesis
        using ins by (intro exI [of _ cs]) auto
    qed
  next
    case Deq
    obtain res q' where e: "deq q = (res, q')" by (cases "deq q")
    show ?thesis
    proof (cases res)
      case None
      with Cons.prems Deq e have "sched_run enq deq ops q' = (ins, outs, r)" by simp
      from Cons.IH [OF this] deq_none [of q q'] e None show ?thesis by simp
    next
      case (Some f)
      with Cons.prems Deq e obtain outs' where outs: "outs = f # outs'"
        and "sched_run enq deq ops q' = (ins, outs', r)"
        by (auto split: prod.splits)
      from Cons.IH [OF this(2)] obtain cs where cs: "length cs = length outs'"
        "\<forall>d. of_class d (zip cs outs') @ line d r = line d q' @ of_class d ins" by blast
      from deq_some [of q f q'] e Some obtain c where
        c: "line c q = f # line c q'" "\<forall>d. d \<noteq> c \<longrightarrow> line d q' = line d q" by auto
      with cs outs show ?thesis
        by (intro exI [of _ "c # cs"]) auto
    qed
  qed
qed simp

end

text \<open>The queue of pending frames is such a scheduler, with three lines.\<close>

datatype frame_class = Control | DataLine StreamPriority

fun q_enq :: "frame_class \<Rightarrow> PendingFrame \<Rightarrow> (PendingFrames, unit) io" where
  "q_enq Control f = push_control f"
| "q_enq (DataLine priority) f = push_data priority f"

fun q_line :: "frame_class \<Rightarrow> PendingFrames \<Rightarrow> PendingFrame list" where
  "q_line Control q = q_control q"
| "q_line (DataLine Interactive) q = q_interactive q"
| "q_line (DataLine Bulk) q = q_bulk q"

lemma all_priority: "(\<forall>p. P p) \<longleftrightarrow> P Interactive \<and> P Bulk"
  by (metis StreamPriority.exhaust)

lemma all_frame_class:
  "(\<forall>d. P d) \<longleftrightarrow> P Control \<and> P (DataLine Interactive) \<and> P (DataLine Bulk)"
proof -
  have "(\<forall>d. P d) \<longleftrightarrow> P Control \<and> (\<forall>p. P (DataLine p))"
    by (metis frame_class.exhaust)
  then show ?thesis by (simp add: all_priority)
qed

lemma q_enq_line:
  "q_enq c f q = (Inr (), q') \<Longrightarrow> q_line d q' = q_line d q @ (if d = c then [f] else [])"
proof -
  assume enq: "q_enq c f q = (Inr (), q')"
  have "\<forall>d. q_line d q' = q_line d q @ (if d = c then [f] else [])"
    unfolding all_frame_class using enq
    by (cases c)
      (auto simp: push_control_eq push_data_eq reserve_slot_def split: if_splits StreamPriority.splits)
  then show ?thesis by blast
qed

lemma q_enq_Inl: "q_enq c f q = (Inl e, q') \<Longrightarrow> q' = q"
  by (cases c) (auto simp: push_control_eq push_data_eq split: if_splits)

lemma pop_next_line:
  "pop_next q = (Some f, q') \<Longrightarrow>
     \<exists>c. q_line c q = f # q_line c q' \<and> (\<forall>d. d \<noteq> c \<longrightarrow> q_line d q' = q_line d q)"
proof -
  assume pop: "pop_next q = (Some f, q')"
  have split: "(\<forall>d. d \<noteq> c \<longrightarrow> q_line d q' = q_line d q) \<longleftrightarrow>
      (c \<noteq> Control \<longrightarrow> q_control q' = q_control q) \<and>
      (c \<noteq> DataLine Interactive \<longrightarrow> q_interactive q' = q_interactive q) \<and>
      (c \<noteq> DataLine Bulk \<longrightarrow> q_bulk q' = q_bulk q)" for c
    unfolding all_frame_class by auto
  from pop consider
    (ctl) "q_control q = f # q_control q'" "q_interactive q' = q_interactive q" "q_bulk q' = q_bulk q"
  | (int) "q_interactive q = f # q_interactive q'" "q_control q' = q_control q" "q_bulk q' = q_bulk q"
  | (blk) "q_bulk q = f # q_bulk q'" "q_control q' = q_control q" "q_interactive q' = q_interactive q"
    by (auto simp: pop_next_cases split: list.splits if_splits)
  then show ?thesis
  proof cases
    case ctl then show ?thesis by (intro exI [of _ Control]) (simp add: split)
  next
    case int then show ?thesis by (intro exI [of _ "DataLine Interactive"]) (simp add: split)
  next
    case blk then show ?thesis by (intro exI [of _ "DataLine Bulk"]) (simp add: split)
  qed
qed

lemma pop_next_None_line: "pop_next q = (None, q') \<Longrightarrow> q_line d q' = q_line d q"
proof -
  assume pop: "pop_next q = (None, q')"
  have "\<forall>d. q_line d q' = q_line d q"
    unfolding all_frame_class using pop
    by (auto simp: pop_next_cases split: list.splits if_splits)
  then show ?thesis by blast
qed

interpretation pending_lines: line_scheduler q_enq pop_next q_line q_wf
proof (unfold_locales, goal_cases)
  case (1 q c f) then show ?case by (cases c) (simp_all add: push_control_wf push_data_wf)
next
  case (2 q) then show ?case by (rule pop_next_wf)
next
  case (3 c f q q' d) then show ?case by (rule q_enq_line)
next
  case (4 c f q e q' d) then show ?case using q_enq_Inl by fastforce
next
  case (5 q q' d) then show ?case by (rule pop_next_None_line)
next
  case (6 q f q') then show ?case by (rule pop_next_line)
qed

subsection \<open>Bounded bypass of bulk frames\<close>



section \<open>Properties\<close>

text \<open>
  C23: frames written one after the other are read back one after the other, whatever follows.
\<close>

theorem frames_roundtrip:
  assumes "\<forall>f \<in> set fs. frame_valid f" and "tx c = []"
    and "io_mapM put_frame fs c = (Inr (), d)" and "rx e = tx d @ rest"
  shows "io_repeat (length fs) get_frame e = (Inr fs, e\<lparr>rx := rest\<rparr>)"
  using assms by (rule frame_codec.stream_roundtrip)

theorem frames_roundtrip_witness:
  "io_repeat 1 get_frame \<lparr>rx = [2, 0, 0, 0, 5, 0, 0, 0, 1, 42, 99], tx = []\<rparr> =
    (Inr [(2, 5, [42])], \<lparr>rx = [99], tx = []\<rparr>)"
proof -
  have v: "\<forall>f \<in> set [(2, 5, [42])]. frame_valid f"
    by (simp add: frame_valid_def MAX_PAYLOAD_def)
  have "io_mapM put_frame [(2, 5, [42])] \<lparr>rx = [], tx = []\<rparr> =
      (Inr (), \<lparr>rx = [], tx = [2, 0, 0, 0, 5, 0, 0, 0, 1, 42]\<rparr>)"
    using frame_codec.put_many [OF v]
    by (simp add: frame_wire_def to_be_u32_def del: io_mapM.simps)
  then show ?thesis
    using frames_roundtrip [OF v, of "\<lparr>rx = [], tx = []\<rparr>"
        "\<lparr>rx = [], tx = [2, 0, 0, 0, 5, 0, 0, 0, 1, 42]\<rparr>"
        "\<lparr>rx = [2, 0, 0, 0, 5, 0, 0, 0, 1, 42, 99], tx = []\<rparr>" "[99]"]
    by simp
qed

text \<open>
  The validator accepts an input exactly when it begins with a complete frame of a known kind
  that the reader would take off a connection, and reports its kind, stream and payload length.
\<close>

lemma validate_iff_readable:
  "validate_frame_bytes_for_fuzz input = Inr (Some (kind, sid, len)) \<longleftrightarrow>
     known_kind kind \<and> (\<exists>payload rest. length payload = len \<and>
       read_frame \<lparr>rx = input, tx = []\<rparr> = (Inr (Some (kind, sid, payload)), \<lparr>rx = rest, tx = []\<rparr>))"
    (is "?l \<longleftrightarrow> ?r")
proof
  assume ?l
  from validate_SomeD [OF this] obtain payload rest where
    "input = frame_wire (kind, sid, payload) @ rest" "length payload = len" "known_kind kind"
    "len \<le> MAX_PAYLOAD" by blast
  then show ?r
    using read_frame_wire [of payload "\<lparr>rx = input, tx = []\<rparr>" kind sid rest] by auto
next
  assume ?r
  then obtain payload rest where k: "known_kind kind" "length payload = len"
    "read_frame \<lparr>rx = input, tx = []\<rparr> = (Inr (Some (kind, sid, payload)), \<lparr>rx = rest, tx = []\<rparr>)"
    by blast
  from read_frame_SomeD [OF k(3)] k show ?l
    using validate_wire [of kind payload sid rest] by simp
qed

text \<open>
  C24: over any sequence of pushes and pops, each of the three lines is first-in first-out and loses
  nothing: what left a line followed by what still waits in it is what waited followed by what was
  accepted; and the number of waiting frames never exceeds the limit.
\<close>

theorem pending_fifo_per_class:
  assumes "q_wf q" and "sched_run q_enq pop_next ops q = (ins, outs, r)"
  shows "(\<exists>cs. length cs = length outs \<and>
      (\<forall>d. of_class d (zip cs outs) @ q_line d r = q_line d q @ of_class d ins)) \<and>
    q_wf r \<and> q_len r \<le> q_limit r"
  using pending_lines.run_lines [OF assms(2)] pending_lines.run_inv [OF assms(1), of ops] assms(2)
  by (simp add: q_wf_def)

theorem pending_fifo_per_class_witness:
  "let f = (\<lambda>n. \<lparr>pf_kind = n, pf_stream_id = 1, pf_payload = [], pf_queued_stream = None\<rparr>);
       ops = [Enq (DataLine Bulk) (f 2), Enq Control (f 6), Deq, Deq] in
   \<exists>ins outs r. sched_run q_enq pop_next ops (pending_new 2) = (ins, outs, r) \<and>
     (\<exists>cs. length cs = length outs \<and>
       (\<forall>d. of_class d (zip cs outs) @ q_line d r = q_line d (pending_new 2) @ of_class d ins))"
proof -
  let ?f = "\<lambda>n. \<lparr>pf_kind = n, pf_stream_id = 1, pf_payload = [], pf_queued_stream = None\<rparr>"
  let ?ops = "[Enq (DataLine Bulk) (?f 2), Enq Control (?f 6), Deq, Deq]"
  obtain ins outs r where run: "sched_run q_enq pop_next ?ops (pending_new 2) = (ins, outs, r)"
    by (cases "sched_run q_enq pop_next ?ops (pending_new 2)")
  from pending_fifo_per_class [OF pending_new_wf run] run show ?thesis
    unfolding Let_def by blast
qed



end
