(* ===== verification/Esp_Native_Mux.thy ===== *)
theory Esp_Native_Mux
  imports Esp_Native_Frame Esp_Collections
begin

text \<open>
  The native multiplexer (\<^verbatim>\<open>mux/native.rs\<close>): flow control, the stream handles the application holds
  and the session task that owns the connection.

  A stream handle and its table entry share a bounded channel and a flow state; the model keeps
  both in one object of a store, addressed by a handle number, so that the sharing, and what
  happens when a table entry is replaced while the handle lives on, is explicit. The command
  channel is a bounded list; one-shot replies are recorded in a list, tagged by the caller's
  number. A handler that waits for room in a channel records what it waits with in \<open>m_wait\<close> and is
  taken up again from there; until then the session handles nothing else. Instants are nanoseconds
  and an argument.
\<close>

section \<open>Configuration\<close>

definition COMMAND_CHANNEL_EXTRA_FRAMES :: nat where
  "COMMAND_CHANNEL_EXTRA_FRAMES = 1024"

definition CONTROL_PENDING_EXTRA_FRAMES :: nat where
  "CONTROL_PENDING_EXTRA_FRAMES = 1024"

record NativeMuxConfig =
  max_streams :: nat
  initial_window_bytes :: nat
  stream_buffer_frames :: nat
  send_queue_frames :: nat
  session_idle_timeout :: nat
  drain_timeout :: nat

definition native_default :: NativeMuxConfig where
  "native_default =
     \<lparr>max_streams = 256, initial_window_bytes = 1024 * 1024, stream_buffer_frames = 128,
      send_queue_frames = 64, session_idle_timeout = 300 * 1000000000,
      drain_timeout = 30 * 1000000000\<rparr>"

definition sanitize_config :: "NativeMuxConfig \<Rightarrow> NativeMuxConfig" where
  "sanitize_config c =
     \<lparr>max_streams = max (max_streams c) 1,
      initial_window_bytes = max (initial_window_bytes c) 1,
      stream_buffer_frames = max (stream_buffer_frames c) 1,
      send_queue_frames = max (send_queue_frames c) 1,
      session_idle_timeout = max (session_idle_timeout c) 1000000,
      drain_timeout = max (drain_timeout c) 1000000\<rparr>"

definition command_channel_limit :: "NativeMuxConfig \<Rightarrow> nat" where
  "command_channel_limit c =
     max (sat_add (sat_mul (max_streams c) (sat_add (send_queue_frames c) 8))
       COMMAND_CHANNEL_EXTRA_FRAMES) 1"

definition pending_frame_limit :: "NativeMuxConfig \<Rightarrow> nat" where
  "pending_frame_limit c =
     max (sat_add (sat_mul (max_streams c) (sat_add (send_queue_frames c) 4))
       CONTROL_PENDING_EXTRA_FRAMES) 1"

section \<open>Flow state\<close>

text \<open>\<open>f_waker\<close> says whether a writer waits for a wake-up.\<close>

record FlowState =
  f_available :: nat
  f_queued :: nat
  f_limit :: nat
  f_closed :: bool
  f_waker :: bool

definition flow_new :: "nat \<Rightarrow> nat \<Rightarrow> FlowState" where
  "flow_new window limit =
     \<lparr>f_available = window, f_queued = 0, f_limit = limit, f_closed = False, f_waker = False\<rparr>"

definition wake :: "FlowState \<Rightarrow> FlowState" where
  "wake f = f\<lparr>f_waker := False\<rparr>"

definition add_window :: "nat \<Rightarrow> FlowState \<Rightarrow> FlowState" where
  "add_window amount f = wake (f\<lparr>f_available := sat_add (f_available f) amount\<rparr>)"

definition reserve_send_slot :: "FlowState \<Rightarrow> bool \<times> FlowState" where
  "reserve_send_slot f =
     (if f_closed f then (False, f)
      else if f_queued f \<ge> f_limit f then (False, f)
      else (True, f\<lparr>f_queued := f_queued f + 1\<rparr>))"

definition flow_release_send_slot :: "FlowState \<Rightarrow> FlowState" where
  "flow_release_send_slot f = wake (f\<lparr>f_queued := f_queued f - 1\<rparr>)"

definition flow_close :: "FlowState \<Rightarrow> FlowState" where
  "flow_close f = wake (f\<lparr>f_closed := True\<rparr>)"

section \<open>Streams, commands and the session state\<close>

datatype 'a Poll = Ready 'a | Pending

record NativeStream =
  s_id :: u32
  s_priority :: StreamPriority
  s_chan :: "bytes list"
  s_rx_open :: bool
  s_flow :: FlowState
  s_read_buf :: bytes
  s_read_offset :: nat
  s_pending_window_update :: nat
  s_remote_closed :: bool
  s_local_closed :: bool

datatype Command =
    Open StreamPriority nat
  | Data u32 StreamPriority bytes
  | Fin u32
  | Rst u32
  | WindowUpdate u32 u32
  | Ping u64 "nat option"
  | Goaway

datatype Reply =
    OpenReply nat "nat result"
  | PingReply nat nat

datatype Effect = Continue | StartDrain

text \<open>The sends a frame handler can be suspended in.\<close>

datatype Wait =
    AwaitAccept nat
  | AwaitData nat bytes
  | AwaitAcceptError error

record Session =
  m_cfg :: NativeMuxConfig
  m_objs :: "NativeStream list"
  m_streams :: "(u32, nat) hmap"
  m_next_id :: nat
  m_pending :: PendingFrames
  m_pings :: "(u64, nat \<times> nat) hmap"
  m_draining :: "nat option"
  m_commands :: "Command list"
  m_accept :: "nat result list"
  m_accept_open :: bool
  m_replies :: "Reply list"
  m_wait :: "Wait option"
  m_select :: bool
  m_conn :: conn
  m_alive :: bool

definition start_session :: "nat \<Rightarrow> NativeMuxConfig \<Rightarrow> Session" where
  "start_session first_stream_id cfg =
     (let cfg = sanitize_config cfg in
      \<lparr>m_cfg = cfg, m_objs = [], m_streams = [], m_next_id = first_stream_id,
       m_pending = pending_new (pending_frame_limit cfg), m_pings = [], m_draining = None,
       m_commands = [], m_accept = [], m_accept_open = True, m_replies = [], m_wait = None, m_select = False,
       m_conn = \<lparr>rx = [], tx = []\<rparr>, m_alive = True\<rparr>)"

definition client_session :: "NativeMuxConfig \<Rightarrow> Session" where
  "client_session = start_session 1"

definition server_session :: "NativeMuxConfig \<Rightarrow> Session" where
  "server_session = start_session 2"

definition upd_obj :: "nat \<Rightarrow> (NativeStream \<Rightarrow> NativeStream) \<Rightarrow> Session \<Rightarrow> Session" where
  "upd_obj h g m = m\<lparr>m_objs := (m_objs m)[h := g (m_objs m ! h)]\<rparr>"

definition upd_flow :: "nat \<Rightarrow> (FlowState \<Rightarrow> FlowState) \<Rightarrow> Session \<Rightarrow> Session" where
  "upd_flow h g = upd_obj h (\<lambda>s. s\<lparr>s_flow := g (s_flow s)\<rparr>)"

text \<open>The new object's handle is the next index of the store.\<close>

definition new_stream :: "u32 \<Rightarrow> StreamPriority \<Rightarrow> Session \<Rightarrow> nat \<times> Session" where
  "new_stream stream_id priority m =
     (let s = \<lparr>s_id = stream_id, s_priority = priority, s_chan = [], s_rx_open = True,
               s_flow = flow_new (initial_window_bytes (m_cfg m)) (send_queue_frames (m_cfg m)),
               s_read_buf = [], s_read_offset = 0, s_pending_window_update = 0,
               s_remote_closed = False, s_local_closed = False\<rparr>
      in (length (m_objs m), m\<lparr>m_objs := m_objs m @ [s]\<rparr>))"

definition allocate_stream_id :: "Session \<Rightarrow> u32 option \<times> Session" where
  "allocate_stream_id m =
     (if m_next_id m \<le> u32_max
      then (Some (of_nat (m_next_id m)), m\<lparr>m_next_id := m_next_id m + 2\<rparr>)
      else (None, m))"

definition enqueue_control :: "u8 \<Rightarrow> u32 \<Rightarrow> bytes \<Rightarrow> (Session, unit) io" where
  "enqueue_control kind stream_id payload m =
     (case push_control \<lparr>pf_kind = kind, pf_stream_id = stream_id, pf_payload = payload,
                          pf_queued_stream = None\<rparr> (m_pending m) of
        (r, q) \<Rightarrow> (r, m\<lparr>m_pending := q\<rparr>))"

definition enqueue_data :: "StreamPriority \<Rightarrow> u32 \<Rightarrow> bytes \<Rightarrow> (Session, unit) io" where
  "enqueue_data priority stream_id payload m =
     (case push_data priority \<lparr>pf_kind = FRAME_DATA, pf_stream_id = stream_id, pf_payload = payload,
                                pf_queued_stream = Some stream_id\<rparr> (m_pending m) of
        (r, q) \<Rightarrow> (r, m\<lparr>m_pending := q\<rparr>))"

definition release_send_slot :: "u32 \<Rightarrow> Session \<Rightarrow> Session" where
  "release_send_slot stream_id m =
     (case map_of (m_streams m) stream_id of
        None \<Rightarrow> m
      | Some h \<Rightarrow> upd_flow h flow_release_send_slot m)"

definition mark_stream_closed :: "u32 \<Rightarrow> Session \<Rightarrow> Session" where
  "mark_stream_closed stream_id m =
     (case map_of (m_streams m) stream_id of
        None \<Rightarrow> m
      | Some h \<Rightarrow> upd_flow h flow_close m)"

definition reply :: "Reply \<Rightarrow> Session \<Rightarrow> Session" where
  "reply r m = m\<lparr>m_replies := m_replies m @ [r]\<rparr>"

section \<open>The handlers of the session task\<close>

definition handle_open :: "StreamPriority \<Rightarrow> nat \<Rightarrow> (Session, Effect) io" where
  "handle_open priority rep m =
     (if m_draining m \<noteq> None
      then (Inr Continue, reply (OpenReply rep (Inl (Bail ''native mux is draining''))) m)
      else if length (m_streams m) \<ge> max_streams (m_cfg m)
      then (Inr Continue, reply (OpenReply rep (Inl (Bail ''native mux max streams reached''))) m)
      else
        (case allocate_stream_id m of
           (None, m) \<Rightarrow>
             (Inr StartDrain, reply (OpenReply rep (Inl (Bail ''native mux stream id exhausted''))) m)
         | (Some stream_id, m) \<Rightarrow>
             if map_of (m_streams m) stream_id \<noteq> None
             then (Inr StartDrain, reply (OpenReply rep (Inl (Bail ''native mux stream id collision''))) m)
             else
               (case new_stream stream_id priority m of
                  (h, m) \<Rightarrow>
                    io_then
                      (enqueue_control FRAME_OPEN stream_id [priority_u8 priority])
                      (\<lambda>m. (Inr Continue, reply (OpenReply rep (Inr h)) m))
                      (m\<lparr>m_streams := hm_insert stream_id h (m_streams m)\<rparr>))))"

definition handle_data :: "u32 \<Rightarrow> StreamPriority \<Rightarrow> bytes \<Rightarrow> (Session, Effect) io" where
  "handle_data stream_id priority payload m =
     (if map_of (m_streams m) stream_id \<noteq> None
      then (case enqueue_data priority stream_id payload m of
              (Inl e, m) \<Rightarrow> (Inl e, release_send_slot stream_id m)
            | (Inr _, m) \<Rightarrow> (Inr Continue, m))
      else (Inr Continue, release_send_slot stream_id m))"

definition handle_command :: "nat \<Rightarrow> Command \<Rightarrow> (Session, Effect) io" where
  "handle_command now command =
     (case command of
        Open priority rep \<Rightarrow> handle_open priority rep
      | Data stream_id priority payload \<Rightarrow> handle_data stream_id priority payload
      | Fin stream_id \<Rightarrow>
          io_then (enqueue_control FRAME_FIN stream_id []) (io_return Continue)
      | Rst stream_id \<Rightarrow>
          (\<lambda>m. io_then (enqueue_control FRAME_RST stream_id []) (io_return Continue)
             (m\<lparr>m_streams := hm_remove stream_id (m_streams m)\<rparr>))
      | WindowUpdate stream_id amount \<Rightarrow>
          io_then (enqueue_control FRAME_WINDOW_UPDATE stream_id (to_be_u32 amount))
            (io_return Continue)
      | Ping nonce rep \<Rightarrow>
          (\<lambda>m. io_then (enqueue_control FRAME_PING 0 (to_be_u64 nonce)) (io_return Continue)
             (case rep of None \<Rightarrow> m
              | Some r \<Rightarrow> m\<lparr>m_pings := hm_insert nonce (now, r) (m_pings m)\<rparr>))
      | Goaway \<Rightarrow> io_then (enqueue_control FRAME_GOAWAY 0 []) (io_return StartDrain))"

definition open_priority :: "bytes \<Rightarrow> StreamPriority result" where
  "open_priority payload =
     (case payload of [] \<Rightarrow> Inr Interactive | b # _ \<Rightarrow> priority_try_from b)"

definition send_accept :: "nat \<Rightarrow> Session \<Rightarrow> Effect result Poll \<times> Session" where
  "send_accept h m =
     (if \<not> m_accept_open m then (Ready (Inl (Bail ''native mux accept receiver dropped'')), m)
      else if length (m_accept m) \<ge> max_streams (m_cfg m)
      then (Pending, m\<lparr>m_wait := Some (AwaitAccept h)\<rparr>)
      else (Ready (Inr Continue), m\<lparr>m_accept := m_accept m @ [Inr h]\<rparr>))"

definition send_data :: "nat \<Rightarrow> bytes \<Rightarrow> Session \<Rightarrow> Effect result Poll \<times> Session" where
  "send_data h payload m =
     (if \<not> s_rx_open (m_objs m ! h)
      then (Ready (Inl (Bail ''native mux stream receiver dropped'')), m)
      else if length (s_chan (m_objs m ! h)) \<ge> stream_buffer_frames (m_cfg m)
      then (Pending, m\<lparr>m_wait := Some (AwaitData h payload)\<rparr>)
      else (Ready (Inr Continue), upd_obj h (\<lambda>s. s\<lparr>s_chan := s_chan s @ [payload]\<rparr>) m))"

definition answer_control :: "u8 \<Rightarrow> u32 \<Rightarrow> bytes \<Rightarrow> Session \<Rightarrow> Effect result Poll \<times> Session" where
  "answer_control kind stream_id payload m =
     (case io_then (enqueue_control kind stream_id payload) (io_return Continue) m of
        (r, m) \<Rightarrow> (Ready r, m))"

definition handle_frame_open :: "u32 \<Rightarrow> bytes \<Rightarrow> Session \<Rightarrow> Effect result Poll \<times> Session" where
  "handle_frame_open stream_id payload m =
     (if m_draining m \<noteq> None then answer_control FRAME_RST stream_id [] m
      else if length (m_streams m) \<ge> max_streams (m_cfg m)
      then answer_control FRAME_RST stream_id [] m
      else
        (case open_priority payload of
           Inl e \<Rightarrow> (Ready (Inl e), m)
         | Inr priority \<Rightarrow>
             (case new_stream stream_id priority m of
                (h, m) \<Rightarrow>
                  send_accept h (m\<lparr>m_streams := hm_insert stream_id h (m_streams m)\<rparr>))))"

definition handle_frame_data :: "u32 \<Rightarrow> bytes \<Rightarrow> Session \<Rightarrow> Effect result Poll \<times> Session" where
  "handle_frame_data stream_id payload m =
     (case map_of (m_streams m) stream_id of
        None \<Rightarrow> answer_control FRAME_RST stream_id [] m
      | Some h \<Rightarrow> send_data h payload m)"

definition handle_frame ::
  "nat \<Rightarrow> u8 \<Rightarrow> u32 \<Rightarrow> bytes \<Rightarrow> Session \<Rightarrow> Effect result Poll \<times> Session"
where
  "handle_frame now kind stream_id payload m =
     (if kind = FRAME_OPEN then handle_frame_open stream_id payload m
      else if kind = FRAME_DATA then handle_frame_data stream_id payload m
      else if kind = FRAME_WINDOW_UPDATE then
        (if length payload \<noteq> 4 then (Ready (Inl (Bail ''native mux malformed window update'')), m)
         else
           let amount = unat (from_be_u32 payload) in
           (Ready (Inr Continue),
            case map_of (m_streams m) stream_id of
              None \<Rightarrow> m
            | Some h \<Rightarrow> upd_flow h (add_window amount) m))
      else if kind = FRAME_FIN \<or> kind = FRAME_RST then
        (Ready (Inr Continue),
         let m = mark_stream_closed stream_id m in
         m\<lparr>m_streams := hm_remove stream_id (m_streams m)\<rparr>)
      else if kind = FRAME_PING then
        (if length payload \<noteq> 8 then (Ready (Inl (Bail ''native mux malformed ping'')), m)
         else
           let nonce = from_be_u64 payload in
           (case map_of (m_pings m) nonce of
              Some (started, rep) \<Rightarrow>
                (Ready (Inr Continue),
                 reply (PingReply rep (now - started))
                   (m\<lparr>m_pings := hm_remove nonce (m_pings m)\<rparr>))
            | None \<Rightarrow> answer_control FRAME_PING 0 payload m))
      else if kind = FRAME_GOAWAY then (Ready (Inr StartDrain), m)
      else (Ready (Inl (BailNum ''unknown native mux frame type'' (unat kind))), m))"

text \<open>
  Writing out everything that waits. The loop ends because each round takes a frame off the queue;
  the bound on the number of rounds is the number of frames waiting.
\<close>

fun flush_loop :: "nat \<Rightarrow> (Session, unit) io" where
  "flush_loop 0 m = (Inr (), m)"
| "flush_loop (Suc n) m =
     (case pop_next (m_pending m) of
        (None, q) \<Rightarrow> (Inr (), m\<lparr>m_pending := q\<rparr>)
      | (Some f, q) \<Rightarrow>
          (case write_frame (pf_kind f) (pf_stream_id f) (pf_payload f) (m_conn m) of
             (Inl e, c) \<Rightarrow> (Inl e, m\<lparr>m_pending := q, m_conn := c\<rparr>)
           | (Inr _, c) \<Rightarrow>
               let m = m\<lparr>m_pending := q, m_conn := c\<rparr> in
               flush_loop n
                 (case pf_queued_stream f of None \<Rightarrow> m | Some sid \<Rightarrow> release_send_slot sid m)))"

definition flush_pending :: "(Session, unit) io" where
  "flush_pending m = flush_loop (Suc (q_len (m_pending m))) m"

definition should_stop :: "nat \<Rightarrow> nat option \<Rightarrow> nat \<Rightarrow> bool \<Rightarrow> bool" where
  "should_stop now draining_since timeout no_streams \<longleftrightarrow>
     (case draining_since of
        None \<Rightarrow> False
      | Some started \<Rightarrow> no_streams \<or> now - started \<ge> timeout)"

text \<open>What one turn of the session loop waits for.\<close>

datatype Event =
    CommandEvent Command
  | CommandsClosed
  | FrameEvent u8 u32 bytes
  | FrameEof
  | FrameError error
  | IdleTimeout
  | DrainTimeout

definition start_drain :: "nat \<Rightarrow> Session \<Rightarrow> Session" where
  "start_drain now m =
     m\<lparr>m_draining := (case m_draining m of None \<Rightarrow> Some now | Some t \<Rightarrow> Some t)\<rparr>"

definition apply_effect :: "nat \<Rightarrow> Effect \<Rightarrow> Session \<Rightarrow> Session" where
  "apply_effect now e m = (case e of Continue \<Rightarrow> m | StartDrain \<Rightarrow> start_drain now m)"

text \<open>
  Leaving the loop: the flow states of the table are closed, then the task ends and everything it
  owns (the table, the waiting pings and frames, the receiving end of the command channel) goes.
\<close>

definition close_flows :: "Session \<Rightarrow> Session" where
  "close_flows m = fold (\<lambda>(_, h). upd_flow h flow_close) (m_streams m) m"

definition end_task :: "Session \<Rightarrow> Session" where
  "end_task m =
     m\<lparr>m_streams := [], m_pings := [], m_commands := [],
       m_pending := pending_new (pending_frame_limit (m_cfg m)), m_wait := None, m_alive := False\<rparr>"

definition stop_session :: "Session \<Rightarrow> Session" where
  "stop_session m = end_task (close_flows m)"

text \<open>A failed send of the error is ignored; either way the loop is left afterwards.\<close>

definition send_accept_error :: "error \<Rightarrow> Session \<Rightarrow> Session" where
  "send_accept_error e m =
     (if \<not> m_accept_open m then stop_session m
      else if length (m_accept m) \<ge> max_streams (m_cfg m)
      then m\<lparr>m_wait := Some (AwaitAcceptError e)\<rparr>
      else stop_session (m\<lparr>m_accept := m_accept m @ [Inl e]\<rparr>))"

definition finish_frame :: "nat \<Rightarrow> Effect result Poll \<times> Session \<Rightarrow> Session" where
  "finish_frame now r =
     (case r of
        (Pending, m) \<Rightarrow> m
      | (Ready (Inr e), m) \<Rightarrow> apply_effect now e m
      | (Ready (Inl e), m) \<Rightarrow> send_accept_error e m)"

definition session_event :: "nat \<Rightarrow> Event \<Rightarrow> Session \<Rightarrow> Session" where
  "session_event now ev m =
     (case ev of
        CommandEvent command \<Rightarrow>
          (case handle_command now command m of
             (Inr e, m) \<Rightarrow> apply_effect now e m
           | (Inl _, m) \<Rightarrow> stop_session m)
      | CommandsClosed \<Rightarrow> start_drain now (snd (enqueue_control FRAME_GOAWAY 0 [] m))
      | FrameEvent kind stream_id payload \<Rightarrow>
          finish_frame now (handle_frame now kind stream_id payload m)
      | FrameEof \<Rightarrow> stop_session m
      | FrameError e \<Rightarrow> send_accept_error e m
      | IdleTimeout \<Rightarrow> (snd (enqueue_control FRAME_GOAWAY 0 [] m))\<lparr>m_draining := Some now\<rparr>
      | DrainTimeout \<Rightarrow> stop_session m)"

text \<open>Taking up a suspended handler once its channel may have room.\<close>

definition session_resume :: "nat \<Rightarrow> Session \<Rightarrow> Session" where
  "session_resume now m =
     (case m_wait m of
        None \<Rightarrow> m
      | Some w \<Rightarrow>
          let m = m\<lparr>m_wait := None\<rparr> in
          (case w of
             AwaitAccept h \<Rightarrow> finish_frame now (send_accept h m)
           | AwaitData h payload \<Rightarrow> finish_frame now (send_data h payload m)
           | AwaitAcceptError e \<Rightarrow> send_accept_error e m))"

text \<open>
  The start of a turn: write out what waits, and stop if draining is over; otherwise the loop
  reaches its \<^verbatim>\<open>select!\<close>.
\<close>

definition session_top :: "nat \<Rightarrow> Session \<Rightarrow> Session" where
  "session_top now m =
     (case flush_pending m of
        (Inl _, m) \<Rightarrow> stop_session m
      | (Inr _, m) \<Rightarrow>
          if should_stop now (m_draining m) (drain_timeout (m_cfg m)) (m_streams m = [])
          then stop_session m else m\<lparr>m_select := True\<rparr>)"

text \<open>
  The events the \<^verbatim>\<open>select!\<close> can take: it is biased, so a frame or a timer is looked at only when no
  command waits, and the timers have guards. The session holds a sender of its own command channel,
  so the channel is never found closed.
\<close>

definition event_enabled :: "Event \<Rightarrow> Session \<Rightarrow> bool" where
  "event_enabled ev m =
     (case ev of
        CommandEvent c \<Rightarrow> (case m_commands m of [] \<Rightarrow> False | d # _ \<Rightarrow> c = d)
      | CommandsClosed \<Rightarrow> False
      | FrameEvent _ _ _ \<Rightarrow> m_commands m = []
      | FrameEof \<Rightarrow> m_commands m = []
      | FrameError _ \<Rightarrow> m_commands m = []
      | IdleTimeout \<Rightarrow> m_commands m = [] \<and> m_streams m = [] \<and> m_draining m = None
      | DrainTimeout \<Rightarrow> m_commands m = [] \<and> m_draining m \<noteq> None)"

definition take_event :: "Event \<Rightarrow> Session \<Rightarrow> Session" where
  "take_event ev m =
     (case ev of CommandEvent _ \<Rightarrow> m\<lparr>m_commands := tl (m_commands m)\<rparr> | _ \<Rightarrow> m)"

definition select_event :: "nat \<Rightarrow> Event \<Rightarrow> Session \<Rightarrow> Session" where
  "select_event now ev m =
     session_event now ev ((take_event ev m)\<lparr>m_select := False\<rparr>)"

text \<open>The reader task turns the bytes of the connection into events.\<close>

definition next_frame_event :: "conn \<Rightarrow> Event \<times> conn" where
  "next_frame_event c =
     (case read_frame c of
        (Inl e, c) \<Rightarrow> (FrameError e, c)
      | (Inr None, c) \<Rightarrow> (FrameEof, c)
      | (Inr (Some (kind, stream_id, payload)), c) \<Rightarrow> (FrameEvent kind stream_id payload, c))"

section \<open>The application's side of a stream\<close>

definition try_send :: "Command \<Rightarrow> (Session, unit) io" where
  "try_send c m =
     (if m_alive m \<and> length (m_commands m) < command_channel_limit (m_cfg m)
      then (Inr (), m\<lparr>m_commands := m_commands m @ [c]\<rparr>)
      else (Inl (Bail ''native mux stopped''), m))"

text \<open>The credit of what was read, in pieces that fit a \<^verbatim>\<open>u32\<close>; a refused piece is dropped.\<close>

function send_credit :: "u32 \<Rightarrow> nat \<Rightarrow> Session \<Rightarrow> Session" where
  "send_credit sid amount m =
     (if amount = 0 then m
      else
        let chunk = min amount u32_max in
        send_credit sid (amount - chunk) (snd (try_send (WindowUpdate sid (of_nat chunk)) m)))"
  by pat_completeness auto
termination
  by (relation "measure (\<lambda>(_, amount, _). amount)") (auto simp: u32_max_def min_def)

declare send_credit.simps [simp del]

definition flush_pending_window_update :: "nat \<Rightarrow> Session \<Rightarrow> Session" where
  "flush_pending_window_update h m =
     (let s = m_objs m ! h in
      send_credit (s_id s) (s_pending_window_update s)
        (upd_obj h (\<lambda>s. s\<lparr>s_pending_window_update := 0\<rparr>) m))"

text \<open>The sending half of the channel lives in the table entry.\<close>

definition sender_alive :: "nat \<Rightarrow> Session \<Rightarrow> bool" where
  "sender_alive h m \<longleftrightarrow> h \<in> snd ` set (m_streams m)"

text \<open>
  \<open>remaining\<close> is the room in the caller's buffer. The loop goes round again only after it took an
  empty frame off the channel.
\<close>

definition take_from_buf :: "nat \<Rightarrow> nat \<Rightarrow> Session \<Rightarrow> bytes \<times> Session" where
  "take_from_buf h remaining m =
     (let s = m_objs m ! h;
          available = drop (s_read_offset s) (s_read_buf s);
          n = min (length available) remaining;
          m = upd_obj h (\<lambda>s. s\<lparr>s_read_offset := s_read_offset s + n,
                s_pending_window_update := sat_add (s_pending_window_update s) n\<rparr>) m
      in (take n available,
          if s_read_offset s + n = length (s_read_buf s)
          then flush_pending_window_update h
                 (upd_obj h (\<lambda>s. s\<lparr>s_read_buf := [], s_read_offset := 0\<rparr>) m)
          else m))"

fun poll_read_loop :: "nat \<Rightarrow> nat \<Rightarrow> nat \<Rightarrow> Session \<Rightarrow> bytes Poll \<times> Session" where
  "poll_read_loop 0 h remaining m = (Pending, m)"
| "poll_read_loop (Suc n) h remaining m =
     (let s = m_objs m ! h in
      if s_read_offset s < length (s_read_buf s)
      then (case take_from_buf h remaining m of (bs, m) \<Rightarrow> (Ready bs, m))
      else if s_remote_closed s then (Ready [], flush_pending_window_update h m)
      else
        (case s_chan s of
           payload # rest \<Rightarrow>
             poll_read_loop n h remaining
               (upd_obj h (\<lambda>s. s\<lparr>s_chan := rest, s_read_buf := payload, s_read_offset := 0\<rparr>) m)
         | [] \<Rightarrow>
             if sender_alive h m then (Pending, m)
             else (Ready [], flush_pending_window_update h
                      (upd_obj h (\<lambda>s. s\<lparr>s_remote_closed := True\<rparr>) m))))"

definition poll_read :: "nat \<Rightarrow> nat \<Rightarrow> Session \<Rightarrow> bytes Poll \<times> Session" where
  "poll_read h remaining m = poll_read_loop (Suc (Suc (length (s_chan (m_objs m ! h))))) h remaining m"

definition poll_write :: "nat \<Rightarrow> bytes \<Rightarrow> Session \<Rightarrow> nat result Poll \<times> Session" where
  "poll_write h buf m =
     (let s = m_objs m ! h; f = s_flow s in
      if s_local_closed s then (Ready (Inl (Bail ''native mux stream closed'')), m)
      else if buf = [] then (Ready (Inr 0), m)
      else if f_closed f then (Ready (Inl (Bail ''native mux stream closed by peer'')), m)
      else
        (case (if f_available f = 0 then (False, f) else reserve_send_slot f) of
           (False, f) \<Rightarrow> (Pending, upd_flow h (\<lambda>_. f\<lparr>f_waker := True\<rparr>) m)
         | (True, f) \<Rightarrow>
             let n = min (min (length buf) MAX_PAYLOAD) (f_available f);
                 m = upd_flow h (\<lambda>_. f\<lparr>f_available := f_available f - n\<rparr>) m
             in (case try_send (Data (s_id s) (s_priority s) (take n buf)) m of
                   (Inl e, m) \<Rightarrow> (Ready (Inl e), upd_flow h flow_release_send_slot m)
                 | (Inr _, m) \<Rightarrow> (Ready (Inr n), m))))"

definition poll_shutdown :: "nat \<Rightarrow> (Session, unit) io" where
  "poll_shutdown h m =
     (if s_local_closed (m_objs m ! h) then (Inr (), m)
      else try_send (Fin (s_id (m_objs m ! h))) (upd_obj h (\<lambda>s. s\<lparr>s_local_closed := True\<rparr>) m))"

text \<open>Dropping the handle: the receiving half of the channel goes with it.\<close>

definition drop_stream :: "nat \<Rightarrow> Session \<Rightarrow> Session" where
  "drop_stream h m =
     (let m = (if s_local_closed (m_objs m ! h) then m
               else upd_obj h (\<lambda>s. s\<lparr>s_local_closed := True\<rparr>)
                      (snd (try_send (Rst (s_id (m_objs m ! h))) m)))
      in upd_obj h (\<lambda>s. s\<lparr>s_rx_open := False\<rparr>) m)"

text \<open>\<^verbatim>\<open>send(..).await\<close> on the command channel waits while the channel is full.\<close>

definition send_command :: "Command \<Rightarrow> Session \<Rightarrow> unit result Poll \<times> Session" where
  "send_command c m =
     (if \<not> m_alive m then (Ready (Inl (Bail ''native mux stopped'')), m)
      else if length (m_commands m) < command_channel_limit (m_cfg m)
      then (Ready (Inr ()), m\<lparr>m_commands := m_commands m @ [c]\<rparr>)
      else (Pending, m))"

definition open_stream :: "StreamPriority \<Rightarrow> nat \<Rightarrow> Session \<Rightarrow> unit result Poll \<times> Session" where
  "open_stream priority rep = send_command (Open priority rep)"

definition ping_rtt :: "u64 \<Rightarrow> nat \<Rightarrow> Session \<Rightarrow> unit result Poll \<times> Session" where
  "ping_rtt nonce rep = send_command (Ping nonce (Some rep))"

definition goaway :: "(Session, unit) io" where
  "goaway = try_send Goaway"

definition poll_next :: "Session \<Rightarrow> nat result option Poll \<times> Session" where
  "poll_next m =
     (case m_accept m of
        x # rest \<Rightarrow> (Ready (Some x), m\<lparr>m_accept := rest\<rparr>)
      | [] \<Rightarrow> (if m_alive m then Pending else Ready None, m))"

text \<open>
  Dropping the session aborts its task where it stands: the closing of the flow states after the
  loop is not run. The streams still waiting to be accepted are dropped with the channel.
\<close>

definition drop_session :: "Session \<Rightarrow> Session" where
  "drop_session m =
     (fold (\<lambda>x m. case x of Inr h \<Rightarrow> drop_stream h m | Inl _ \<Rightarrow> m) (m_accept m) (end_task m))
       \<lparr>m_accept := [], m_accept_open := False\<rparr>"

section \<open>Steps of the system\<close>

text \<open>
  What can happen next: a move of the session task (the top of its loop, the event its \<^verbatim>\<open>select!\<close>
  takes, a suspended handler going on, a failure of the transport after \<open>k\<close> frames were written) or
  a call by the holder of a handle. \<open>None\<close> is a step that cannot be taken in this state.
\<close>

datatype Label =
    Top nat
  | Select nat Event
  | Resume nat
  | TransportFails nat
  | Write nat bytes
  | Read nat nat
  | Shutdown nat
  | DropStream nat
  | OpenStream StreamPriority nat
  | PingRtt u64 nat
  | GoAway
  | Accept
  | DropSession

definition holds :: "nat \<Rightarrow> Session \<Rightarrow> bool" where
  "holds h m \<longleftrightarrow> h < length (m_objs m) \<and> s_rx_open (m_objs m ! h)"

fun mux_exec :: "Label \<Rightarrow> Session \<Rightarrow> Session option" where
  "mux_exec (Top now) m =
     (if m_alive m \<and> m_wait m = None \<and> \<not> m_select m then Some (session_top now m) else None)"
| "mux_exec (Select now ev) m =
     (if m_alive m \<and> m_wait m = None \<and> m_select m \<and> event_enabled ev m
      then Some (select_event now ev m) else None)"
| "mux_exec (Resume now) m =
     (if m_alive m \<and> m_wait m \<noteq> None then Some (session_resume now m) else None)"
| "mux_exec (TransportFails k) m =
     (if m_alive m \<and> m_wait m = None \<and> \<not> m_select m
      then Some (stop_session (snd (flush_loop k m))) else None)"
| "mux_exec (Write h buf) m = (if holds h m then Some (snd (poll_write h buf m)) else None)"
| "mux_exec (Read h n) m = (if holds h m then Some (snd (poll_read h n m)) else None)"
| "mux_exec (Shutdown h) m = (if holds h m then Some (snd (poll_shutdown h m)) else None)"
| "mux_exec (DropStream h) m = (if holds h m then Some (drop_stream h m) else None)"
| "mux_exec (OpenStream priority rep) m = Some (snd (open_stream priority rep m))"
| "mux_exec (PingRtt nonce rep) m = Some (snd (ping_rtt nonce rep m))"
| "mux_exec GoAway m = Some (snd (goaway m))"
| "mux_exec Accept m = (if m_accept_open m then Some (snd (poll_next m)) else None)"
| "mux_exec DropSession m = (if m_accept_open m then Some (drop_session m) else None)"

inductive mux_reach :: "nat \<Rightarrow> NativeMuxConfig \<Rightarrow> Session \<Rightarrow> bool" for first cfg where
  reach_start: "mux_reach first cfg (start_session first cfg)"
| reach_step: "mux_reach first cfg m \<Longrightarrow> mux_exec l m = Some m' \<Longrightarrow> mux_reach first cfg m'"

fun mux_run :: "Label list \<Rightarrow> Session \<Rightarrow> Session option" where
  "mux_run [] m = Some m"
| "mux_run (l # ls) m = (case mux_exec l m of None \<Rightarrow> None | Some m' \<Rightarrow> mux_run ls m')"

lemma mux_run_reach: "mux_reach first cfg m \<Longrightarrow> mux_run ls m = Some m' \<Longrightarrow> mux_reach first cfg m'"
  by (induction ls arbitrary: m) (auto split: option.splits intro: reach_step)

end
