(* ===== verification/Esp_Native_Mux_Inv.thy ===== *)
theory Esp_Native_Mux_Inv
  imports Esp_Native_Mux
begin

text \<open>
  The invariant of a native multiplexer session, kept by every step of the session task and of the
  stream handles: the table is well formed and bounded, every queue is within its limit, what is
  queued can be written, and at most one frame ever waits to be written.
\<close>

section \<open>The invariant of a session\<close>

definition obj_ok :: "NativeMuxConfig \<Rightarrow> NativeStream \<Rightarrow> bool" where
  "obj_ok cfg s \<longleftrightarrow> f_queued (s_flow s) \<le> f_limit (s_flow s) \<and>
     f_limit (s_flow s) = send_queue_frames cfg \<and>
     length (s_chan s) \<le> stream_buffer_frames cfg \<and> s_read_offset s \<le> length (s_read_buf s)"

definition table_ok :: "nat \<Rightarrow> NativeStream list \<Rightarrow> (u32, nat) hmap \<Rightarrow> bool" where
  "table_ok limit objs t \<longleftrightarrow> hm_wf t \<and> length t \<le> limit \<and>
     (\<forall>(sid, h) \<in> set t. h < length objs \<and> s_id (objs ! h) = sid)"

definition frames_ok :: "PendingFrames \<Rightarrow> bool" where
  "frames_ok q \<longleftrightarrow> (\<forall>f \<in> set (q_control q @ q_interactive q @ q_bulk q).
     length (pf_payload f) \<le> MAX_PAYLOAD)"

fun command_ok :: "Command \<Rightarrow> bool" where
  "command_ok (Data _ _ payload) \<longleftrightarrow> length payload \<le> MAX_PAYLOAD"
| "command_ok _ \<longleftrightarrow> True"

fun wait_ok :: "nat \<Rightarrow> Wait \<Rightarrow> bool" where
  "wait_ok n (AwaitAccept h) \<longleftrightarrow> h < n"
| "wait_ok n (AwaitData h _) \<longleftrightarrow> h < n"
| "wait_ok n (AwaitAcceptError _) \<longleftrightarrow> True"

definition mux_ok :: "Session \<Rightarrow> bool" where
  "mux_ok m \<longleftrightarrow> 1 \<le> max_streams (m_cfg m) \<and>
     (\<forall>s \<in> set (m_objs m). obj_ok (m_cfg m) s) \<and>
     table_ok (max_streams (m_cfg m)) (m_objs m) (m_streams m) \<and>
     q_wf (m_pending m) \<and> frames_ok (m_pending m) \<and>
     (\<forall>c \<in> set (m_commands m). command_ok c) \<and>
     length (m_commands m) \<le> command_channel_limit (m_cfg m) \<and>
     length (m_accept m) \<le> max_streams (m_cfg m) \<and>
     (\<forall>h. Inr h \<in> set (m_accept m) \<longrightarrow> h < length (m_objs m)) \<and>
     (\<forall>w. m_wait m = Some w \<longrightarrow> wait_ok (length (m_objs m)) w)"

text \<open>At most one frame waits, and none once the loop is at its \<^verbatim>\<open>select!\<close> or a handler is suspended.\<close>

definition queue_short :: "Session \<Rightarrow> bool" where
  "queue_short m \<longleftrightarrow> q_len (m_pending m) \<le> 1 \<and>
     (m_select m \<or> m_wait m \<noteq> None \<longrightarrow> q_len (m_pending m) = 0)"

subsection \<open>What the primitive updates keep\<close>

lemma upd_obj_sel [simp]:
  "m_cfg (upd_obj h g m) = m_cfg m" "m_streams (upd_obj h g m) = m_streams m"
  "m_next_id (upd_obj h g m) = m_next_id m" "m_pending (upd_obj h g m) = m_pending m"
  "m_pings (upd_obj h g m) = m_pings m" "m_draining (upd_obj h g m) = m_draining m"
  "m_commands (upd_obj h g m) = m_commands m" "m_accept (upd_obj h g m) = m_accept m"
  "m_accept_open (upd_obj h g m) = m_accept_open m" "m_replies (upd_obj h g m) = m_replies m"
  "m_wait (upd_obj h g m) = m_wait m" "m_select (upd_obj h g m) = m_select m"
  "m_conn (upd_obj h g m) = m_conn m" "m_alive (upd_obj h g m) = m_alive m"
  "length (m_objs (upd_obj h g m)) = length (m_objs m)"
  by (simp_all add: upd_obj_def)

lemma upd_obj_nth:
  "m_objs (upd_obj h g m) ! k = (if k = h \<and> h < length (m_objs m) then g (m_objs m ! h) else m_objs m ! k)"
  by (cases "h < length (m_objs m)") (auto simp: upd_obj_def nth_list_update list_update_beyond)

lemma upd_flow_sel [simp]:
  "m_cfg (upd_flow h g m) = m_cfg m" "m_streams (upd_flow h g m) = m_streams m"
  "m_next_id (upd_flow h g m) = m_next_id m" "m_pending (upd_flow h g m) = m_pending m"
  "m_pings (upd_flow h g m) = m_pings m" "m_draining (upd_flow h g m) = m_draining m"
  "m_commands (upd_flow h g m) = m_commands m" "m_accept (upd_flow h g m) = m_accept m"
  "m_accept_open (upd_flow h g m) = m_accept_open m" "m_replies (upd_flow h g m) = m_replies m"
  "m_wait (upd_flow h g m) = m_wait m" "m_select (upd_flow h g m) = m_select m"
  "m_conn (upd_flow h g m) = m_conn m" "m_alive (upd_flow h g m) = m_alive m"
  "length (m_objs (upd_flow h g m)) = length (m_objs m)"
  by (simp_all add: upd_flow_def)

lemma table_ok_objs:
  "table_ok k objs t \<Longrightarrow> length objs \<le> length objs' \<Longrightarrow>
     (\<And>h. h < length objs \<Longrightarrow> s_id (objs' ! h) = s_id (objs ! h)) \<Longrightarrow> table_ok k objs' t"
  by (fastforce simp: table_ok_def)

lemma table_ok_remove: "table_ok k objs t \<Longrightarrow> table_ok k objs (hm_remove sid t)"
  using hm_set_remove [of sid t] hm_remove_length [of sid t]
  by (auto simp: table_ok_def intro: hm_remove_wf)

lemma table_ok_insert:
  assumes "table_ok k objs t" "length t < k" "h < length objs" "s_id (objs ! h) = sid"
  shows "table_ok k objs (hm_insert sid h t)"
  using assms hm_set_insert [of sid h t] hm_insert_length [of sid h t]
  by (auto simp: table_ok_def intro: hm_insert_wf)

lemma table_ok_handle: "table_ok k objs t \<Longrightarrow> map_of t sid = Some h \<Longrightarrow> h < length objs \<and> s_id (objs ! h) = sid"
  by (auto simp: table_ok_def dest: map_of_SomeD)

lemma mux_ok_upd_obj:
  assumes "mux_ok m" and "\<And>s. s_id (g s) = s_id s"
    and "h < length (m_objs m) \<Longrightarrow> obj_ok (m_cfg m) (m_objs m ! h) \<Longrightarrow> obj_ok (m_cfg m) (g (m_objs m ! h))"
  shows "mux_ok (upd_obj h g m)"
proof (cases "h < length (m_objs m)")
  case True
  then have "obj_ok (m_cfg m) (g (m_objs m ! h))"
    using assms(1,3) by (simp add: mux_ok_def)
  then have "\<forall>s \<in> set (m_objs (upd_obj h g m)). obj_ok (m_cfg m) s"
    using assms(1) set_update_subset_insert [of "m_objs m" h "g (m_objs m ! h)"]
    by (auto simp: mux_ok_def upd_obj_def)
  moreover have "table_ok (max_streams (m_cfg m)) (m_objs (upd_obj h g m)) (m_streams m)"
    by (rule table_ok_objs [of _ "m_objs m"])
      (use assms(1,2) in \<open>auto simp: mux_ok_def upd_obj_nth\<close>)
  ultimately show ?thesis
    using assms(1) by (simp add: mux_ok_def)
next
  case False
  then have "upd_obj h g m = m" by (simp add: upd_obj_def list_update_beyond)
  with assms(1) show ?thesis by simp
qed

lemma mux_ok_upd_flow:
  assumes "mux_ok m" and "\<And>f. f_limit (g f) = f_limit f"
    and "\<And>f. f_queued f \<le> f_limit f \<Longrightarrow> f_queued (g f) \<le> f_limit f"
  shows "mux_ok (upd_flow h g m)"
  unfolding upd_flow_def
  by (rule mux_ok_upd_obj)
    (use assms(1,2) assms(3) [of "s_flow (m_objs m ! h)"] in \<open>auto simp: obj_ok_def\<close>)

lemmas flow_defs = wake_def add_window_def flow_release_send_slot_def flow_close_def

lemma mux_ok_flows [intro]:
  assumes "mux_ok m"
  shows "mux_ok (upd_flow h flow_close m)" "mux_ok (upd_flow h flow_release_send_slot m)"
    "mux_ok (upd_flow h (add_window a) m)" "mux_ok (release_send_slot sid m)"
    "mux_ok (mark_stream_closed sid m)"
  using assms
  by (auto simp: release_send_slot_def mark_stream_closed_def flow_defs
      intro!: mux_ok_upd_flow split: option.splits)

lemma mux_ok_irrelevant [simp]:
  "mux_ok (m\<lparr>m_next_id := i\<rparr>) = mux_ok m" "mux_ok (m\<lparr>m_pings := ps\<rparr>) = mux_ok m"
  "mux_ok (m\<lparr>m_draining := d\<rparr>) = mux_ok m" "mux_ok (m\<lparr>m_replies := rs\<rparr>) = mux_ok m"
  "mux_ok (m\<lparr>m_conn := c\<rparr>) = mux_ok m" "mux_ok (m\<lparr>m_select := b\<rparr>) = mux_ok m"
  "mux_ok (m\<lparr>m_alive := b\<rparr>) = mux_ok m" "mux_ok (m\<lparr>m_accept_open := b\<rparr>) = mux_ok m"
  "mux_ok (reply r m) = mux_ok m"
  by (simp_all add: mux_ok_def reply_def)

lemma mux_ok_remove [intro]: "mux_ok m \<Longrightarrow> mux_ok (m\<lparr>m_streams := hm_remove sid (m_streams m)\<rparr>)"
  by (simp add: mux_ok_def table_ok_remove)

lemma mux_ok_wait: "mux_ok m \<Longrightarrow> (\<And>v. w = Some v \<Longrightarrow> wait_ok (length (m_objs m)) v) \<Longrightarrow> mux_ok (m\<lparr>m_wait := w\<rparr>)"
  by (simp add: mux_ok_def)

lemma mux_ok_accept:
  "mux_ok m \<Longrightarrow> length (m_accept m) < max_streams (m_cfg m) \<Longrightarrow>
     (\<And>h. x = Inr h \<Longrightarrow> h < length (m_objs m)) \<Longrightarrow> mux_ok (m\<lparr>m_accept := m_accept m @ [x]\<rparr>)"
  by (auto simp: mux_ok_def)

lemma mux_ok_send:
  "mux_ok m \<Longrightarrow> command_ok c \<Longrightarrow> mux_ok (snd (try_send c m))"
  "mux_ok m \<Longrightarrow> command_ok c \<Longrightarrow> mux_ok (snd (send_command c m))"
  by (auto simp: try_send_def send_command_def mux_ok_def)

lemma mux_ok_end_task: "mux_ok m \<Longrightarrow> mux_ok (end_task m)"
  by (auto simp: mux_ok_def end_task_def table_ok_def frames_ok_def pending_new_wf)
    (simp_all add: pending_new_def)

lemma mux_ok_fold_close:
  "mux_ok m \<Longrightarrow> mux_ok (fold (\<lambda>(_, h). upd_flow h flow_close) t m)"
  by (induction t arbitrary: m) auto

lemma mux_ok_stop [intro]: "mux_ok m \<Longrightarrow> mux_ok (stop_session m)"
  by (simp add: stop_session_def close_flows_def mux_ok_end_task mux_ok_fold_close)

lemma enqueue_sel:
  "m_pending (snd (enqueue_control k sid pl m)) = snd (push_control
     \<lparr>pf_kind = k, pf_stream_id = sid, pf_payload = pl, pf_queued_stream = None\<rparr> (m_pending m))"
  "snd (enqueue_control k sid pl m) =
     m\<lparr>m_pending := m_pending (snd (enqueue_control k sid pl m))\<rparr>"
  by (simp_all add: enqueue_control_def split: prod.splits)

lemma mux_ok_pending: "mux_ok m \<Longrightarrow> q_wf q \<Longrightarrow> frames_ok q \<Longrightarrow> mux_ok (m\<lparr>m_pending := q\<rparr>)"
  by (simp add: mux_ok_def)

lemma mux_ok_enqueue:
  "mux_ok m \<Longrightarrow> length pl \<le> MAX_PAYLOAD \<Longrightarrow> mux_ok (snd (enqueue_control k sid pl m))"
  "mux_ok m \<Longrightarrow> length pl \<le> MAX_PAYLOAD \<Longrightarrow> mux_ok (snd (enqueue_data pr sid pl m))"
  by (auto simp: enqueue_control_def enqueue_data_def push_control_eq push_data_eq frames_ok_def
      q_wf_def mux_ok_def split: StreamPriority.splits)

lemma mux_ok_new_stream:
  assumes "mux_ok m" "length (m_streams m) < max_streams (m_cfg m)" "new_stream sid pr m = (h, n)"
  shows "mux_ok (n\<lparr>m_streams := hm_insert sid h (m_streams n)\<rparr>)"
proof -
  let ?k = "max_streams (m_cfg m)"
  from assms(3) have n: "h = length (m_objs m)" "h < length (m_objs n)" "s_id (m_objs n ! h) = sid"
    "\<exists>s. m_objs n = m_objs m @ [s] \<and> obj_ok (m_cfg m) s" "n = m\<lparr>m_objs := m_objs n\<rparr>"
    by (auto simp: new_stream_def flow_new_def obj_ok_def)
  then obtain s where s: "m_objs n = m_objs m @ [s]" "obj_ok (m_cfg m) s" by blast
  have "table_ok ?k (m_objs n) (m_streams m)"
    by (rule table_ok_objs [of _ "m_objs m"])
      (use assms(1) s in \<open>auto simp: mux_ok_def nth_append\<close>)
  then have "table_ok ?k (m_objs n) (hm_insert sid h (m_streams m))"
    by (rule table_ok_insert) (use assms(2) n in auto)
  moreover have "wait_ok (length (m_objs m)) w \<Longrightarrow> wait_ok (length (m_objs n)) w" for w
    using s by (cases w) auto
  moreover have "m_cfg n = m_cfg m \<and> m_streams n = m_streams m \<and> m_pending n = m_pending m \<and>
    m_commands n = m_commands m \<and> m_accept n = m_accept m \<and> m_wait n = m_wait m"
    by (subst (1 2 3 4 5 6) n(5)) simp
  ultimately show ?thesis
    using assms(1) s by (auto simp: mux_ok_def less_SucI)
qed

subsection \<open>What the handlers keep\<close>

lemma io_then_return_snd: "snd (io_then a (io_return x) m) = snd (a m)"
  by (auto simp: io_then_def io_bind_def io_return_def split: prod.splits sum.splits)

lemma MAX_PAYLOAD_ge: "8 \<le> MAX_PAYLOAD"
  by (simp add: MAX_PAYLOAD_def)

lemma allocate_stream_id_ok: "allocate_stream_id m = (r, n) \<Longrightarrow> mux_ok n = mux_ok m \<and> m_cfg n = m_cfg m \<and>
   m_streams n = m_streams m \<and> m_pending n = m_pending m \<and> m_wait n = m_wait m \<and> m_select n = m_select m"
  by (auto simp: allocate_stream_id_def split: if_splits)

lemma mux_ok_handle_open:
  assumes "mux_ok m"
  shows "mux_ok (snd (handle_open pr rep m))"
proof (cases "m_draining m \<noteq> None \<or> length (m_streams m) \<ge> max_streams (m_cfg m)")
  case True
  with assms show ?thesis by (auto simp: handle_open_def)
next
  case False
  obtain r n where a: "allocate_stream_id m = (r, n)" by (cases "allocate_stream_id m")
  note n = allocate_stream_id_ok [OF a]
  define h where "h = (\<lambda>sid. fst (new_stream sid pr n))"
  define k where "k = (\<lambda>sid. snd (new_stream sid pr n))"
  have k: "new_stream sid pr n = (h sid, k sid)" for sid
    by (simp add: h_def k_def)
  have "mux_ok ((k sid)\<lparr>m_streams := hm_insert sid (h sid) (m_streams (k sid))\<rparr>)" for sid
    using assms False n by (intro mux_ok_new_stream [OF _ _ k]) auto
  then have "mux_ok (snd (enqueue_control FRAME_OPEN sid [x]
      ((k sid)\<lparr>m_streams := hm_insert sid (h sid) (m_streams (k sid))\<rparr>)))" for sid x
    using MAX_PAYLOAD_ge by (intro mux_ok_enqueue(1)) auto
  then show ?thesis
    using assms False n a k
    by (auto simp: handle_open_def io_then_def io_bind_def split: option.splits prod.splits sum.splits)
      (metis snd_conv)+
qed

lemma mux_ok_handle_data:
  "mux_ok m \<Longrightarrow> length pl \<le> MAX_PAYLOAD \<Longrightarrow> mux_ok (snd (handle_data sid pr pl m))"
  using mux_ok_enqueue(2) [of m pl pr sid]
  by (auto simp: handle_data_def split: prod.splits sum.splits)

lemma mux_ok_handle_command:
  assumes "mux_ok m" "command_ok c"
  shows "mux_ok (snd (handle_command now c m))"
  using assms MAX_PAYLOAD_ge
  by (cases c) (auto simp: handle_command_def io_then_return_snd mux_ok_handle_open mux_ok_handle_data
      intro!: mux_ok_enqueue split: option.splits)

lemma mux_ok_answer:
  "mux_ok m \<Longrightarrow> length pl \<le> MAX_PAYLOAD \<Longrightarrow> mux_ok (snd (answer_control k sid pl m))"
  using mux_ok_enqueue(1) [of m pl k sid]
  by (auto simp: answer_control_def io_then_def io_bind_def io_return_def split: prod.splits sum.splits)

lemma mux_ok_send_accept: "mux_ok m \<Longrightarrow> h < length (m_objs m) \<Longrightarrow> mux_ok (snd (send_accept h m))"
  by (auto simp: send_accept_def intro!: mux_ok_wait mux_ok_accept)

lemma mux_ok_send_data: "mux_ok m \<Longrightarrow> h < length (m_objs m) \<Longrightarrow> mux_ok (snd (send_data h pl m))"
  by (auto simp: send_data_def obj_ok_def intro!: mux_ok_wait mux_ok_upd_obj)

lemma mux_ok_handle_frame_open:
  assumes "mux_ok m"
  shows "mux_ok (snd (handle_frame_open sid pl m))"
proof -
  have "mux_ok (snd (send_accept h (n\<lparr>m_streams := hm_insert sid h (m_streams n)\<rparr>)))"
    if "new_stream sid pr m = (h, n)" "length (m_streams m) < max_streams (m_cfg m)" for pr h n
    using that assms by (intro mux_ok_send_accept mux_ok_new_stream [OF assms])
      (auto simp: new_stream_def)
  then show ?thesis
    using assms by (auto simp: handle_frame_open_def mux_ok_answer split: sum.splits prod.splits)
qed

lemma mux_ok_handle_frame_data:
  assumes "mux_ok m"
  shows "mux_ok (snd (handle_frame_data sid pl m))"
proof (cases "map_of (m_streams m) sid")
  case None
  with assms show ?thesis by (simp add: handle_frame_data_def mux_ok_answer)
next
  case (Some h)
  with assms have "h < length (m_objs m)" by (auto simp: mux_ok_def dest: table_ok_handle)
  with assms Some show ?thesis by (simp add: handle_frame_data_def mux_ok_send_data)
qed

lemma mux_ok_handle_frame:
  assumes "mux_ok m"
  shows "mux_ok (snd (handle_frame now kind sid pl m))"
proof -
  have "mux_ok ((mark_stream_closed sid m)\<lparr>m_streams := hm_remove sid (m_streams (mark_stream_closed sid m))\<rparr>)"
    using assms by (intro mux_ok_remove mux_ok_flows)
  then show ?thesis
    using assms MAX_PAYLOAD_ge
    by (simp add: handle_frame_def Let_def mux_ok_handle_frame_open mux_ok_handle_frame_data
        mux_ok_answer mux_ok_flows split: option.splits)
qed

lemma mux_ok_send_accept_error: "mux_ok m \<Longrightarrow> mux_ok (send_accept_error e m)"
  by (auto simp: send_accept_error_def intro!: mux_ok_wait mux_ok_stop mux_ok_accept)

lemma mux_ok_effect: "mux_ok m \<Longrightarrow> mux_ok (apply_effect now e m)"
  by (auto simp: apply_effect_def start_drain_def split: Effect.splits)

lemma mux_ok_finish_frame: "mux_ok (snd r) \<Longrightarrow> mux_ok (finish_frame now r)"
  by (auto simp: finish_frame_def mux_ok_effect mux_ok_send_accept_error
      split: prod.splits Poll.splits sum.splits)

lemma mux_ok_session_event:
  assumes "mux_ok m" and "\<And>c. ev = CommandEvent c \<Longrightarrow> command_ok c"
  shows "mux_ok (session_event now ev m)"
proof -
  have "mux_ok (snd (enqueue_control FRAME_GOAWAY 0 [] m))"
    using assms(1) by (intro mux_ok_enqueue(1)) auto
  moreover have "mux_ok (snd (handle_command now c m))" if "ev = CommandEvent c" for c
    using assms that by (intro mux_ok_handle_command) auto
  ultimately show ?thesis
    using assms(1)
    by (cases ev) (auto simp: session_event_def start_drain_def mux_ok_finish_frame
        mux_ok_handle_frame mux_ok_send_accept_error mux_ok_effect mux_ok_stop
        split: prod.splits sum.splits)
qed

lemma mux_ok_resume:
  assumes "mux_ok m"
  shows "mux_ok (session_resume now m)"
proof -
  have "mux_ok (m\<lparr>m_wait := None\<rparr>)" using assms by (intro mux_ok_wait) auto
  moreover have "wait_ok (length (m_objs m)) w" if "m_wait m = Some w" for w
    using assms that by (simp add: mux_ok_def)
  ultimately show ?thesis
    using assms by (auto simp: session_resume_def Let_def mux_ok_send_accept_error
        intro!: mux_ok_finish_frame mux_ok_send_accept mux_ok_send_data split: option.splits Wait.splits)
qed

lemma frames_ok_pop: "frames_ok q \<Longrightarrow> frames_ok (snd (pop_next q))"
  by (auto simp: frames_ok_def pop_next_cases split: list.splits if_splits)

lemma mux_ok_popped:
  assumes "mux_ok m" "pop_next (m_pending m) = (x, q)"
  shows "mux_ok (m\<lparr>m_pending := q\<rparr>)" "mux_ok (m\<lparr>m_pending := q, m_conn := c\<rparr>)"
proof -
  from assms show "mux_ok (m\<lparr>m_pending := q\<rparr>)"
    using pop_next_wf [of "m_pending m"] frames_ok_pop [of "m_pending m"]
    by (intro mux_ok_pending) (simp_all add: mux_ok_def)
  then show "mux_ok (m\<lparr>m_pending := q, m_conn := c\<rparr>)"
    by (simp add: mux_ok_def)
qed

lemma mux_ok_flush: "mux_ok m \<Longrightarrow> mux_ok (snd (flush_loop n m))"
proof (induction n arbitrary: m)
  case (Suc n)
  obtain x q where q: "pop_next (m_pending m) = (x, q)" by (cases "pop_next (m_pending m)")
  note ok = mux_ok_popped [OF Suc.prems q]
  show ?case
  proof (cases x)
    case None
    with q ok(1) show ?thesis by simp
  next
    case (Some f)
    obtain r c where w: "write_frame (pf_kind f) (pf_stream_id f) (pf_payload f) (m_conn m) = (r, c)"
      by (cases "write_frame (pf_kind f) (pf_stream_id f) (pf_payload f) (m_conn m)")
    let ?m = "m\<lparr>m_pending := q, m_conn := c\<rparr>"
    have "mux_ok (case pf_queued_stream f of None \<Rightarrow> ?m | Some sid \<Rightarrow> release_send_slot sid ?m)"
      using ok(2) by (simp add: mux_ok_flows split: option.splits)
    with q Some w ok(2) Suc.IH show ?thesis
      by (cases r) (simp_all add: Let_def)
  qed
qed simp

lemma mux_ok_top: "mux_ok m \<Longrightarrow> mux_ok (session_top now m)"
  using mux_ok_flush [of m "Suc (q_len (m_pending m))"]
  by (auto simp: session_top_def flush_pending_def split: prod.splits sum.splits)

subsection \<open>What the stream handles keep\<close>

lemma try_send_sel [simp]:
  "m_cfg (snd (try_send c m)) = m_cfg m" "m_objs (snd (try_send c m)) = m_objs m"
  "m_streams (snd (try_send c m)) = m_streams m" "m_pending (snd (try_send c m)) = m_pending m"
  "m_wait (snd (try_send c m)) = m_wait m" "m_select (snd (try_send c m)) = m_select m"
  "m_alive (snd (try_send c m)) = m_alive m" "m_next_id (snd (try_send c m)) = m_next_id m"
  "m_replies (snd (try_send c m)) = m_replies m" "m_draining (snd (try_send c m)) = m_draining m"
  "m_accept (snd (try_send c m)) = m_accept m"
  by (simp_all add: try_send_def)

lemma send_credit_sel [simp]:
  "m_cfg (send_credit sid n m) = m_cfg m" "m_objs (send_credit sid n m) = m_objs m"
  "m_streams (send_credit sid n m) = m_streams m" "m_pending (send_credit sid n m) = m_pending m"
  "m_wait (send_credit sid n m) = m_wait m" "m_select (send_credit sid n m) = m_select m"
  "m_alive (send_credit sid n m) = m_alive m" "m_next_id (send_credit sid n m) = m_next_id m"
  "m_replies (send_credit sid n m) = m_replies m" "m_draining (send_credit sid n m) = m_draining m"
  by (induction sid n m rule: send_credit.induct; subst send_credit.simps; simp add: Let_def)+

lemma mux_ok_send_credit: "mux_ok m \<Longrightarrow> mux_ok (send_credit sid n m)"
proof (induction sid n m rule: send_credit.induct)
  case (1 sid n m)
  then show ?case
    by (subst send_credit.simps) (simp add: Let_def mux_ok_send)
qed

lemma mux_ok_flush_update: "mux_ok m \<Longrightarrow> mux_ok (flush_pending_window_update h m)"
  by (auto simp: flush_pending_window_update_def Let_def obj_ok_def
      intro!: mux_ok_send_credit mux_ok_upd_obj)

lemma mux_ok_take_from_buf:
  assumes "mux_ok m"
  shows "mux_ok (snd (take_from_buf h remaining m))"
proof -
  let ?s = "m_objs m ! h"
  let ?n = "min (length (drop (s_read_offset ?s) (s_read_buf ?s))) remaining"
  let ?m = "upd_obj h (\<lambda>s. s\<lparr>s_read_offset := s_read_offset s + ?n,
      s_pending_window_update := sat_add (s_pending_window_update s) ?n\<rparr>) m"
  have m: "mux_ok ?m"
    using assms by (intro mux_ok_upd_obj) (auto simp: obj_ok_def)
  then have "mux_ok (upd_obj h (\<lambda>s. s\<lparr>s_read_buf := [], s_read_offset := 0\<rparr>) ?m)"
    by (rule mux_ok_upd_obj) (auto simp: obj_ok_def)
  with m show ?thesis
    by (auto simp: take_from_buf_def Let_def mux_ok_flush_update)
qed

lemma mux_ok_poll_read_loop: "mux_ok m \<Longrightarrow> mux_ok (snd (poll_read_loop n h remaining m))"
proof (induction n arbitrary: m)
  case (Suc n)
  have "mux_ok (upd_obj h (\<lambda>s. s\<lparr>s_chan := rest, s_read_buf := payload, s_read_offset := 0\<rparr>) m)"
    if "s_chan (m_objs m ! h) = payload # rest" for payload rest
    using Suc.prems that by (intro mux_ok_upd_obj) (auto simp: obj_ok_def)
  moreover have "mux_ok (upd_obj h (\<lambda>s. s\<lparr>s_remote_closed := True\<rparr>) m)"
    using Suc.prems by (intro mux_ok_upd_obj) (auto simp: obj_ok_def)
  moreover have "mux_ok (snd (take_from_buf h remaining m))"
    using Suc.prems by (rule mux_ok_take_from_buf)
  ultimately show ?case
    using Suc by (auto simp: Let_def mux_ok_flush_update split: list.splits prod.splits)
qed simp

lemma mux_ok_poll_read: "mux_ok m \<Longrightarrow> mux_ok (snd (poll_read h remaining m))"
  unfolding poll_read_def by (rule mux_ok_poll_read_loop)

lemma poll_write_eq:
  assumes "s = m_objs m ! h" "f = s_flow s" "n = min (min (length buf) MAX_PAYLOAD) (f_available f)"
    "m1 = upd_flow h (\<lambda>_. f\<lparr>f_queued := f_queued f + 1, f_available := f_available f - n\<rparr>) m"
  shows "poll_write h buf m =
    (if s_local_closed s then (Ready (Inl (Bail ''native mux stream closed'')), m)
     else if buf = [] then (Ready (Inr 0), m)
     else if f_closed f then (Ready (Inl (Bail ''native mux stream closed by peer'')), m)
     else if f_available f = 0 \<or> f_queued f \<ge> f_limit f
     then (Pending, upd_flow h (\<lambda>_. f\<lparr>f_waker := True\<rparr>) m)
     else if m_alive m \<and> length (m_commands m) < command_channel_limit (m_cfg m)
     then (Ready (Inr n), m1\<lparr>m_commands := m_commands m @ [Data (s_id s) (s_priority s) (take n buf)]\<rparr>)
     else (Ready (Inl (Bail ''native mux stopped'')), upd_flow h flow_release_send_slot m1))"
  unfolding assms by (auto simp: poll_write_def Let_def reserve_send_slot_def try_send_def)

lemma mux_ok_commands:
  "mux_ok m \<Longrightarrow> length cs \<le> command_channel_limit (m_cfg m) \<Longrightarrow> (\<forall>c \<in> set cs. command_ok c) \<Longrightarrow>
     mux_ok (m\<lparr>m_commands := cs\<rparr>)"
  by (simp add: mux_ok_def)

lemma mux_ok_poll_write:
  assumes "mux_ok m" "h < length (m_objs m)"
  shows "mux_ok (snd (poll_write h buf m))"
proof -
  define s where "s = m_objs m ! h"
  define f where "f = s_flow s"
  define n where "n = min (min (length buf) MAX_PAYLOAD) (f_available f)"
  define m1 where "m1 = upd_flow h (\<lambda>_. f\<lparr>f_queued := f_queued f + 1, f_available := f_available f - n\<rparr>) m"
  have f: "f_queued f \<le> f_limit f"
    using assms nth_mem [of h "m_objs m"] unfolding f_def s_def mux_ok_def obj_ok_def by blast
  have upd: "mux_ok (upd_flow h (\<lambda>_. g) m)" if "f_limit g = f_limit f" "f_queued g \<le> f_limit f" for g
    unfolding upd_flow_def
    using assms(1) that by (intro mux_ok_upd_obj) (auto simp: obj_ok_def f_def s_def)
  have m1: "mux_ok m1" if "f_queued f < f_limit f"
    unfolding m1_def by (rule upd) (use that in auto)
  have "mux_ok (upd_flow h (\<lambda>_. f\<lparr>f_waker := True\<rparr>) m)"
    by (rule upd) (use f in auto)
  moreover have "mux_ok (m1\<lparr>m_commands := m_commands m @ [Data i pr (take n buf)]\<rparr>)"
    if "f_queued f < f_limit f" "length (m_commands m) < command_channel_limit (m_cfg m)" for i pr
    using assms(1) that by (intro mux_ok_commands m1) (auto simp: m1_def mux_ok_def n_def)
  moreover have "mux_ok (upd_flow h flow_release_send_slot m1)" if "f_queued f < f_limit f"
    using m1 [OF that] by auto
  ultimately show ?thesis
    using assms(1) by (subst poll_write_eq [OF s_def f_def n_def m1_def]) simp
qed

lemma mux_ok_close_local:
  "mux_ok m \<Longrightarrow> mux_ok (upd_obj h (\<lambda>s. s\<lparr>s_local_closed := True\<rparr>) m)"
  "mux_ok m \<Longrightarrow> mux_ok (upd_obj h (\<lambda>s. s\<lparr>s_rx_open := False\<rparr>) m)"
  by (rule mux_ok_upd_obj; simp add: obj_ok_def)+

lemma mux_ok_drop_stream: "mux_ok m \<Longrightarrow> mux_ok (drop_stream h m)"
  by (auto simp: drop_stream_def Let_def intro!: mux_ok_close_local mux_ok_send)

lemma mux_ok_poll_shutdown: "mux_ok m \<Longrightarrow> mux_ok (snd (poll_shutdown h m))"
  by (auto simp: poll_shutdown_def intro!: mux_ok_close_local mux_ok_send)

lemma mux_ok_drop_session:
  assumes "mux_ok m"
  shows "mux_ok (drop_session m)"
proof -
  have "mux_ok n \<Longrightarrow> mux_ok (fold (\<lambda>x m. case x of Inr h \<Rightarrow> drop_stream h m | Inl _ \<Rightarrow> m) xs n)" for xs n
    by (induction xs arbitrary: n) (auto simp: mux_ok_drop_stream split: sum.splits)
  then have "mux_ok (fold (\<lambda>x m. case x of Inr h \<Rightarrow> drop_stream h m | Inl _ \<Rightarrow> m) (m_accept m) (end_task m))"
    using mux_ok_end_task [OF assms] by blast
  then show ?thesis
    by (simp add: drop_session_def mux_ok_def)
qed

lemma mux_ok_poll_next: "mux_ok m \<Longrightarrow> mux_ok (snd (poll_next m))"
  by (auto simp: poll_next_def mux_ok_def split: list.splits)

lemma mux_ok_select:
  assumes "mux_ok m" "event_enabled ev m"
  shows "mux_ok (select_event now ev m)"
proof -
  have "mux_ok ((take_event ev m)\<lparr>m_select := False\<rparr>)"
    using assms(1) by (cases "m_commands m") (auto simp: take_event_def mux_ok_def split: Event.splits)
  moreover have "command_ok c" if "ev = CommandEvent c" for c
    using assms that by (auto simp: event_enabled_def mux_ok_def split: list.splits)
  ultimately show ?thesis
    unfolding select_event_def by (rule mux_ok_session_event)
qed

lemma mux_ok_exec:
  assumes "mux_ok m" "mux_exec l m = Some m'"
  shows "mux_ok m'"
  using assms
  by (cases l) (auto simp: mux_ok_top mux_ok_select mux_ok_resume mux_ok_flush mux_ok_poll_write
      mux_ok_poll_read mux_ok_poll_shutdown mux_ok_drop_stream open_stream_def
      ping_rtt_def goaway_def mux_ok_send mux_ok_poll_next mux_ok_drop_session holds_def
      split: if_splits)

lemma mux_ok_start: "mux_ok (start_session first cfg)"
proof -
  have "frames_ok (pending_new k)" for k by (simp add: frames_ok_def pending_new_def)
  then show ?thesis
    by (simp add: start_session_def mux_ok_def sanitize_config_def Let_def table_ok_def pending_new_wf)
qed

lemma mux_ok_reach: "mux_reach first cfg m \<Longrightarrow> mux_ok m"
  by (induction rule: mux_reach.induct) (auto intro: mux_ok_start mux_ok_exec)

subsection \<open>At most one frame waits\<close>

lemma enqueue_len:
  "q_len (m_pending (snd (enqueue_control k sid pl m))) \<le> Suc (q_len (m_pending m))"
  "q_len (m_pending (snd (enqueue_data pr sid pl m))) \<le> Suc (q_len (m_pending m))"
  by (auto simp: enqueue_control_def enqueue_data_def push_control_eq push_data_eq
      split: StreamPriority.splits)

lemma enqueue_ctl [simp]:
  "m_wait (snd (enqueue_control k sid pl m)) = m_wait m"
  "m_select (snd (enqueue_control k sid pl m)) = m_select m"
  "m_wait (snd (enqueue_data pr sid pl m)) = m_wait m"
  "m_select (snd (enqueue_data pr sid pl m)) = m_select m"
  by (simp_all add: enqueue_control_def enqueue_data_def split: prod.splits)

lemma slot_ctl [simp]:
  "m_pending (release_send_slot sid m) = m_pending m" "m_wait (release_send_slot sid m) = m_wait m"
  "m_select (release_send_slot sid m) = m_select m" "m_pending (mark_stream_closed sid m) = m_pending m"
  "m_wait (mark_stream_closed sid m) = m_wait m" "m_select (mark_stream_closed sid m) = m_select m"
  "m_pending (reply r m) = m_pending m" "m_wait (reply r m) = m_wait m"
  "m_select (reply r m) = m_select m"
  by (simp_all add: release_send_slot_def mark_stream_closed_def reply_def split: option.splits)

text \<open>The state after handling an event at the \<^verbatim>\<open>select!\<close>: one frame more at most, or suspended.\<close>

definition one_more :: "Session \<Rightarrow> Session \<Rightarrow> bool" where
  "one_more m n \<longleftrightarrow> q_len (m_pending n) \<le> Suc (q_len (m_pending m)) \<and> m_wait n = m_wait m \<and>
     m_select n = m_select m"

lemma one_more_enqueue:
  "m_pending n = m_pending m \<Longrightarrow> m_wait n = m_wait m \<Longrightarrow> m_select n = m_select m \<Longrightarrow>
     one_more m (snd (enqueue_control k sid pl n)) \<and> one_more m (snd (enqueue_data pr sid pl n))"
  using enqueue_len(1) [of k sid pl n] enqueue_len(2) [of pr sid pl n] by (simp add: one_more_def)

lemma one_more_then:
  "one_more m (snd (a n)) \<Longrightarrow> (\<And>k. one_more m k \<Longrightarrow> one_more m (snd (b k))) \<Longrightarrow>
     one_more m (snd (io_then a b n))"
  by (auto simp: io_then_def io_bind_def split: prod.splits sum.splits)

lemma one_more_same [simp]:
  "one_more m m" "one_more m (reply r n) = one_more m n" "one_more m (release_send_slot sid n) = one_more m n"
  "one_more m (n\<lparr>m_streams := t\<rparr>) = one_more m n" "one_more m (n\<lparr>m_pings := ps\<rparr>) = one_more m n"
  "one_more m (n\<lparr>m_draining := d\<rparr>) = one_more m n" "one_more m (upd_flow h g n) = one_more m n"
  "one_more m (mark_stream_closed sid n) = one_more m n" "one_more m (start_drain now n) = one_more m n"
  "one_more m (apply_effect now e n) = one_more m n" "one_more m (upd_obj h f n) = one_more m n"
  by (simp_all add: one_more_def start_drain_def apply_effect_def split: Effect.splits)

lemma one_more_handle_open: "one_more m (snd (handle_open pr rep m))"
proof -
  have new: "one_more m (snd (io_then (enqueue_control FRAME_OPEN sid pl)
      (\<lambda>m. (Inr Continue, reply r m)) (k\<lparr>m_streams := t\<rparr>)))"
    if "new_stream sid pr (m\<lparr>m_next_id := i\<rparr>) = (h, k)" for sid pl r i h k t
  proof (rule one_more_then)
    from that have "m_pending k = m_pending m \<and> m_wait k = m_wait m \<and> m_select k = m_select m"
      by (auto simp: new_stream_def Let_def)
    then show "one_more m (snd (enqueue_control FRAME_OPEN sid pl (k\<lparr>m_streams := t\<rparr>)))"
      using one_more_enqueue [of "k\<lparr>m_streams := t\<rparr>" m] by simp
  qed simp
  have "one_more m (m\<lparr>m_next_id := i\<rparr>)" for i by (simp add: one_more_def)
  with new show ?thesis
    by (auto simp: handle_open_def allocate_stream_id_def split: prod.splits)
qed

lemma one_more_handle_data: "one_more m (snd (handle_data sid pr pl m))"
proof -
  have "one_more m (snd (enqueue_data pr sid pl m))" using one_more_enqueue by blast
  then show ?thesis by (auto simp: handle_data_def split: prod.splits sum.splits)
qed

lemma one_more_handle_command: "one_more m (snd (handle_command now c m))"
proof -
  have enq: "one_more m (snd (io_then (enqueue_control k sid pl) (io_return e) n))"
    if "m_pending n = m_pending m" "m_wait n = m_wait m" "m_select n = m_select m" for k sid pl e n
    unfolding io_then_return_snd using one_more_enqueue [OF that] by blast
  show ?thesis
    by (cases c) (auto simp: handle_command_def one_more_handle_open one_more_handle_data
        intro!: enq split: option.splits)
qed

text \<open>
  What a frame handler does to the waiting frames: one more at most when it is done, none when it
  fails or is suspended.
\<close>

definition frame_effect :: "Session \<Rightarrow> Effect result Poll \<times> Session \<Rightarrow> bool" where
  "frame_effect m r \<longleftrightarrow>
     (case r of
        (Ready (Inr _), n) \<Rightarrow> one_more m n
      | (_, n) \<Rightarrow> m_pending n = m_pending m \<and> m_select n = m_select m)"

lemma enqueue_control_Inl: "enqueue_control k sid pl m = (Inl e, n) \<Longrightarrow> n = m"
  by (auto simp: enqueue_control_def push_control_eq split: if_splits)

lemma frame_effect_answer: "frame_effect m (answer_control k sid pl m)"
proof -
  obtain r n where r: "enqueue_control k sid pl m = (r, n)" by (cases "enqueue_control k sid pl m")
  with one_more_enqueue [of m m k sid pl] have "one_more m n" by simp
  with r show ?thesis
    by (cases r) (auto simp: answer_control_def frame_effect_def io_then_def io_bind_def io_return_def
        dest: enqueue_control_Inl)
qed

lemma frame_effect_sends:
  assumes "m_pending n = m_pending m" "m_select n = m_select m" "m_wait n = m_wait m"
  shows "frame_effect m (send_accept h n)" "frame_effect m (send_data h pl n)"
  using assms by (auto simp: frame_effect_def one_more_def send_accept_def send_data_def)

lemma frame_effect_open: "frame_effect m (handle_frame_open sid pl m)"
proof -
  have "frame_effect m (send_accept h (n\<lparr>m_streams := t\<rparr>))" if "new_stream sid pr m = (h, n)" for pr h n t
    using that by (intro frame_effect_sends) (auto simp: new_stream_def Let_def)
  moreover have "frame_effect m (Ready (Inl e), m)" for e by (simp add: frame_effect_def)
  ultimately show ?thesis
    by (simp add: handle_frame_open_def frame_effect_answer split: sum.splits prod.splits)
qed

lemma frame_effect_handle_frame: "frame_effect m (handle_frame now kind sid pl m)"
proof -
  have "frame_effect m (handle_frame_data sid pl m)"
    by (auto simp: handle_frame_data_def frame_effect_answer intro!: frame_effect_sends split: option.splits)
  moreover have "frame_effect m (Ready (Inl e), m)" for e by (simp add: frame_effect_def)
  moreover have "frame_effect m (Ready (Inr e), n) = one_more m n" for e n by (simp add: frame_effect_def)
  ultimately show ?thesis
    by (auto simp: handle_frame_def Let_def frame_effect_answer frame_effect_open split: option.splits)
qed

lemma queue_short_stop [simp]: "queue_short (stop_session m)"
  by (simp add: queue_short_def stop_session_def end_task_def pending_new_def)

lemma queue_short_send_error:
  "q_len (m_pending m) = 0 \<Longrightarrow> queue_short (send_accept_error e m)"
  by (simp add: send_accept_error_def) (simp add: queue_short_def)

lemma queue_short_one_more:
  "one_more m n \<Longrightarrow> q_len (m_pending m) = 0 \<Longrightarrow> m_wait m = None \<Longrightarrow> \<not> m_select m \<Longrightarrow> queue_short n"
  by (simp add: one_more_def queue_short_def)

lemma queue_short_finish_frame:
  assumes "frame_effect m r" "q_len (m_pending m) = 0" "m_wait m = None" "\<not> m_select m"
  shows "queue_short (finish_frame now r)"
proof -
  obtain p n where r: "r = (p, n)" by (cases r)
  show ?thesis
  proof (cases "\<exists>e. p = Ready (Inr e)")
    case True
    then obtain e where e: "p = Ready (Inr e)" ..
    with assms(1) r have "one_more m (apply_effect now e n)" by (simp add: frame_effect_def)
    with assms e r show ?thesis by (simp add: finish_frame_def queue_short_one_more)
  next
    case False
    with assms(1) r have "m_pending n = m_pending m" "m_select n = m_select m"
      by (auto simp: frame_effect_def split: Poll.splits sum.splits)
    with assms r False show ?thesis
      by (auto simp: finish_frame_def queue_short_send_error queue_short_def [of n]
          split: Poll.splits sum.splits)
  qed
qed

lemma queue_short_session_event:
  assumes "q_len (m_pending m) = 0" "m_wait m = None" "\<not> m_select m"
  shows "queue_short (session_event now ev m)"
proof -
  have "one_more m (snd (enqueue_control FRAME_GOAWAY 0 [] m))"
    using one_more_enqueue by blast
  then have goaway: "queue_short (start_drain now (snd (enqueue_control FRAME_GOAWAY 0 [] m)))"
    "queue_short ((snd (enqueue_control FRAME_GOAWAY 0 [] m))\<lparr>m_draining := Some now\<rparr>)"
    using assms by (auto intro!: queue_short_one_more)
  have "queue_short (apply_effect now e n)" if "handle_command now c m = (Inr e, n)" for c e n
    using that assms one_more_handle_command [of m now c] by (intro queue_short_one_more [of m]) auto
  with goaway show ?thesis
    using assms by (cases ev) (auto simp: session_event_def queue_short_send_error
        intro!: queue_short_finish_frame frame_effect_handle_frame split: prod.splits sum.splits)
qed

lemma queue_short_resume:
  assumes "queue_short m" "m_wait m \<noteq> None" "\<not> m_select m"
  shows "queue_short (session_resume now m)"
proof -
  let ?m = "m\<lparr>m_wait := None\<rparr>"
  have z: "q_len (m_pending ?m) = 0" "m_wait ?m = None" "\<not> m_select ?m"
    using assms by (auto simp: queue_short_def)
  have "frame_effect ?m (send_accept h ?m)" "frame_effect ?m (send_data h pl ?m)" for h pl
    by (rule frame_effect_sends; simp)+
  then show ?thesis
    using z assms(2) by (auto simp: session_resume_def Let_def intro!: queue_short_finish_frame [OF _ z]
        queue_short_send_error split: Wait.splits)
qed

text \<open>Writing out never fails on what the session queues, and leaves nothing waiting.\<close>

lemma pop_next_SomeD:
  "pop_next q = (Some f, q') \<Longrightarrow> q_wf q \<Longrightarrow> q_len q = Suc (q_len q') \<and>
     f \<in> set (q_control q @ q_interactive q @ q_bulk q)"
  by (auto simp: pop_next_cases q_wf_def split: list.splits if_splits)

lemma flush_loop_ok:
  "mux_ok m \<Longrightarrow> q_len (m_pending m) < n \<Longrightarrow>
     \<exists>k. flush_loop n m = (Inr (), k) \<and> q_len (m_pending k) = 0 \<and> m_wait k = m_wait m \<and>
       m_select k = m_select m"
proof (induction n arbitrary: m)
  case (Suc n)
  obtain x q where q: "pop_next (m_pending m) = (x, q)" by (cases "pop_next (m_pending m)")
  have wf: "q_wf (m_pending m)" "frames_ok (m_pending m)"
    using Suc.prems by (simp_all add: mux_ok_def)
  show ?case
  proof (cases x)
    case None
    with q wf pop_next_None [of "m_pending m"] have "q_len (m_pending m) = 0" by simp
    moreover from q None have "q_len q = q_len (m_pending m)"
      by (auto simp: pop_next_cases split: list.splits if_splits)
    ultimately show ?thesis using q None by simp
  next
    case (Some f)
    with q wf have f: "q_len (m_pending m) = Suc (q_len q)" "length (pf_payload f) \<le> MAX_PAYLOAD"
      using pop_next_SomeD [of "m_pending m" f q] by (auto simp: frames_ok_def)
    let ?c = "snd (write_frame (pf_kind f) (pf_stream_id f) (pf_payload f) (m_conn m))"
    let ?m = "m\<lparr>m_pending := q, m_conn := ?c\<rparr>"
    let ?k = "case pf_queued_stream f of None \<Rightarrow> ?m | Some sid \<Rightarrow> release_send_slot sid ?m"
    have "mux_ok ?m" using mux_ok_popped(2) [OF Suc.prems(1) q] .
    then have "mux_ok ?k" by (auto split: option.splits)
    moreover have k: "m_pending ?k = q" "m_wait ?k = m_wait m" "m_select ?k = m_select m"
      by (simp_all split: option.splits)
    ultimately obtain j where "flush_loop n ?k = (Inr (), j) \<and> q_len (m_pending j) = 0 \<and>
        m_wait j = m_wait m \<and> m_select j = m_select m"
      using Suc.IH [of ?k] Suc.prems(2) f(1) by auto
    moreover have "flush_loop (Suc n) m = flush_loop n ?k"
      using q Some f(2) by (simp add: write_frame_ok Let_def split: option.splits)
    ultimately show ?thesis by auto
  qed
qed simp

lemma flush_pending_ok:
  "mux_ok m \<Longrightarrow> \<exists>k. flush_pending m = (Inr (), k) \<and> q_len (m_pending k) = 0 \<and>
     m_wait k = m_wait m \<and> m_select k = m_select m"
  unfolding flush_pending_def by (rule flush_loop_ok) simp_all

lemma queue_short_top:
  assumes "mux_ok m" "m_wait m = None"
  shows "queue_short (session_top now m) \<and> m_wait (session_top now m) = None"
proof -
  from flush_pending_ok [OF assms(1)] obtain k where "flush_pending m = (Inr (), k)"
    "q_len (m_pending k) = 0" "m_wait k = None"
    using assms(2) by auto
  moreover have "m_wait (stop_session j) = None" for j
    by (simp add: stop_session_def end_task_def)
  ultimately show ?thesis
    by (simp add: session_top_def) (simp add: queue_short_def)
qed

definition ctl_same :: "Session \<Rightarrow> Session \<Rightarrow> bool" where
  "ctl_same m n \<longleftrightarrow> m_pending n = m_pending m \<and> m_wait n = m_wait m \<and> m_select n = m_select m"

lemma ctl_same_simps [simp]:
  "ctl_same m m" "ctl_same m (upd_obj h g n) = ctl_same m n" "ctl_same m (upd_flow h f n) = ctl_same m n"
  "ctl_same m (snd (try_send c n)) = ctl_same m n" "ctl_same m (send_credit sid a n) = ctl_same m n"
  "ctl_same m (n\<lparr>m_commands := cs\<rparr>) = ctl_same m n" "ctl_same m (n\<lparr>m_accept := xs\<rparr>) = ctl_same m n"
  by (simp_all add: ctl_same_def)

lemma ctl_same_flush_update [simp]: "ctl_same m (flush_pending_window_update h n) = ctl_same m n"
  by (simp add: flush_pending_window_update_def Let_def)

lemma ctl_same_take [simp]: "ctl_same m (snd (take_from_buf h r n)) = ctl_same m n"
  by (simp add: take_from_buf_def Let_def)

lemma ctl_same_read_loop: "ctl_same m n \<Longrightarrow> ctl_same m (snd (poll_read_loop k h r n))"
proof (induction k arbitrary: n)
  case (Suc k)
  then show ?case
    using ctl_same_take [of m h r n]
    by (auto simp: Let_def split: prod.splits list.splits simp del: ctl_same_take)
qed simp

lemma ctl_same_write: "ctl_same m (snd (poll_write h buf m))"
  by (subst poll_write_eq [OF refl refl refl refl]) simp

lemma ctl_same_drop: "ctl_same m (drop_stream h m)"
  by (simp add: drop_stream_def Let_def)

lemma ctl_same_shutdown: "ctl_same m (snd (poll_shutdown h m))"
  by (simp add: poll_shutdown_def)

lemma ctl_same_send_command: "ctl_same m (snd (send_command c m))"
  by (simp add: send_command_def)

lemma ctl_same_next: "ctl_same m (snd (poll_next m))"
  by (simp add: poll_next_def split: list.splits)

lemma ctl_same_trans: "ctl_same a b \<Longrightarrow> ctl_same b c \<Longrightarrow> ctl_same a c"
  by (simp add: ctl_same_def)

lemma ctl_same_drop_session: "ctl_same (end_task m) (drop_session m)"
proof -
  have "ctl_same n (fold (\<lambda>x m. case x of Inr h \<Rightarrow> drop_stream h m | Inl _ \<Rightarrow> m) xs n)" for xs n
  proof (induction xs arbitrary: n)
    case (Cons x xs)
    have "ctl_same n (case x of Inr h \<Rightarrow> drop_stream h n | Inl _ \<Rightarrow> n)"
      by (simp add: ctl_same_drop split: sum.splits)
    with Cons show ?case by (auto intro: ctl_same_trans)
  qed simp
  then show ?thesis by (simp add: drop_session_def ctl_same_def)
qed

definition mux_inv :: "Session \<Rightarrow> bool" where
  "mux_inv m \<longleftrightarrow> mux_ok m \<and> queue_short m \<and> (m_wait m \<noteq> None \<longrightarrow> \<not> m_select m)"

lemma mux_inv_same:
  "mux_inv m \<Longrightarrow> mux_ok n \<Longrightarrow> ctl_same m n \<Longrightarrow> mux_inv n"
  by (simp add: mux_inv_def queue_short_def ctl_same_def)

lemma stop_select [simp]: "m_select (stop_session m) = m_select m"
proof -
  have "m_select (fold (\<lambda>(_, h). upd_flow h flow_close) t j) = m_select j" for t j
    by (induction t arbitrary: j) (simp_all add: case_prod_unfold)
  then show ?thesis by (simp add: stop_session_def close_flows_def end_task_def)
qed

lemma send_error_select [simp]: "m_select (send_accept_error e m) = m_select m"
  by (simp add: send_accept_error_def)

lemma finish_frame_select [simp]: "m_select (finish_frame now r) = m_select (snd r)"
  by (simp add: finish_frame_def apply_effect_def start_drain_def
      split: prod.split Poll.split sum.split Effect.split)

lemma send_select [simp]:
  "m_select (snd (send_accept h m)) = m_select m" "m_select (snd (send_data h pl m)) = m_select m"
  by (simp_all add: send_accept_def send_data_def)

lemma resume_select_off:
  assumes "\<not> m_select m" shows "\<not> m_select (session_resume now m)"
proof -
  let ?m = "m\<lparr>m_wait := None\<rparr>"
  have "\<not> m_select (finish_frame now (send_accept h ?m))" "\<not> m_select (finish_frame now (send_data h pl ?m))"
    "\<not> m_select (send_accept_error e ?m)" for h pl e
    using assms by simp_all
  then show ?thesis
    using assms by (auto simp: session_resume_def Let_def split: option.splits Wait.splits)
qed

lemma stop_wait [simp]: "m_wait (stop_session m) = None"
  by (simp add: stop_session_def end_task_def)

lemma frame_effect_select: "frame_effect m r \<Longrightarrow> m_select (snd r) = m_select m"
  by (auto simp: frame_effect_def one_more_def split: prod.splits Poll.splits sum.splits)

lemma event_select_off:
  assumes "\<not> m_select m" "m_wait m = None"
  shows "m_wait (session_event now ev m) \<noteq> None \<Longrightarrow> \<not> m_select (session_event now ev m)"
proof (cases ev)
  case (FrameEvent kind sid pl)
  then show ?thesis
    using assms frame_effect_select [OF frame_effect_handle_frame, of now kind sid pl m]
    by (simp add: session_event_def)
next
  case (CommandEvent c)
  assume w: "m_wait (session_event now ev m) \<noteq> None"
  have "m_wait n = None" if "handle_command now c m = (r, n)" for r n
    using that assms one_more_handle_command [of m now c] by (simp add: one_more_def)
  with w CommandEvent show ?thesis
    by (auto simp: session_event_def apply_effect_def start_drain_def
        split: prod.splits sum.splits Effect.splits)
next
  case (FrameError e)
  then show ?thesis using assms by (simp add: session_event_def)
qed (use assms in \<open>auto simp: session_event_def start_drain_def\<close>)

lemma mux_inv_exec:
  assumes "mux_inv m" "mux_exec l m = Some m'"
  shows "mux_inv m'"
proof -
  have ok: "mux_ok m" "mux_ok m'" and sh: "queue_short m"
    using assms mux_ok_exec by (auto simp: mux_inv_def)
  show ?thesis
  proof (cases l)
    case (Top now)
    then show ?thesis
      using assms ok queue_short_top [OF ok(1)] by (auto simp: mux_inv_def split: if_splits)
  next
    case (Select now ev)
    let ?m = "(take_event ev m)\<lparr>m_select := False\<rparr>"
    from Select assms have g: "m_wait m = None" "m_select m" "m' = session_event now ev ?m"
      by (auto simp: select_event_def split: if_splits)
    have "m_pending ?m = m_pending m" "m_wait ?m = None" "\<not> m_select ?m"
      using g by (simp_all add: take_event_def split: Event.splits)
    then show ?thesis
      using g sh ok queue_short_session_event [of ?m now ev] event_select_off [of ?m now ev]
      by (auto simp: mux_inv_def queue_short_def [of m])
  next
    case (Resume now)
    then show ?thesis
      using assms ok queue_short_resume [OF sh] resume_select_off
      by (auto simp: mux_inv_def split: if_splits)
  next
    case (TransportFails k)
    then show ?thesis using assms ok by (auto simp: mux_inv_def split: if_splits)
  next
    case DropSession
    have "mux_inv (end_task m)"
      using ok mux_ok_end_task by (auto simp: mux_inv_def queue_short_def end_task_def pending_new_def)
    with DropSession show ?thesis
      using assms(2) ok(2) mux_inv_same [OF _ _ ctl_same_drop_session, of m] by (auto split: if_splits)
  next
    case (Read h n)
    then show ?thesis
      using assms(2) ctl_same_read_loop [of m m] mux_inv_same [OF assms(1) ok(2)]
      by (simp add: poll_read_def del: poll_read_loop.simps split: if_splits) blast
  qed (use assms ok mux_inv_same [OF assms(1) ok(2)] in
      \<open>auto simp: open_stream_def ping_rtt_def goaway_def ctl_same_write ctl_same_drop
        ctl_same_shutdown ctl_same_send_command ctl_same_next split: if_splits\<close>)
qed

lemma mux_inv_reach: "mux_reach first cfg m \<Longrightarrow> mux_inv m"
proof (induction rule: mux_reach.induct)
  case reach_start
  have "q_len (m_pending (start_session first cfg)) = 0" "m_wait (start_session first cfg) = None"
    by (simp_all add: start_session_def Let_def pending_new_def)
  then show ?case by (simp add: mux_inv_def mux_ok_start queue_short_def)
qed (rule mux_inv_exec)

end
