(* ===== verification/Esp_Native_Mux_Flow.thy ===== *)
theory Esp_Native_Mux_Flow
  imports Esp_Native_Mux_Inv
begin

text \<open>
  What a step of a native multiplexer session does to one stream: the window of its sender, the
  bytes that wait to be read, its identifier; and to the session: the identifiers handed out and
  the draining state. Every operation is first shown to leave alone what it does not concern
  (\<open>quiet\<close>); the few that do change a stream are then described exactly.
\<close>

section \<open>What an operation leaves alone\<close>

definition unread :: "NativeStream \<Rightarrow> bytes" where
  "unread s = drop (s_read_offset s) (s_read_buf s) @ concat (s_chan s)"

definition view :: "NativeStream \<Rightarrow> nat \<times> bytes" where
  "view s = (f_available (s_flow s), unread s)"

definition opened :: "Reply list \<Rightarrow> nat list" where
  "opened rs = concat (map (\<lambda>r. case r of OpenReply _ (Inr h) \<Rightarrow> [h] | _ \<Rightarrow> []) rs)"

lemma opened_simps [simp]:
  "opened [] = []" "opened (rs @ qs) = opened rs @ opened qs"
  "opened [OpenReply r (Inr h)] = [h]" "opened [OpenReply r (Inl e)] = []" "opened [PingReply r d] = []"
  by (simp_all add: opened_def)

text \<open>
  \<open>v\<close> says for which streams the view is kept, \<open>i\<close> whether the identifiers handed out are.
\<close>

definition quiet :: "(nat \<Rightarrow> bool) \<Rightarrow> bool \<Rightarrow> Session \<Rightarrow> Session \<Rightarrow> bool" where
  "quiet v i m n \<longleftrightarrow> m_cfg n = m_cfg m \<and> length (m_objs m) \<le> length (m_objs n) \<and>
     (\<forall>k < length (m_objs m). s_id (m_objs n ! k) = s_id (m_objs m ! k) \<and>
        (v k \<longrightarrow> view (m_objs n ! k) = view (m_objs m ! k))) \<and>
     (i \<longrightarrow> m_next_id n = m_next_id m \<and> opened (m_replies n) = opened (m_replies m)) \<and>
     (m_draining m \<noteq> None \<longrightarrow> m_draining n = m_draining m \<and> set (m_streams n) \<subseteq> set (m_streams m))"

abbreviation still :: "Session \<Rightarrow> Session \<Rightarrow> bool" where
  "still \<equiv> quiet (\<lambda>_. True) True"

lemma quiet_refl [simp, intro]: "quiet v i m m"
  by (simp add: quiet_def)

lemma quiet_trans: "quiet v i m n \<Longrightarrow> quiet v i n k \<Longrightarrow> quiet v i m k"
  unfolding quiet_def by auto

lemma still_quiet: "still m n \<Longrightarrow> quiet v i m n"
  by (simp add: quiet_def)

lemma quiet_weaken: "quiet v True m n \<Longrightarrow> quiet (\<lambda>_. False) i m n"
  by (simp add: quiet_def)

lemma quiet_upd_obj:
  assumes "\<And>s. s_id (g s) = s_id s" and "v h \<Longrightarrow> view (g (m_objs m ! h)) = view (m_objs m ! h)"
  shows "quiet v i m (upd_obj h g m)"
  using assms by (simp add: quiet_def upd_obj_nth)

lemma still_upd_obj:
  "(\<And>s. s_id (g s) = s_id s) \<Longrightarrow> (\<And>s. view (g s) = view s) \<Longrightarrow> still m (upd_obj h g m)"
  by (rule quiet_upd_obj)

lemma still_upd_flow:
  "(\<And>f. f_available (g f) = f_available f) \<Longrightarrow> still m (upd_flow h g m)"
  unfolding upd_flow_def by (rule still_upd_obj) (simp_all add: view_def unread_def)

lemma quiet_fields [simp]:
  "quiet v i m (n\<lparr>m_pings := ps\<rparr>) = quiet v i m n" "quiet v i m (n\<lparr>m_conn := c\<rparr>) = quiet v i m n"
  "quiet v i m (n\<lparr>m_select := b\<rparr>) = quiet v i m n" "quiet v i m (n\<lparr>m_alive := b\<rparr>) = quiet v i m n"
  "quiet v i m (n\<lparr>m_accept_open := b\<rparr>) = quiet v i m n" "quiet v i m (n\<lparr>m_pending := q\<rparr>) = quiet v i m n"
  "quiet v i m (n\<lparr>m_commands := cs\<rparr>) = quiet v i m n" "quiet v i m (n\<lparr>m_accept := xs\<rparr>) = quiet v i m n"
  "quiet v i m (n\<lparr>m_wait := w\<rparr>) = quiet v i m n"
  by (simp_all add: quiet_def)

lemma quiet_fields_left [simp]:
  "quiet v i (m\<lparr>m_select := b\<rparr>) n = quiet v i m n" "quiet v i (m\<lparr>m_commands := cs\<rparr>) n = quiet v i m n"
  "quiet v i (m\<lparr>m_wait := w\<rparr>) n = quiet v i m n"
  by (simp_all add: quiet_def)

lemma quiet_shrink: "set t \<subseteq> set (m_streams n) \<Longrightarrow> quiet v i m n \<Longrightarrow> quiet v i m (n\<lparr>m_streams := t\<rparr>)"
  by (auto simp: quiet_def)

lemma quiet_drain:
  "quiet v i m n \<Longrightarrow> quiet v i m (start_drain now n)" "quiet v i m n \<Longrightarrow> quiet v i m (apply_effect now e n)"
  by (auto simp: quiet_def start_drain_def apply_effect_def split: option.splits Effect.splits)

lemma quiet_reply:
  "quiet v i m n \<Longrightarrow> i \<longrightarrow> opened [r] = [] \<Longrightarrow> quiet v i m (reply r n)"
  by (auto simp: quiet_def reply_def)

lemma still_flow_ops [simp]:
  "still m (upd_flow h flow_close m)" "still m (upd_flow h flow_release_send_slot m)"
  "still m (release_send_slot sid m)" "still m (mark_stream_closed sid m)"
  by (auto simp: release_send_slot_def mark_stream_closed_def flow_defs
      intro!: still_upd_flow split: option.splits)

lemma still_enqueue [simp]:
  "still m (snd (enqueue_control k sid pl m))" "still m (snd (enqueue_data pr sid pl m))"
  by (simp_all add: enqueue_control_def enqueue_data_def split: prod.splits)

lemma still_try_send [simp]: "still m (snd (try_send c m))" "still m (snd (send_command c m))"
  by (simp_all add: try_send_def send_command_def)

lemma still_end_task [simp]: "still m (end_task m)"
  unfolding end_task_def
  by (simp add: quiet_def)

lemma still_fold:
  "(\<And>x n. still n (f x n)) \<Longrightarrow> still m (fold f xs m)"
  by (induction xs arbitrary: m) (auto intro: quiet_trans)

lemma still_stop [simp]: "still m (stop_session m)"
proof -
  have "still m (close_flows m)"
    unfolding close_flows_def by (rule still_fold) auto
  then show ?thesis
    unfolding stop_session_def using still_end_task quiet_trans by blast
qed

lemma still_send_error [simp]: "still m (send_accept_error e m)"
proof -
  have "still m (stop_session (m\<lparr>m_accept := xs\<rparr>))" for xs
    by (rule quiet_trans [OF _ still_stop]) simp
  then show ?thesis by (simp add: send_accept_error_def)
qed

lemma quiet_finish: "quiet v i m (snd r) \<Longrightarrow> quiet v i m (finish_frame now r)"
  using quiet_trans [OF _ still_quiet [OF still_send_error], of v i m "snd r"]
  by (cases r) (simp add: finish_frame_def quiet_drain split: Poll.split sum.split)

lemma quiet_new_stream:
  assumes "new_stream sid pr m = (h, n)" "m_draining m = None"
  shows "quiet v i m (n\<lparr>m_streams := t\<rparr>)"
  using assms by (auto simp: new_stream_def Let_def quiet_def nth_append)

lemma quiet_then:
  "quiet v i m (snd (a n)) \<Longrightarrow> (\<And>k. quiet v i m k \<Longrightarrow> quiet v i m (snd (b k))) \<Longrightarrow>
     quiet v i m (snd (io_then a b n))"
  by (auto simp: io_then_def io_bind_def split: prod.splits sum.splits)

lemma quiet_enqueue: "quiet v i m n \<Longrightarrow> quiet v i m (snd (enqueue_control k sid pl n))"
  using quiet_trans still_quiet [OF still_enqueue(1)] by blast

lemma quiet_handle_open: "quiet v False m (snd (handle_open pr rep m))"
proof -
  have "quiet v False m (snd (io_then (enqueue_control FRAME_OPEN sid pl)
      (\<lambda>m. (Inr Continue, reply r m)) (k\<lparr>m_streams := t\<rparr>)))"
    if "new_stream sid pr (m\<lparr>m_next_id := j\<rparr>) = (h, k)" "m_draining m = None" for sid pl r j h k t
  proof -
    have "quiet v False (m\<lparr>m_next_id := j\<rparr>) (k\<lparr>m_streams := t\<rparr>)"
      using that by (intro quiet_new_stream) auto
    then have "quiet v False m (k\<lparr>m_streams := t\<rparr>)" by (simp add: quiet_def)
    then show ?thesis by (intro quiet_then quiet_enqueue) (auto intro: quiet_reply)
  qed
  moreover have "quiet v False m (reply r m)" "quiet v False m (reply r (m\<lparr>m_next_id := j\<rparr>))" for r j
    by (rule quiet_reply; simp add: quiet_def)+
  ultimately show ?thesis
    by (auto simp: handle_open_def allocate_stream_id_def split: prod.splits)
qed

lemma still_handle_data: "still m (snd (handle_data sid pr pl m))"
proof -
  obtain r n where r: "enqueue_data pr sid pl m = (r, n)" by (cases "enqueue_data pr sid pl m")
  with still_enqueue(2) [of m pr sid pl] have "still m n" by simp
  moreover from this have "still m (release_send_slot sid n)" by (rule quiet_trans) simp
  ultimately show ?thesis
    using r by (cases r) (simp_all add: handle_data_def)
qed

lemma quiet_handle_command: "quiet v (case c of Open _ _ \<Rightarrow> False | _ \<Rightarrow> True) m (snd (handle_command now c m))"
proof -
  have "quiet v i m (m\<lparr>m_streams := hm_remove sid (m_streams m)\<rparr>)" for i sid
    by (intro quiet_shrink hm_set_remove quiet_refl)
  then show ?thesis
    by (cases c) (auto simp: handle_command_def io_then_return_snd quiet_handle_open
        intro!: still_quiet [OF still_handle_data] quiet_enqueue split: option.splits)
qed

lemma still_answer: "still m (snd (answer_control k sid pl m))"
proof -
  have "snd (answer_control k sid pl m) = snd (enqueue_control k sid pl m)"
    by (auto simp: answer_control_def io_then_def io_bind_def io_return_def split: prod.splits sum.splits)
  then show ?thesis by simp
qed

lemma still_send_accept [simp]: "still m (snd (send_accept h m))"
  by (simp add: send_accept_def)

lemma quiet_handle_frame_open: "still m (snd (handle_frame_open sid pl m))"
proof -
  have "still m (snd (send_accept h (n\<lparr>m_streams := t\<rparr>)))"
    if "new_stream sid pr m = (h, n)" "m_draining m = None" for pr h n t
    using quiet_trans [OF quiet_new_stream [OF that] still_send_accept] .
  then show ?thesis
    by (auto simp: handle_frame_open_def still_answer split: sum.splits prod.splits)
qed

text \<open>Data that arrives goes to the end of what waits to be read on its stream.\<close>

definition has_room :: "nat \<Rightarrow> Session \<Rightarrow> bool" where
  "has_room h m \<longleftrightarrow> s_rx_open (m_objs m ! h) \<and>
     length (s_chan (m_objs m ! h)) < stream_buffer_frames (m_cfg m)"

lemma send_data_effect:
  "quiet (\<lambda>k. k \<noteq> h) True m (snd (send_data h pl m)) \<and>
     (h < length (m_objs m) \<longrightarrow>
       view (m_objs (snd (send_data h pl m)) ! h) =
         (f_available (s_flow (m_objs m ! h)), unread (m_objs m ! h) @ (if has_room h m then pl else [])))"
  by (auto simp: send_data_def has_room_def view_def unread_def upd_obj_nth intro!: quiet_upd_obj)

lemma send_data_other: "h \<noteq> k \<Longrightarrow> quiet (\<lambda>j. j = k) True m (snd (send_data h pl m))"
  using send_data_effect [of h m pl] by (auto simp: quiet_def)

text \<open>Credit that arrives is added to the window, up to the largest \<^verbatim>\<open>usize\<close>.\<close>

lemma add_window_effect:
  "quiet (\<lambda>k. k \<noteq> h) True m (upd_flow h (add_window a) m) \<and>
     (h < length (m_objs m) \<longrightarrow>
       view (m_objs (upd_flow h (add_window a) m) ! h) =
         (sat_add (f_available (s_flow (m_objs m ! h))) a, unread (m_objs m ! h)))"
  by (auto simp: upd_flow_def upd_obj_nth view_def unread_def flow_defs intro!: quiet_upd_obj)

section \<open>One stream, step by step\<close>

text \<open>
  What a step does for the stream \<open>k\<close>: bytes its holder was told were accepted, credit the peer gave,
  bytes that arrived for it, bytes handed to the reader.
\<close>

fun wrote :: "nat \<Rightarrow> Label \<Rightarrow> Session \<Rightarrow> nat" where
  "wrote k (Write h buf) m =
     (if h = k then (case fst (poll_write h buf m) of Ready (Inr n) \<Rightarrow> n | _ \<Rightarrow> 0) else 0)"
| "wrote k _ m = 0"

fun credited :: "nat \<Rightarrow> Label \<Rightarrow> Session \<Rightarrow> nat" where
  "credited k (Select now (FrameEvent kind sid pl)) m =
     (if kind = FRAME_WINDOW_UPDATE \<and> length pl = 4 \<and> map_of (m_streams m) sid = Some k
      then unat (from_be_u32 pl) else 0)"
| "credited k _ m = 0"

fun arrived :: "nat \<Rightarrow> Label \<Rightarrow> Session \<Rightarrow> bytes" where
  "arrived k (Select now (FrameEvent kind sid pl)) m =
     (if kind = FRAME_DATA \<and> map_of (m_streams m) sid = Some k \<and> has_room k m then pl else [])"
| "arrived k (Resume now) m =
     (case m_wait m of Some (AwaitData h pl) \<Rightarrow> if h = k \<and> has_room k m then pl else [] | _ \<Rightarrow> [])"
| "arrived k _ m = []"

fun got :: "nat \<Rightarrow> Label \<Rightarrow> Session \<Rightarrow> bytes" where
  "got k (Read h n) m = (if h = k then (case fst (poll_read h n m) of Ready bs \<Rightarrow> bs | Pending \<Rightarrow> []) else [])"
| "got k _ m = []"

abbreviation window_of :: "Session \<Rightarrow> nat \<Rightarrow> nat" where
  "window_of m k \<equiv> f_available (s_flow (m_objs m ! k))"

abbreviation unread_of :: "Session \<Rightarrow> nat \<Rightarrow> bytes" where
  "unread_of m k \<equiv> unread (m_objs m ! k)"

definition step_ok :: "nat \<Rightarrow> nat \<Rightarrow> nat \<Rightarrow> bytes \<Rightarrow> bytes \<Rightarrow> Session \<Rightarrow> Session \<Rightarrow> bool" where
  "step_ok k w c ar g m n \<longleftrightarrow> k < length (m_objs n) \<and> window_of n k + w \<le> window_of m k + c \<and>
     unread_of m k @ ar = g @ unread_of n k"

lemma step_ok_quiet: "quiet (\<lambda>j. j = k) i m n \<Longrightarrow> k < length (m_objs m) \<Longrightarrow> step_ok k 0 0 [] [] m n"
  by (auto simp: quiet_def step_ok_def view_def)

lemma step_ok_still: "quiet v True m n \<Longrightarrow> v k \<Longrightarrow> k < length (m_objs m) \<Longrightarrow> step_ok k 0 0 [] [] m n"
  by (rule step_ok_quiet [of k True]) (simp_all add: quiet_def)

lemma step_ok_then: "step_ok k w c ar g m n \<Longrightarrow> still n n' \<Longrightarrow> step_ok k w c ar g m n'"
  by (auto simp: quiet_def step_ok_def view_def)

lemma still_flush: "still m (snd (flush_loop n m))"
proof (induction n arbitrary: m)
  case (Suc n)
  obtain x q where q: "pop_next (m_pending m) = (x, q)" by (cases "pop_next (m_pending m)")
  show ?case
  proof (cases x)
    case None
    with q show ?thesis by simp
  next
    case (Some f)
    obtain r c where w: "write_frame (pf_kind f) (pf_stream_id f) (pf_payload f) (m_conn m) = (r, c)"
      by (cases "write_frame (pf_kind f) (pf_stream_id f) (pf_payload f) (m_conn m)")
    let ?m = "m\<lparr>m_pending := q, m_conn := c\<rparr>"
    let ?k = "case pf_queued_stream f of None \<Rightarrow> ?m | Some sid \<Rightarrow> release_send_slot sid ?m"
    have m: "still m ?m" by simp
    have "still m ?k"
      using m quiet_trans [OF m still_flow_ops(3)] by (simp split: option.split)
    then have "still m (snd (flush_loop n ?k))"
      by (rule quiet_trans) (rule Suc.IH)
    with q Some w m show ?thesis by (cases r) (simp_all add: Let_def)
  qed
qed simp

lemma still_top: "still m (session_top now m)"
proof -
  have f: "still m (snd (flush_pending m))" unfolding flush_pending_def by (rule still_flush)
  then have "still m (stop_session (snd (flush_pending m)))" by (rule quiet_trans) simp
  with f show ?thesis
    by (cases "flush_pending m") (simp add: session_top_def split: sum.split)
qed

lemma still_finish: "still (snd r) (finish_frame now r)"
  by (rule quiet_finish) simp

lemma still_flush_update: "still m (flush_pending_window_update h m)"
proof -
  have credit: "still n (send_credit sid a n)" for sid a n
  proof (induction sid a n rule: send_credit.induct)
    case (1 sid a n)
    show ?case
    proof (cases "a = 0")
      case True
      then show ?thesis by (subst send_credit.simps) simp
    next
      case False
      then show ?thesis
        by (subst send_credit.simps) (simp add: Let_def quiet_trans [OF still_try_send(1) 1 [OF _ refl]])
    qed
  qed
  have "still m (upd_obj h (\<lambda>s. s\<lparr>s_pending_window_update := 0\<rparr>) m)"
    by (rule still_upd_obj) (simp_all add: view_def unread_def)
  then show ?thesis
    unfolding flush_pending_window_update_def Let_def by (rule quiet_trans) (rule credit)
qed

text \<open>Other frames leave every stream as it is.\<close>

lemma still_handle_frame_other:
  assumes "kind \<noteq> FRAME_DATA" "kind \<noteq> FRAME_WINDOW_UPDATE"
  shows "still m (snd (handle_frame now kind sid pl m))"
proof -
  have "still m ((mark_stream_closed sid m)\<lparr>m_streams := hm_remove sid (m_streams (mark_stream_closed sid m))\<rparr>)"
    by (intro quiet_shrink hm_set_remove still_flow_ops)
  moreover have "still m (reply (PingReply rep d) (m\<lparr>m_pings := ps\<rparr>))" for rep d ps
    by (rule quiet_reply) simp_all
  ultimately show ?thesis
    using assms
    by (simp add: handle_frame_def Let_def quiet_handle_frame_open still_answer split: option.split)
qed

lemma step_ok_data:
  assumes "k < length (m_objs m)"
  shows "step_ok k 0 0 (if h = k \<and> has_room k m then pl else []) [] m (snd (send_data h pl m))"
proof (cases "h = k")
  case True
  with assms send_data_effect [of k m pl] show ?thesis
    by (auto simp: step_ok_def view_def quiet_def)
next
  case False
  with assms show ?thesis by (simp add: step_ok_quiet [OF send_data_other])
qed

lemma step_ok_frame:
  assumes "k < length (m_objs m)"
  shows "step_ok k 0 (credited k (Select now (FrameEvent kind sid pl)) m)
    (arrived k (Select now (FrameEvent kind sid pl)) m) [] m (snd (handle_frame now kind sid pl m))"
proof -
  consider "kind = FRAME_DATA" | "kind = FRAME_WINDOW_UPDATE" | "kind \<noteq> FRAME_DATA" "kind \<noteq> FRAME_WINDOW_UPDATE"
    by blast
  then show ?thesis
  proof cases
    case 1
    have "step_ok k 0 0 [] [] m (snd (answer_control FRAME_RST sid [] m))"
      by (rule step_ok_still [OF still_answer]) (use assms in auto)
    moreover have "snd (handle_frame now kind sid pl m) = snd (handle_frame_data sid pl m)"
      using 1 by (simp add: handle_frame_def frame_kind_defs)
    ultimately show ?thesis
      using 1 step_ok_data [OF assms, of "the (map_of (m_streams m) sid)" pl]
      by (cases "map_of (m_streams m) sid") (simp_all add: handle_frame_data_def frame_kind_defs)
  next
    case 2
    have upd: "step_ok k 0 (if h = k then a else 0) [] [] m (upd_flow h (add_window a) m)" for h a
    proof (cases "h = k")
      case True
      with assms add_window_effect [of k m a] show ?thesis
        by (auto simp: step_ok_def view_def quiet_def sat_add_def)
    next
      case False
      with assms show ?thesis
        using step_ok_still [OF add_window_effect [THEN conjunct1]] by simp
    qed
    have "step_ok k 0 0 [] [] m m" using assms by (simp add: step_ok_def)
    then show ?thesis
      using 2 upd [of "the (map_of (m_streams m) sid)" "unat (from_be_u32 pl)"]
      by (cases "map_of (m_streams m) sid"; cases "the (map_of (m_streams m) sid) = k")
        (simp_all add: handle_frame_def frame_kind_defs Let_def)
  next
    case 3
    then show ?thesis
      using assms step_ok_still [OF still_handle_frame_other] by simp
  qed
qed

text \<open>A write takes from the window at least what it reports.\<close>

lemma step_ok_write:
  assumes "k < length (m_objs m)"
  shows "step_ok k (wrote k (Write h buf) m) 0 [] [] m (snd (poll_write h buf m))"
proof (cases "h = k")
  case True
  define s where "s = m_objs m ! h"
  define f where "f = s_flow s"
  define n where "n = min (min (length buf) MAX_PAYLOAD) (f_available f)"
  define m1 where "m1 = upd_flow h (\<lambda>_. f\<lparr>f_queued := f_queued f + 1, f_available := f_available f - n\<rparr>) m"
  have "n \<le> window_of m k" by (simp add: n_def f_def s_def True)
  then show ?thesis
    using assms True unfolding wrote.simps poll_write_eq [OF s_def f_def n_def m1_def]
    by (auto simp: step_ok_def upd_flow_def upd_obj_nth unread_def m1_def flow_defs f_def s_def)
next
  case False
  have upd: "quiet (\<lambda>j. j \<noteq> h) True n (upd_flow h g n)" for g n
    unfolding upd_flow_def by (rule quiet_upd_obj) simp_all
  have "quiet (\<lambda>j. j \<noteq> h) True m (snd (poll_write h buf m))"
    using upd [of m] quiet_trans [OF upd upd]
    by (subst poll_write_eq [OF refl refl refl refl]) simp
  with False assms show ?thesis using step_ok_still [of "\<lambda>j. j \<noteq> h"] by simp
qed

text \<open>A read hands over the front of what waits.\<close>

lemma take_from_buf_effect:
  assumes "k < length (m_objs m)" "s_read_offset (m_objs m ! k) \<le> length (s_read_buf (m_objs m ! k))"
  shows "step_ok k 0 0 [] (if h = k then fst (take_from_buf h r m) else []) m (snd (take_from_buf h r m))"
proof -
  let ?s = "m_objs m ! h"
  let ?av = "drop (s_read_offset ?s) (s_read_buf ?s)"
  let ?n = "min (length ?av) r"
  let ?m = "upd_obj h (\<lambda>s. s\<lparr>s_read_offset := s_read_offset s + ?n,
      s_pending_window_update := sat_add (s_pending_window_update s) ?n\<rparr>) m"
  let ?e = "upd_obj h (\<lambda>s. s\<lparr>s_read_buf := [], s_read_offset := 0\<rparr>) ?m"
  let ?g = "if h = k then take ?n ?av else []"
  have m: "step_ok k 0 0 [] ?g m ?m"
    using assms(1) append_take_drop_id [of ?n ?av]
    by (auto simp: step_ok_def upd_obj_nth unread_def add.commute)
  have e: "step_ok k 0 0 [] ?g m ?e" if "s_read_offset ?s + ?n = length (s_read_buf ?s)"
    using m that assms(1) by (auto simp: step_ok_def upd_obj_nth unread_def)
  have "step_ok k 0 0 [] ?g m (flush_pending_window_update h ?e)"
    if "s_read_offset ?s + ?n = length (s_read_buf ?s)"
    using e [OF that] still_flush_update by (rule step_ok_then)
  with m show ?thesis
    by (cases "h = k"; cases "s_read_offset ?s + ?n = length (s_read_buf ?s)")
      (simp_all add: take_from_buf_def Let_def)
qed

lemma step_ok_read_loop:
  assumes "k < length (m_objs m)" "s_read_offset (m_objs m ! k) \<le> length (s_read_buf (m_objs m ! k))"
  shows "step_ok k 0 0 [] (if h = k then (case fst (poll_read_loop j h r m) of Ready bs \<Rightarrow> bs | Pending \<Rightarrow> []) else [])
    m (snd (poll_read_loop j h r m))"
  using assms
proof (induction j arbitrary: m)
  case 0
  then show ?case by (simp add: step_ok_def)
next
  case (Suc j)
  let ?s = "m_objs m ! h"
  have refl: "step_ok k 0 0 [] [] m m" using Suc.prems by (simp add: step_ok_def)
  consider (buffered) "s_read_offset ?s < length (s_read_buf ?s)"
    | (closed) "\<not> s_read_offset ?s < length (s_read_buf ?s)" "s_remote_closed ?s"
    | (frame) p rest where "\<not> s_read_offset ?s < length (s_read_buf ?s)" "\<not> s_remote_closed ?s" "s_chan ?s = p # rest"
    | (empty) "\<not> s_read_offset ?s < length (s_read_buf ?s)" "\<not> s_remote_closed ?s" "s_chan ?s = []"
    by (cases "s_chan ?s") auto
  then show ?case
  proof cases
    case buffered
    then have "poll_read_loop (Suc j) h r m = (Ready (fst (take_from_buf h r m)), snd (take_from_buf h r m))"
      by (cases "take_from_buf h r m") (simp add: Let_def)
    then show ?thesis
      using take_from_buf_effect [OF Suc.prems, of h r]
      by (cases "h = k") (simp_all del: poll_read_loop.simps)
  next
    case closed
    then have "poll_read_loop (Suc j) h r m = (Ready [], flush_pending_window_update h m)"
      by (simp add: Let_def)
    then show ?thesis
      using step_ok_then [OF refl still_flush_update]
      by (cases "h = k") (simp_all del: poll_read_loop.simps)
  next
    case (frame p rest)
    let ?m = "upd_obj h (\<lambda>s. s\<lparr>s_chan := rest, s_read_buf := p, s_read_offset := 0\<rparr>) m"
    have "unread_of ?m k = unread_of m k" "window_of ?m k = window_of m k"
      using frame by (auto simp: upd_obj_nth unread_def)
    moreover have "s_read_offset (m_objs ?m ! k) \<le> length (s_read_buf (m_objs ?m ! k))"
      using Suc.prems by (simp add: upd_obj_nth)
    moreover have "poll_read_loop (Suc j) h r m = poll_read_loop j h r ?m"
      using frame by (simp add: Let_def)
    ultimately show ?thesis
      using Suc.IH [of ?m] Suc.prems(1)
      by (cases "h = k") (simp_all add: step_ok_def del: poll_read_loop.simps)
  next
    case empty
    have "still m (upd_obj h (\<lambda>s. s\<lparr>s_remote_closed := True\<rparr>) m)"
      by (rule still_upd_obj) (simp_all add: view_def unread_def)
    from step_ok_then [OF step_ok_then [OF refl this] still_flush_update] show ?thesis
      using empty refl by (cases "h = k"; cases "sender_alive h m") (simp_all add: Let_def)
  qed
qed

lemma still_drop_stream: "still m (drop_stream h m)"
proof -
  have upd: "still n (upd_obj h (\<lambda>s. s\<lparr>s_local_closed := True\<rparr>) n)"
    "still n (upd_obj h (\<lambda>s. s\<lparr>s_rx_open := False\<rparr>) n)" for n
    by (rule still_upd_obj; simp add: view_def unread_def)+
  have "still m (upd_obj h (\<lambda>s. s\<lparr>s_local_closed := True\<rparr>) (snd (try_send c m)))" for c
    by (rule quiet_trans [OF still_try_send(1) upd(1)])
  then show ?thesis
    unfolding drop_stream_def Let_def by (intro quiet_trans [OF _ upd(2)]) auto
qed

lemma still_shutdown: "still m (snd (poll_shutdown h m))"
proof -
  have "still m (upd_obj h (\<lambda>s. s\<lparr>s_local_closed := True\<rparr>) m)"
    by (rule still_upd_obj) (simp_all add: view_def unread_def)
  from quiet_trans [OF this still_try_send(1)] show ?thesis
    by (simp add: poll_shutdown_def)
qed

lemma still_drop_session: "still m (drop_session m)"
proof -
  have "still n (fold (\<lambda>x m. case x of Inr h \<Rightarrow> drop_stream h m | Inl _ \<Rightarrow> m) xs n)" for xs n
    by (rule still_fold) (simp add: still_drop_stream split: sum.split)
  from quiet_trans [OF still_end_task this] show ?thesis by (simp add: drop_session_def)
qed

lemma still_poll_next: "still m (snd (poll_next m))"
  by (simp add: poll_next_def split: list.split)

section \<open>Steps and runs\<close>

lemma take_event_quiet: "quiet v i (take_event ev m) n = quiet v i m n"
  by (simp add: take_event_def split: Event.split)

lemma step_ok_left:
  "step_ok k w c ar g ((take_event ev m)\<lparr>m_select := False\<rparr>) n = step_ok k w c ar g m n"
  by (simp add: step_ok_def take_event_def split: Event.split)

definition opens :: "Event \<Rightarrow> bool" where
  "opens ev = (case ev of CommandEvent (Open _ _) \<Rightarrow> True | _ \<Rightarrow> False)"

text \<open>Events that are not frames concern no stream that is there already.\<close>

lemma quiet_event:
  assumes "ev = IdleTimeout \<longrightarrow> m_draining m = None" "\<And>kind sid pl. ev \<noteq> FrameEvent kind sid pl"
  shows "quiet v (\<not> opens ev) m (session_event now ev m)"
proof (cases ev)
  case (CommandEvent c)
  obtain r n where r: "handle_command now c m = (r, n)" by (cases "handle_command now c m")
  have "quiet v (\<not> opens ev) m n"
    using quiet_handle_command [of v c m now] r CommandEvent
    by (cases c) (simp_all add: opens_def)
  moreover from this have "quiet v (\<not> opens ev) m (stop_session n)"
    by (rule quiet_trans) (rule still_quiet [OF still_stop])
  ultimately show ?thesis
    using r CommandEvent by (cases r) (simp_all add: session_event_def quiet_drain)
next
  case IdleTimeout
  have "still m (snd (enqueue_control FRAME_GOAWAY 0 [] m))" by simp
  then have "quiet v True m ((snd (enqueue_control FRAME_GOAWAY 0 [] m))\<lparr>m_draining := Some now\<rparr>)"
    using assms(1) IdleTimeout by (auto simp: quiet_def simp del: still_enqueue)
  with IdleTimeout show ?thesis by (simp add: session_event_def opens_def)
qed (use assms in \<open>auto simp: session_event_def opens_def intro!: quiet_drain quiet_enqueue
      still_quiet [OF still_stop] still_quiet [OF still_send_error]\<close>)

lemma quiet_frame_event: "quiet (\<lambda>_. False) True m (session_event now (FrameEvent kind sid pl) m)"
proof -
  have "quiet (\<lambda>_. False) True m (snd (handle_frame now kind sid pl m))"
  proof (cases "kind = FRAME_DATA \<or> kind = FRAME_WINDOW_UPDATE")
    case True
    have "quiet (\<lambda>_. False) True m (snd (send_data h pl m))"
      "quiet (\<lambda>_. False) True m (upd_flow h (add_window a) m)"
      "quiet (\<lambda>_. False) True m (snd (answer_control j i p m))" for h a j i p
      by (rule quiet_weaken [OF send_data_effect [THEN conjunct1]]
          quiet_weaken [OF add_window_effect [THEN conjunct1]] quiet_weaken [OF still_answer])+
    with True show ?thesis
      by (cases "map_of (m_streams m) sid")
        (auto simp: handle_frame_def handle_frame_data_def frame_kind_defs Let_def)
  next
    case False
    then show ?thesis using still_quiet [OF still_handle_frame_other] by blast
  qed
  then show ?thesis by (simp add: session_event_def quiet_finish)
qed

lemma quiet_poll_write: "quiet (\<lambda>_. False) True m (snd (poll_write h buf m))"
proof -
  have upd: "quiet (\<lambda>_. False) True n (upd_flow h g n)" for g n
    unfolding upd_flow_def by (rule quiet_upd_obj) simp_all
  show ?thesis
    using upd [of m] quiet_trans [OF upd upd]
    by (subst poll_write_eq [OF refl refl refl refl]) simp
qed

lemma quiet_read_loop: "quiet (\<lambda>_. False) True m (snd (poll_read_loop j h r m))"
proof (induction j arbitrary: m)
  case (Suc j)
  have upd: "quiet (\<lambda>_. False) True n (upd_obj h g n)" if "\<And>s. s_id (g s) = s_id s" for g n
    by (rule quiet_upd_obj) (simp_all add: that)
  have credit: "quiet (\<lambda>_. False) True n (flush_pending_window_update h n)" for n
    by (rule still_quiet [OF still_flush_update])
  have "quiet (\<lambda>_. False) True m (snd (take_from_buf h r m))"
    by (auto simp: take_from_buf_def Let_def intro!: upd quiet_trans [OF _ credit] quiet_trans [OF _ upd])
  moreover have "quiet (\<lambda>_. False) True m (snd (poll_read_loop j h r (upd_obj h
      (\<lambda>s. s\<lparr>s_chan := rest, s_read_buf := p, s_read_offset := 0\<rparr>) m)))" for rest p
    by (rule quiet_trans [OF upd Suc.IH]) simp
  moreover have "quiet (\<lambda>_. False) True m (flush_pending_window_update h
      (upd_obj h (\<lambda>s. s\<lparr>s_remote_closed := True\<rparr>) m))"
    by (rule quiet_trans [OF upd credit]) simp
  ultimately show ?case
    using credit by (auto simp: Let_def split: list.split prod.split)
qed simp

lemma quiet_resume: "quiet (\<lambda>_. False) True m (session_resume now m)"
proof -
  let ?m = "m\<lparr>m_wait := None\<rparr>"
  have "quiet (\<lambda>_. False) True ?m (finish_frame now (send_accept h ?m))" for h
    by (rule quiet_finish, rule still_quiet, rule still_send_accept)
  moreover have "quiet (\<lambda>_. False) True ?m (finish_frame now (send_data h pl ?m))" for h pl
    by (rule quiet_finish, rule quiet_weaken) (rule send_data_effect [THEN conjunct1])
  moreover have "quiet (\<lambda>_. False) True ?m (send_accept_error e ?m)" for e
    by (rule still_quiet, rule still_send_error)
  ultimately show ?thesis
    by (simp add: session_resume_def Let_def split: option.split Wait.split)
qed

fun opens_stream :: "Label \<Rightarrow> bool" where
  "opens_stream (Select _ ev) = opens ev"
| "opens_stream _ = False"

lemma quiet_exec:
  assumes "mux_exec l m = Some m'"
  shows "quiet (\<lambda>_. False) (\<not> opens_stream l) m m'"
proof (cases l)
  case (Select now ev)
  let ?m = "(take_event ev m)\<lparr>m_select := False\<rparr>"
  from Select assms have g: "m' = session_event now ev ?m" "event_enabled ev m"
    by (auto simp: select_event_def split: if_splits)
  have "ev = IdleTimeout \<longrightarrow> m_draining ?m = None"
    using g(2) by (simp add: event_enabled_def take_event_def split: Event.splits)
  then have "quiet (\<lambda>_. False) (\<not> opens ev) ?m m'"
    using quiet_event [of ev ?m "\<lambda>_. False" now] quiet_frame_event [of ?m now] g(1)
    by (cases ev) (simp_all add: opens_def)
  with Select show ?thesis by (simp add: take_event_quiet)
next
  case (TransportFails k)
  have "still m (stop_session (snd (flush_loop k m)))"
    by (rule quiet_trans [OF still_flush still_stop])
  with TransportFails assms show ?thesis using still_quiet by (auto split: if_splits)
qed (use assms in \<open>auto simp: quiet_poll_write quiet_read_loop quiet_resume poll_read_def
      open_stream_def ping_rtt_def goaway_def still_top [THEN still_quiet]
      still_shutdown [THEN still_quiet] still_drop_stream [THEN still_quiet]
      still_drop_session [THEN still_quiet] still_poll_next [THEN still_quiet]
      still_try_send [THEN still_quiet] simp del: poll_read_loop.simps split: if_splits\<close>)

lemma exec_step_ok:
  assumes "mux_ok m" "k < length (m_objs m)" "mux_exec l m = Some m'"
  shows "step_ok k (wrote k l m) (credited k l m) (arrived k l m) (got k l m) m m'"
proof -
  have st: "step_ok k 0 0 [] [] m n" if "still m n" for n
    by (rule step_ok_still [OF that]) (use assms in auto)
  have "m_objs m ! k \<in> set (m_objs m)" using assms(2) by simp
  with assms(1) have off: "s_read_offset (m_objs m ! k) \<le> length (s_read_buf (m_objs m ! k))"
    by (auto simp: mux_ok_def obj_ok_def)
  show ?thesis
  proof (cases l)
    case (Select now ev)
    let ?m = "(take_event ev m)\<lparr>m_select := False\<rparr>"
    from Select assms(3) have g: "m' = session_event now ev ?m" "event_enabled ev m"
      by (auto simp: select_event_def split: if_splits)
    show ?thesis
    proof (cases "\<exists>kind sid pl. ev = FrameEvent kind sid pl")
      case True
      then obtain kind sid pl where ev: "ev = FrameEvent kind sid pl" by blast
      then have m: "m_objs ?m = m_objs m" "m_streams ?m = m_streams m" "m_cfg ?m = m_cfg m"
        by (simp_all add: take_event_def)
      have "step_ok k 0 (credited k l ?m) (arrived k l ?m) [] ?m (snd (handle_frame now kind sid pl ?m))"
        unfolding Select ev using assms(2) by (intro step_ok_frame) (simp add: take_event_def)
      from step_ok_then [OF this still_finish] show ?thesis
        using g(1) ev Select m by (simp add: session_event_def step_ok_left has_room_def)
    next
      case False
      have "ev = IdleTimeout \<longrightarrow> m_draining ?m = None"
        using g(2) by (simp add: event_enabled_def take_event_def split: Event.splits)
      then have "quiet (\<lambda>j. j = k) (\<not> opens ev) m m'"
        using quiet_event [of ev ?m "\<lambda>j. j = k" now] False g(1) by (simp add: take_event_quiet)
      from step_ok_quiet [OF this assms(2)] show ?thesis
        using Select False by (cases ev) auto
    qed
  next
    case (Resume now)
    let ?m = "m\<lparr>m_wait := None\<rparr>"
    have "step_ok k 0 0 [] [] m (finish_frame now (send_accept h ?m))" for h
      using quiet_finish [OF still_send_accept, of ?m now h] by (intro st) simp
    moreover have "step_ok k 0 0 [] [] m (send_accept_error e ?m)" for e
      using still_send_error [of ?m e] by (intro st) (simp del: still_send_error)
    moreover have data: "step_ok k 0 0 (if h = k \<and> has_room k m then pl else []) [] m
        (finish_frame now (send_data h pl ?m))" for h pl
      using step_ok_then [OF step_ok_data [of k ?m h pl] still_finish] assms(2)
      by (simp add: step_ok_def has_room_def)
    moreover have "has_room k m \<Longrightarrow> step_ok k 0 0 pl [] m (finish_frame now (send_data k pl ?m))"
      and "h \<noteq> k \<or> \<not> has_room k m \<Longrightarrow> step_ok k 0 0 [] [] m (finish_frame now (send_data h pl ?m))" for h pl
      using data [of k pl] data [of h pl] by (auto split: if_splits)
    ultimately show ?thesis
      using Resume assms(3) by (auto simp: session_resume_def Let_def split: if_splits Wait.split)
  next
    case (TransportFails j)
    have "still m (stop_session (snd (flush_loop j m)))"
      by (rule quiet_trans [OF still_flush still_stop])
    with TransportFails assms(3) show ?thesis by (auto intro: st split: if_splits)
  next
    case (Write h buf)
    then show ?thesis using assms step_ok_write [of k m h buf] by (simp split: if_splits)
  next
    case (Read h n)
    with assms show ?thesis
      using step_ok_read_loop [OF assms(2) off, of h _ n]
      by (auto simp: poll_read_def simp del: poll_read_loop.simps split: if_splits)
  qed (use assms(3) in \<open>auto simp: open_stream_def ping_rtt_def goaway_def
        intro!: st still_top still_shutdown still_drop_stream still_drop_session still_poll_next
        split: if_splits\<close>)
qed

text \<open>The labels of a run with the states they were taken in.\<close>

fun trace :: "Label list \<Rightarrow> Session \<Rightarrow> (Label \<times> Session) list" where
  "trace [] m = []"
| "trace (l # ls) m = (l, m) # (case mux_exec l m of None \<Rightarrow> [] | Some m' \<Rightarrow> trace ls m')"

definition total_wrote :: "nat \<Rightarrow> Label list \<Rightarrow> Session \<Rightarrow> nat" where
  "total_wrote k ls m = sum_list (map (\<lambda>(l, n). wrote k l n) (trace ls m))"

definition total_credited :: "nat \<Rightarrow> Label list \<Rightarrow> Session \<Rightarrow> nat" where
  "total_credited k ls m = sum_list (map (\<lambda>(l, n). credited k l n) (trace ls m))"

definition all_arrived :: "nat \<Rightarrow> Label list \<Rightarrow> Session \<Rightarrow> bytes" where
  "all_arrived k ls m = concat (map (\<lambda>(l, n). arrived k l n) (trace ls m))"

definition all_got :: "nat \<Rightarrow> Label list \<Rightarrow> Session \<Rightarrow> bytes" where
  "all_got k ls m = concat (map (\<lambda>(l, n). got k l n) (trace ls m))"

lemmas totals_def = total_wrote_def total_credited_def all_arrived_def all_got_def

lemma run_step_ok:
  "mux_ok m \<Longrightarrow> k < length (m_objs m) \<Longrightarrow> mux_run ls m = Some m' \<Longrightarrow>
     step_ok k (total_wrote k ls m) (total_credited k ls m) (all_arrived k ls m) (all_got k ls m) m m'"
proof (induction ls arbitrary: m)
  case Nil
  then show ?case by (simp add: step_ok_def totals_def)
next
  case (Cons l ls)
  then obtain n where n: "mux_exec l m = Some n" "mux_run ls n = Some m'"
    by (auto split: option.splits)
  have one: "step_ok k (wrote k l m) (credited k l m) (arrived k l m) (got k l m) m n"
    using Cons.prems n by (intro exec_step_ok)
  then have "k < length (m_objs n)" by (simp add: step_ok_def)
  from Cons.IH [OF mux_ok_exec [OF Cons.prems(1) n(1)] this n(2)] one
  have "unread_of m k @ arrived k l m @ all_arrived k ls n = got k l m @ all_got k ls n @ unread_of m' k"
    and "window_of m' k + (wrote k l m + total_wrote k ls n) \<le> window_of m k + (credited k l m + total_credited k ls n)"
    and "k < length (m_objs m')"
    by (simp_all add: step_ok_def) (metis append.assoc)
  then show ?case
    using n(1) by (simp add: step_ok_def totals_def)
qed

lemma run_quiet:
  "mux_run ls m = Some m' \<Longrightarrow> quiet (\<lambda>_. False) False m m'"
proof (induction ls arbitrary: m)
  case (Cons l ls)
  then obtain n where n: "mux_exec l m = Some n" "mux_run ls n = Some m'"
    by (auto split: option.splits)
  have "quiet (\<lambda>_. False) False m n"
    using quiet_exec [OF n(1)] by (simp add: quiet_def)
  with Cons.IH [OF n(2)] show ?case by (rule quiet_trans [rotated])
qed simp

section \<open>Identifiers\<close>

abbreviation id_of :: "Session \<Rightarrow> nat \<Rightarrow> nat" where
  "id_of m h \<equiv> unat (s_id (m_objs m ! h))"

definition ids_ok :: "nat \<Rightarrow> Session \<Rightarrow> bool" where
  "ids_ok first m \<longleftrightarrow> m_next_id m mod 2 = first mod 2 \<and>
     sorted_wrt (<) (map (id_of m) (opened (m_replies m))) \<and>
     (\<forall>h \<in> set (opened (m_replies m)). h < length (m_objs m) \<and> id_of m h < m_next_id m \<and>
        id_of m h mod 2 = first mod 2)"

lemma ids_ok_quiet:
  assumes "ids_ok first m" "quiet v True m n"
  shows "ids_ok first n"
proof -
  have "id_of n h = id_of m h \<and> h < length (m_objs n)" if "h \<in> set (opened (m_replies m))" for h
    using assms that by (auto simp: ids_ok_def quiet_def)
  moreover from this have "map (id_of n) (opened (m_replies m)) = map (id_of m) (opened (m_replies m))"
    by auto
  then have "sorted_wrt (<) (map (id_of n) (opened (m_replies m)))"
    using assms(1) by (simp only: ids_ok_def)
  ultimately show ?thesis
    using assms by (simp add: ids_ok_def quiet_def)
qed

lemma ids_ok_skip: "ids_ok first m \<Longrightarrow> ids_ok first (m\<lparr>m_next_id := m_next_id m + 2\<rparr>)"
  by (auto simp: ids_ok_def)

lemma ids_ok_fresh:
  assumes "ids_ok first m" "m_next_id m \<le> u32_max" "m_objs n = m_objs m @ [s]"
    "s_id s = of_nat (m_next_id m)" "m_next_id n = m_next_id m + 2"
    "opened (m_replies n) = opened (m_replies m) @ xs" "xs = [] \<or> xs = [length (m_objs m)]"
  shows "ids_ok first n"
proof -
  have new: "id_of n (length (m_objs m)) = m_next_id m"
    using assms(2-4) by (simp add: nth_append unat_of_nat_u32)
  have old: "id_of n h = id_of m h \<and> h < length (m_objs n)" if "h \<in> set (opened (m_replies m))" for h
    using assms(1,3) that by (auto simp: ids_ok_def nth_append)
  then have "map (id_of n) (opened (m_replies m)) = map (id_of m) (opened (m_replies m))"
    by auto
  then have "sorted_wrt (<) (map (id_of n) (opened (m_replies m)))"
    using assms(1) by (simp only: ids_ok_def)
  moreover have "\<forall>h \<in> set (opened (m_replies m)). id_of n h < m_next_id m \<and> id_of n h mod 2 = first mod 2"
    using assms(1) old by (auto simp: ids_ok_def)
  ultimately show ?thesis
    using assms old new by (auto simp: ids_ok_def sorted_wrt_append)
qed

end
