(* ===== verification/Esp_Native_Mux_Props.thy ===== *)
theory Esp_Native_Mux_Props
  imports Esp_Native_Mux_Flow
begin

text \<open>
  What a native multiplexer session guarantees: bounded resources, frames written in the order they
  were handled, a sender that stays within the window, bytes delivered in order, fresh stream
  identifiers, an orderly drain; and where it falls short.
\<close>

section \<open>Identifiers handed out\<close>

lemma enqueue_keeps [simp]:
  "m_objs (snd (enqueue_control k sid pl m)) = m_objs m"
  "m_next_id (snd (enqueue_control k sid pl m)) = m_next_id m"
  "m_replies (snd (enqueue_control k sid pl m)) = m_replies m"
  by (simp_all add: enqueue_control_def split: prod.split)

lemma ids_ok_handle_open:
  assumes "ids_ok first m"
  shows "ids_ok first (snd (handle_open pr rep m))"
proof -
  have err: "ids_ok first (reply (OpenReply rep (Inl e)) n)" if "ids_ok first n" for e n
    by (rule ids_ok_quiet [OF that, of "\<lambda>_. True"]) (rule quiet_reply, simp_all)
  define n where "n = m\<lparr>m_next_id := m_next_id m + 2\<rparr>"
  define sid :: u32 where "sid = of_nat (m_next_id m)"
  obtain h k where k: "new_stream sid pr n = (h, k)" by (cases "new_stream sid pr n")
  let ?k = "k\<lparr>m_streams := hm_insert sid h (m_streams k)\<rparr>"
  obtain r j where j: "enqueue_control FRAME_OPEN sid [priority_u8 pr] ?k = (r, j)"
    by (cases "enqueue_control FRAME_OPEN sid [priority_u8 pr] ?k")
  have jk: "m_objs j = m_objs k" "m_next_id j = m_next_id k" "m_replies j = m_replies k"
    using enqueue_keeps [of FRAME_OPEN sid "[priority_u8 pr]" ?k] j by simp_all
  from k have new: "\<exists>s. m_objs k = m_objs m @ [s] \<and> s_id s = sid" "m_next_id k = m_next_id m + 2"
    "m_replies k = m_replies m" "h = length (m_objs m)"
    by (auto simp: new_stream_def Let_def n_def)
  have fresh: "ids_ok first j" "ids_ok first (reply (OpenReply rep (Inr h)) j)" if "m_next_id m \<le> u32_max"
    using new jk by (auto intro!: ids_ok_fresh [OF assms that] simp: sid_def reply_def)
  have n: "ids_ok first n" unfolding n_def by (rule ids_ok_skip [OF assms])
  have "m_streams n = m_streams m" by (simp add: n_def)
  moreover have "allocate_stream_id m = (if m_next_id m \<le> u32_max then (Some sid, n) else (None, m))"
    by (simp add: allocate_stream_id_def n_def sid_def)
  ultimately show ?thesis
    using assms err [OF assms] err [OF n] fresh k j
    by (cases r; cases "m_next_id m \<le> u32_max") (simp_all add: handle_open_def io_then_def io_bind_def)
qed

lemma ids_ok_exec:
  assumes "ids_ok first m" "mux_exec l m = Some m'"
  shows "ids_ok first m'"
proof (cases "opens_stream l")
  case False
  with quiet_exec [OF assms(2)] ids_ok_quiet [OF assms(1)] show ?thesis by simp
next
  case True
  then obtain now pr rep where l: "l = Select now (CommandEvent (Open pr rep))"
    by (cases l) (auto simp: opens_def split: Event.splits Command.splits)
  let ?m = "m\<lparr>m_commands := tl (m_commands m), m_select := False\<rparr>"
  obtain r n where r: "handle_open pr rep ?m = (r, n)" by (cases "handle_open pr rep ?m")
  have "ids_ok first ?m" using assms(1) by (simp add: ids_ok_def)
  from ids_ok_handle_open [OF this, of pr rep] r have n: "ids_ok first n" by simp
  from l assms(2) r have "m' = (case r of Inr e \<Rightarrow> apply_effect now e n | Inl _ \<Rightarrow> stop_session n)"
    by (auto simp: select_event_def take_event_def session_event_def handle_command_def
        split: if_splits sum.splits)
  moreover have "still n (apply_effect now e n)" for e by (rule quiet_drain) simp
  ultimately show ?thesis
    using ids_ok_quiet [OF n, of "\<lambda>_. True"] by (cases r) simp_all
qed

lemma ids_ok_reach: "mux_reach first cfg m \<Longrightarrow> ids_ok first m"
proof (induction rule: mux_reach.induct)
  case reach_start
  show ?case by (simp add: ids_ok_def start_session_def Let_def)
qed (rule ids_ok_exec)

lemma cfg_reach: "mux_reach first cfg m \<Longrightarrow> m_cfg m = sanitize_config cfg"
proof (induction rule: mux_reach.induct)
  case reach_start
  show ?case by (simp add: start_session_def Let_def)
next
  case (reach_step m l m')
  with quiet_exec [OF reach_step.hyps(2)] show ?case by (simp add: quiet_def)
qed

section \<open>Frames on the wire\<close>

definition waiting :: "Session \<Rightarrow> PendingFrame list" where
  "waiting m = q_control (m_pending m) @ q_interactive (m_pending m) @ q_bulk (m_pending m)"

definition wire_of :: "PendingFrame \<Rightarrow> bytes" where
  "wire_of f = frame_wire (pf_kind f, pf_stream_id f, pf_payload f)"

lemma release_conn [simp]: "m_conn (release_send_slot sid m) = m_conn m"
  by (simp add: release_send_slot_def split: option.split)

lemma pop_single:
  assumes "q_control q @ q_interactive q @ q_bulk q = [f]"
  shows "\<exists>q'. pop_next q = (Some f, q') \<and> fst (pop_next q') = None"
  using assms by (auto simp: pop_next_cases append_eq_Cons_conv split: list.splits)

lemma pop_empty: "q_control q @ q_interactive q @ q_bulk q = [] \<Longrightarrow> fst (pop_next q) = None"
  by (simp add: pop_next_cases)

lemma flush_writes:
  assumes "mux_ok m" "length (waiting m) \<le> 1"
  shows "\<exists>k. flush_pending m = (Inr (), k) \<and> tx (m_conn k) = tx (m_conn m) @ concat (map wire_of (waiting m))"
proof -
  have len: "q_len (m_pending m) = length (waiting m)"
    using assms(1) by (simp add: mux_ok_def q_wf_def waiting_def)
  consider "waiting m = []" | f where "waiting m = [f]"
    using assms(2) by (cases "waiting m") auto
  then show ?thesis
  proof cases
    case 1
    then obtain q where "pop_next (m_pending m) = (None, q)"
      using pop_empty [of "m_pending m"] by (cases "pop_next (m_pending m)") (auto simp: waiting_def)
    with 1 len show ?thesis by (simp add: flush_pending_def)
  next
    case 2
    then obtain q where q: "pop_next (m_pending m) = (Some f, q)" "fst (pop_next q) = None"
      using pop_single [of "m_pending m" f] by (auto simp: waiting_def)
    obtain q2 where q2: "pop_next q = (None, q2)" using q(2) by (cases "pop_next q") auto
    have "f \<in> set (waiting m)" using 2 by simp
    then have "length (pf_payload f) \<le> MAX_PAYLOAD"
      using assms(1) by (auto simp: mux_ok_def frames_ok_def waiting_def)
    with 2 len q(1) q2 show ?thesis
      by (simp add: flush_pending_def write_frame_ok Let_def wire_of_def split: option.split)
  qed
qed

lemma enqueue_room:
  "q_len (m_pending m) < q_limit (m_pending m) \<Longrightarrow> fst (enqueue_control k sid pl m) = Inr () \<and>
     fst (enqueue_data pr sid pl m) = Inr ()"
  by (simp add: enqueue_control_def enqueue_data_def push_control_eq push_data_eq)

lemma enqueue_then_room:
  "q_len (m_pending m) < q_limit (m_pending m) \<Longrightarrow>
     \<exists>e. fst (io_then (enqueue_control k sid pl) (\<lambda>n. (Inr x, b n)) m) = Inr e"
  using enqueue_room [of m k sid pl] by (cases "enqueue_control k sid pl m") (auto simp: io_then_def io_bind_def)

lemma handle_command_room:
  assumes "q_len (m_pending m) < q_limit (m_pending m)"
  shows "\<exists>e. fst (handle_command now c m) = Inr e"
proof -
  have ret: "io_return x = (\<lambda>n. (Inr x, id n))" for x :: Effect by (simp add: io_return_def fun_eq_iff)
  have data: "\<exists>e. fst (handle_data sid pr pl m) = Inr e" for sid pr pl
    using enqueue_room [OF assms, of _ sid pl pr]
    by (cases "enqueue_data pr sid pl m") (auto simp: handle_data_def)
  have "\<exists>e. fst (handle_open pr rep m) = Inr e" for pr rep
  proof -
    have "\<exists>e. fst (io_then (enqueue_control FRAME_OPEN sid pl) (\<lambda>n. (Inr x, b n)) (k\<lparr>m_streams := t\<rparr>)) = Inr e"
      if "new_stream sid pr (m\<lparr>m_next_id := i\<rparr>) = (h, k)" for sid i h k pl b t and x :: Effect
      using that assms by (intro enqueue_then_room) (auto simp: new_stream_def Let_def)
    then show ?thesis
      by (auto simp: handle_open_def allocate_stream_id_def split: prod.split)
  qed
  with data show ?thesis
    using assms enqueue_then_room [where b = id and m = m]
      enqueue_then_room [where b = id and m = "m\<lparr>m_streams := t\<rparr>" for t]
      enqueue_then_room [where b = id and m = "m\<lparr>m_pings := ps\<rparr>" for ps]
    by (cases c) (auto simp: handle_command_def ret split: option.split)
qed

section \<open>A session to look at\<close>

text \<open>A peer opens a stream and sends three bytes on it; then it announces that it goes away.\<close>

definition demo_run :: "Label list" where
  "demo_run = [Top 0, Select 0 (FrameEvent FRAME_OPEN 1 []), Top 0,
     Select 0 (FrameEvent FRAME_DATA 1 [7, 8, 9]), Top 0]"

definition demo :: Session where
  "demo = the (mux_run demo_run (server_session native_default))"

definition demo_drained :: Session where
  "demo_drained = the (mux_exec (Select 0 (FrameEvent FRAME_GOAWAY 0 [])) demo)"

lemmas turn_defs = session_top_def flush_pending_def pop_next_cases should_stop_def select_event_def
  event_enabled_def take_event_def session_event_def handle_frame_def handle_frame_open_def
  handle_frame_data_def open_priority_def new_stream_def Let_def send_accept_def send_data_def
  finish_frame_def apply_effect_def frame_kind_defs upd_obj_def hm_insert_def hm_remove_def flow_new_def

lemmas start_defs = server_session_def start_session_def sanitize_config_def native_default_def
  pending_new_def

lemma demo_some: "mux_run demo_run (server_session native_default) = Some demo"
  by (simp add: demo_def demo_run_def turn_defs start_defs)

lemma demo_reach: "mux_reach 2 native_default demo"
  by (rule mux_run_reach [OF reach_start demo_some [unfolded server_session_def]])

lemma demo_facts:
  "length (m_objs demo) = 1" "m_streams demo = [(1, 0)]" "holds 0 demo" "m_select demo" "m_alive demo"
  "m_wait demo = None" "m_commands demo = []" "m_accept demo = [Inr 0]" "m_draining demo = None"
  "\<not> s_local_closed (m_objs demo ! 0)" "m_accept_open demo" "m_cfg demo = native_default"
  by (simp_all add: demo_def demo_run_def turn_defs start_defs holds_def)

lemma demo_drained_some: "mux_exec (Select 0 (FrameEvent FRAME_GOAWAY 0 [])) demo = Some demo_drained"
  by (simp add: demo_drained_def demo_facts event_enabled_def)

lemma demo_drained_facts: "mux_reach 2 native_default demo_drained" "m_draining demo_drained = Some 0"
proof -
  show "mux_reach 2 native_default demo_drained"
    using demo_reach demo_drained_some by (rule reach_step)
  show "m_draining demo_drained = Some 0"
    by (simp add: demo_drained_def demo_facts event_enabled_def select_event_def session_event_def
        handle_frame_def frame_kind_defs finish_frame_def apply_effect_def start_drain_def take_event_def)
qed

text \<open>A client that opens two streams.\<close>

definition demo_opens :: "Label list" where
  "demo_opens = [OpenStream Bulk 0, OpenStream Interactive 1, Top 0, Select 0 (CommandEvent (Open Bulk 0)),
     Top 0, Select 0 (CommandEvent (Open Interactive 1))]"

definition demo_client :: Session where
  "demo_client = the (mux_run demo_opens (client_session native_default))"

lemma demo_client_some: "mux_run demo_opens (client_session native_default) = Some demo_client"
  and demo_client_opened: "map (id_of demo_client) (opened (m_replies demo_client)) = [1, 3]"
  by (simp_all add: demo_client_def demo_opens_def turn_defs start_defs client_session_def open_stream_def
      send_command_def command_channel_limit_def sat_add_def sat_mul_def COMMAND_CHANNEL_EXTRA_FRAMES_def
      usize_max_def handle_command_def handle_open_def allocate_stream_id_def u32_max_def io_then_def
      io_bind_def enqueue_control_def push_control_eq pending_frame_limit_def CONTROL_PENDING_EXTRA_FRAMES_def
      reply_def write_frame_ok MAX_PAYLOAD_def opened_def)

lemma demo_client_reach: "mux_reach 1 native_default demo_client"
  by (rule mux_run_reach [OF reach_start demo_client_some [unfolded client_session_def]])

section \<open>Guarantees\<close>

text \<open>
  C19: In every reachable state of a session the stream table holds at most the configured number of
  streams under distinct identifiers, each entry pointing to a stream with that identifier; no
  queue exceeds its limit (commands, streams to accept, data frames a stream has on their way out
  or waiting to be read); and at most one frame waits to be written.
\<close>
theorem native_session_bounds:
  assumes "mux_reach first cfg m"
  shows "length (m_streams m) \<le> max_streams (sanitize_config cfg) \<and> distinct (map fst (m_streams m)) \<and>
    (\<forall>(sid, h) \<in> set (m_streams m). h < length (m_objs m) \<and> s_id (m_objs m ! h) = sid) \<and>
    length (m_commands m) \<le> command_channel_limit (sanitize_config cfg) \<and>
    length (m_accept m) \<le> max_streams (sanitize_config cfg) \<and>
    (\<forall>s \<in> set (m_objs m). f_queued (s_flow s) \<le> send_queue_frames (sanitize_config cfg) \<and>
      length (s_chan s) \<le> stream_buffer_frames (sanitize_config cfg)) \<and>
    q_len (m_pending m) \<le> 1"
  using mux_inv_reach [OF assms]
  unfolding cfg_reach [OF assms, symmetric]
  by (auto simp: mux_inv_def mux_ok_def table_ok_def hm_wf_def obj_ok_def queue_short_def)

theorem native_session_bounds_witness:
  "mux_reach 2 native_default demo \<and> length (m_streams demo) = 1 \<and>
     length (m_streams demo) \<le> max_streams (sanitize_config native_default) \<and> q_len (m_pending demo) \<le> 1"
  using native_session_bounds [OF demo_reach] demo_reach by (simp add: demo_facts)

text \<open>
  C22: Frames go out in the order in which the session handled what caused them. At the top of its
  loop at most one frame waits, writing it out succeeds and puts exactly that frame on the
  connection, and at the \<^verbatim>\<open>select!\<close> no command is ever refused for want of room. So the priorities
  of the pending queue never come into play.
\<close>
theorem frames_in_handling_order:
  assumes "mux_reach first cfg m"
  shows "length (waiting m) \<le> 1 \<and>
    (\<exists>k. flush_pending m = (Inr (), k) \<and>
       tx (m_conn k) = tx (m_conn m) @ concat (map wire_of (waiting m))) \<and>
    (m_select m \<longrightarrow> waiting m = [] \<and> (\<exists>e. fst (handle_command now c m) = Inr e))"
proof -
  from mux_inv_reach [OF assms] have inv: "mux_ok m" "queue_short m"
    by (simp_all add: mux_inv_def)
  then have len: "length (waiting m) = q_len (m_pending m)" "1 \<le> q_limit (m_pending m)"
    by (simp_all add: mux_ok_def q_wf_def waiting_def)
  then have "length (waiting m) \<le> 1" using inv by (simp add: queue_short_def)
  with inv len show ?thesis
    using flush_writes [OF inv(1)] handle_command_room [of m now c] by (auto simp: queue_short_def)
qed

theorem frames_in_handling_order_witness:
  "mux_reach 2 native_default demo \<and> m_select demo \<and> waiting demo = [] \<and>
     (\<exists>e. fst (handle_command 0 (Open Bulk 0) demo) = Inr e)"
  using frames_in_handling_order [OF demo_reach, of 0 "Open Bulk 0"] demo_reach by (simp add: demo_facts)

text \<open>
  C21: A sender stays within its window. Over any run, the bytes a stream's writes were told were
  accepted plus the window left are at most the window at the start plus the credit the peer sent.
  A new stream starts with the configured window.
\<close>
theorem window_respected:
  assumes "mux_reach first cfg m" "h < length (m_objs m)" "mux_run ls m = Some m'"
  shows "total_wrote h ls m + window_of m' h \<le> window_of m h + total_credited h ls m \<and>
    (\<forall>sid pr n k. new_stream sid pr m = (k, n) \<longrightarrow> window_of n k = initial_window_bytes (sanitize_config cfg))"
proof -
  have "window_of n k = initial_window_bytes (sanitize_config cfg)" if "new_stream sid pr m = (k, n)" for sid pr n k
    using that cfg_reach [OF assms(1)] by (auto simp: new_stream_def Let_def flow_new_def)
  with run_step_ok [OF mux_ok_reach [OF assms(1)] assms(2,3)] show ?thesis
    by (auto simp: step_ok_def add.commute)
qed

theorem window_respected_witness:
  "mux_run [Write 0 [1, 2]] demo = Some (snd (poll_write 0 [1, 2] demo)) \<and>
     total_wrote 0 [Write 0 [1, 2]] demo + window_of (snd (poll_write 0 [1, 2] demo)) 0
       \<le> window_of demo 0 + total_credited 0 [Write 0 [1, 2]] demo"
proof -
  have "mux_run [Write 0 [1, 2]] demo = Some (snd (poll_write 0 [1, 2] demo))"
    by (simp add: demo_facts)
  with window_respected [OF demo_reach _ this, of 0] show ?thesis
    by (simp add: demo_facts)
qed



text \<open>
  The identifiers of the streams a session opens are strictly increasing, hence never reused,
  and all have the parity of the session's side, so the two sides never choose the same one.
\<close>
lemma stream_ids_fresh:
  assumes "mux_reach first cfg m"
  shows "sorted_wrt (<) (map (id_of m) (opened (m_replies m))) \<and>
    (\<forall>h \<in> set (opened (m_replies m)). id_of m h mod 2 = first mod 2)"
  using ids_ok_reach [OF assms] by (simp add: ids_ok_def)

lemma stream_ids_fresh_witness:
  "mux_reach 1 native_default demo_client \<and> map (id_of demo_client) (opened (m_replies demo_client)) = [1, 3] \<and>
     sorted_wrt (<) (map (id_of demo_client) (opened (m_replies demo_client)))"
  using stream_ids_fresh [OF demo_client_reach] demo_client_reach demo_client_opened by simp

text \<open>
  Once a session drains it takes no new stream, whoever asks, and goes on draining from the same
  instant; and when no stream is left, or the drain timeout has passed, the next turn ends it.
\<close>
lemma draining_is_final:
  assumes "mux_reach first cfg m" "m_draining m = Some t" "mux_run ls m = Some m'"
  shows "m_draining m' = Some t \<and> set (m_streams m') \<subseteq> set (m_streams m) \<and>
    ((m_streams m' = [] \<or> now - t \<ge> drain_timeout (sanitize_config cfg)) \<longrightarrow> \<not> m_alive (session_top now m'))"
proof -
  have r: "mux_reach first cfg m'" using assms(1,3) by (rule mux_run_reach)
  have d: "m_draining m' = Some t" "set (m_streams m') \<subseteq> set (m_streams m)"
    using run_quiet [OF assms(3)] assms(2) by (auto simp: quiet_def)
  from flush_pending_ok [OF mux_ok_reach [OF r]] obtain k where k: "flush_pending m' = (Inr (), k)" by auto
  moreover have "still m' k" using still_flush [of m' "Suc (q_len (m_pending m'))"] k
    by (simp add: flush_pending_def)
  then have "m_draining k = Some t" "set (m_streams k) \<subseteq> set (m_streams m')" "m_cfg k = m_cfg m'"
    using d by (auto simp: quiet_def)
  ultimately show ?thesis
    using d cfg_reach [OF r]
    by (auto simp: session_top_def should_stop_def stop_session_def end_task_def)
qed

lemma draining_is_final_witness:
  "mux_run [GoAway] demo_drained = Some (snd (goaway demo_drained)) \<and>
     m_draining (snd (goaway demo_drained)) = Some 0"
proof -
  have "mux_run [GoAway] demo_drained = Some (snd (goaway demo_drained))" by simp
  with draining_is_final [OF demo_drained_facts this] show ?thesis by simp
qed

section \<open>The end of a session\<close>

lemma close_flow_closed:
  "f_closed (s_flow (m_objs (upd_flow k flow_close m) ! h)) \<longleftrightarrow>
     f_closed (s_flow (m_objs m ! h)) \<or> (k = h \<and> h < length (m_objs m))"
  by (auto simp: upd_flow_def upd_obj_nth flow_defs)

lemma fold_close_closed:
  "f_closed (s_flow (m_objs (fold (\<lambda>(_, k). upd_flow k flow_close) t m) ! h)) \<longleftrightarrow>
     f_closed (s_flow (m_objs m ! h)) \<or> (h \<in> snd ` set t \<and> h < length (m_objs m))"
proof (induction t arbitrary: m)
  case (Cons x t)
  show ?case
    using Cons.IH [of "upd_flow (snd x) flow_close m"] close_flow_closed [of "snd x" m h]
    by (cases x) auto
qed simp

text \<open>
  When the session ends, no writer is left waiting: a write on any stream of the table fails at
  once instead of waiting for credit that can no longer come.
\<close>
lemma stopped_writers_fail:
  assumes "mux_reach first cfg m" "map_of (m_streams m) sid = Some h"
  shows "\<exists>r. fst (poll_write h buf (stop_session m)) = Ready r \<and> (buf \<noteq> [] \<longrightarrow> isl r)"
proof -
  have "h < length (m_objs m)" using mux_ok_reach [OF assms(1)] assms(2)
    by (auto simp: mux_ok_def dest: table_ok_handle)
  moreover have "h \<in> snd ` set (m_streams m)" using map_of_SomeD [OF assms(2)] by force
  ultimately have "f_closed (s_flow (m_objs (stop_session m) ! h))"
    by (simp add: stop_session_def end_task_def close_flows_def fold_close_closed)
  then show ?thesis by (auto simp: poll_write_def Let_def)
qed

lemma stopped_writers_fail_witness:
  "mux_reach 2 native_default demo \<and> map_of (m_streams demo) 1 = Some 0 \<and>
     (\<exists>r. fst (poll_write 0 [1] (stop_session demo)) = Ready r \<and> isl r)"
  using stopped_writers_fail [OF demo_reach, of 1 0 "[1]"] demo_reach by (simp add: demo_facts)

subsection \<open>An aborted session\<close>

text \<open>
  A stream whose session is gone without its flow state having been closed, and whose window is
  used up.
\<close>

definition stranded :: "nat \<Rightarrow> Session \<Rightarrow> bool" where
  "stranded h m \<longleftrightarrow> \<not> m_alive m \<and> \<not> m_accept_open m \<and> h < length (m_objs m) \<and>
     \<not> s_local_closed (m_objs m ! h) \<and> \<not> f_closed (s_flow (m_objs m ! h)) \<and> window_of m h = 0"

lemma stranded_pending: "stranded h m \<Longrightarrow> buf \<noteq> [] \<Longrightarrow> fst (poll_write h buf m) = Pending"
  by (simp add: stranded_def poll_write_def Let_def)

definition untouched :: "nat \<Rightarrow> Session \<Rightarrow> Session \<Rightarrow> bool" where
  "untouched h m n \<longleftrightarrow> m_alive n = m_alive m \<and> m_accept_open n = m_accept_open m \<and>
     length (m_objs n) = length (m_objs m) \<and>
     s_local_closed (m_objs n ! h) = s_local_closed (m_objs m ! h) \<and>
     f_closed (s_flow (m_objs n ! h)) = f_closed (s_flow (m_objs m ! h))"

lemma untouched_refl [simp]: "untouched h m m"
  by (simp add: untouched_def)

lemma untouched_trans: "untouched h m n \<Longrightarrow> untouched h n k \<Longrightarrow> untouched h m k"
  by (simp add: untouched_def)

lemma untouched_upd:
  "(k = h \<Longrightarrow> s_local_closed (g (m_objs m ! h)) = s_local_closed (m_objs m ! h) \<and>
      f_closed (s_flow (g (m_objs m ! h))) = f_closed (s_flow (m_objs m ! h))) \<Longrightarrow> untouched h m (upd_obj k g m)"
  by (auto simp: untouched_def upd_obj_nth)

lemma untouched_send [simp]:
  "untouched h m (snd (try_send c m))" "untouched h m (snd (send_command c m))"
  by (simp_all add: untouched_def try_send_def send_command_def)

lemma untouched_flush_update: "untouched h m (flush_pending_window_update k m)"
proof -
  have "untouched h n (send_credit sid a n)" for sid a n
  proof (induction sid a n rule: send_credit.induct)
    case (1 sid a n)
    show ?case
    proof (cases "a = 0")
      case True
      then show ?thesis by (subst send_credit.simps) simp
    next
      case False
      then show ?thesis
        by (subst send_credit.simps) (simp add: Let_def untouched_trans [OF untouched_send(1) 1 [OF _ refl]])
    qed
  qed
  moreover have "untouched h m (upd_obj k (\<lambda>s. s\<lparr>s_pending_window_update := 0\<rparr>) m)"
    by (rule untouched_upd) simp
  ultimately show ?thesis
    unfolding flush_pending_window_update_def Let_def by (blast intro: untouched_trans)
qed

lemma untouched_read_loop: "untouched h m (snd (poll_read_loop j k r m))"
proof (induction j arbitrary: m)
  case (Suc j)
  have upd: "untouched h n (upd_obj k g n)"
    if "\<And>s. s_local_closed (g s) = s_local_closed s" "\<And>s. f_closed (s_flow (g s)) = f_closed (s_flow s)" for g n
    using that by (intro untouched_upd) simp
  have "untouched h m (snd (take_from_buf k r m))"
    by (auto simp: take_from_buf_def Let_def intro!: upd untouched_trans [OF _ untouched_flush_update]
        untouched_trans [OF _ upd])
  moreover have "untouched h m (snd (poll_read_loop j k r (upd_obj k
      (\<lambda>s. s\<lparr>s_chan := rest, s_read_buf := p, s_read_offset := 0\<rparr>) m)))" for rest p
    by (rule untouched_trans [OF upd Suc.IH]) simp_all
  moreover have "untouched h m (flush_pending_window_update k (upd_obj k (\<lambda>s. s\<lparr>s_remote_closed := True\<rparr>) m))"
    by (rule untouched_trans [OF upd untouched_flush_update]) simp_all
  ultimately show ?case
    using untouched_flush_update by (auto simp: Let_def split: list.split prod.split)
qed simp

lemma untouched_write: "untouched h m (snd (poll_write k buf m))"
  by (subst poll_write_eq [OF refl refl refl refl])
    (auto simp: untouched_def upd_flow_def upd_obj_nth flow_defs)

lemma untouched_close:
  assumes "k \<noteq> h"
  shows "untouched h m (snd (poll_shutdown k m))" "untouched h m (drop_stream k m)"
proof -
  have upd: "untouched h n (upd_obj k g n)" for g n using assms by (intro untouched_upd) simp
  show "untouched h m (snd (poll_shutdown k m))"
    using untouched_trans [OF upd untouched_send(1)] by (simp add: poll_shutdown_def)
  have "untouched h m (upd_obj k g (snd (try_send c m)))" for g c
    by (rule untouched_trans [OF untouched_send(1) upd])
  then show "untouched h m (drop_stream k m)"
    unfolding drop_stream_def Let_def by (intro untouched_trans [OF _ upd]) simp
qed

lemma stranded_exec:
  assumes "stranded h m" "mux_ok m" "mux_exec l m = Some m'" "l \<noteq> Shutdown h" "l \<noteq> DropStream h"
  shows "stranded h m'"
proof -
  have "untouched h m m'"
    using assms by (cases l) (auto simp: stranded_def untouched_write poll_read_def untouched_read_loop
        untouched_close open_stream_def ping_rtt_def goaway_def simp del: poll_read_loop.simps split: if_splits)
  moreover have "credited h l m = 0"
    using assms(1,3) by (cases l) (auto simp: stranded_def split: if_splits)
  then have "window_of m' h = 0"
    using exec_step_ok [OF assms(2) _ assms(3), of h] assms(1) by (simp add: stranded_def step_ok_def)
  ultimately show ?thesis using assms(1) by (simp add: stranded_def untouched_def)
qed

lemma stranded_run:
  "stranded h m \<Longrightarrow> mux_ok m \<Longrightarrow> mux_run ls m = Some m' \<Longrightarrow> Shutdown h \<notin> set ls \<Longrightarrow> DropStream h \<notin> set ls \<Longrightarrow>
     stranded h m'"
proof (induction ls arbitrary: m)
  case (Cons l ls)
  then obtain n where "mux_exec l m = Some n" "mux_run ls n = Some m'" by (auto split: option.splits)
  with Cons show ?case using stranded_exec [of h m l n] mux_ok_exec [of m l n] by auto
qed simp

lemma drop_session_stranded:
  assumes "h < length (m_objs m)" "\<not> s_local_closed (m_objs m ! h)" "\<not> f_closed (s_flow (m_objs m ! h))"
    "window_of m h = 0" "Inr h \<notin> set (m_accept m)"
  shows "stranded h (drop_session m)"
proof -
  let ?f = "\<lambda>x m. case x of Inr h \<Rightarrow> drop_stream h m | Inl _ \<Rightarrow> m"
  have "untouched h n (fold ?f xs n)" if "Inr h \<notin> set xs" for xs n
    using that
  proof (induction xs arbitrary: n)
    case (Cons x xs)
    then have "untouched h n (?f x n)" using untouched_close(2) [of _ h n] by (cases x) auto
    with Cons show ?case using untouched_trans [of h n "?f x n"] by auto
  qed simp
  then have "untouched h (end_task m) (fold ?f (m_accept m) (end_task m))" using assms(5) .
  moreover have "window_of (drop_session m) h = 0"
    using still_drop_session [of m] assms(1,4) by (auto simp: quiet_def view_def)
  ultimately show ?thesis
    using assms by (simp add: stranded_def untouched_def drop_session_def end_task_def)
qed

text \<open>
  C27: Dropping the session strands its writers. A stream whose window is used up when the session is
  dropped waits for ever in its write, whatever happens afterwards short of the stream itself being
  shut down or dropped: the task is aborted before it closes the flow states.
\<close>
theorem aborted_session_strands_writer:
  assumes "mux_reach first cfg m" "h < length (m_objs m)" "\<not> s_local_closed (m_objs m ! h)"
    "\<not> f_closed (s_flow (m_objs m ! h))" "window_of m h = 0" "Inr h \<notin> set (m_accept m)"
    "mux_run ls (drop_session m) = Some m'" "Shutdown h \<notin> set ls" "DropStream h \<notin> set ls" "buf \<noteq> []"
  shows "fst (poll_write h buf m') = Pending"
proof -
  have "stranded h (drop_session m)" using assms(2-6) by (rule drop_session_stranded)
  moreover have "mux_ok (drop_session m)" using mux_ok_reach [OF assms(1)] by (rule mux_ok_drop_session)
  ultimately have "stranded h m'" using assms(7-9) by (rule stranded_run)
  then show ?thesis using assms(10) by (rule stranded_pending)
qed

definition narrow :: NativeMuxConfig where
  "narrow = native_default\<lparr>initial_window_bytes := 1\<rparr>"

definition demo_narrow_run :: "Label list" where
  "demo_narrow_run = [Top 0, Select 0 (FrameEvent FRAME_OPEN 1 []), Accept, Write 0 [5]]"

definition demo_narrow :: Session where
  "demo_narrow = the (mux_run demo_narrow_run (server_session narrow))"

lemma demo_narrow_facts:
  "mux_run demo_narrow_run (server_session narrow) = Some demo_narrow" "length (m_objs demo_narrow) = 1"
  "\<not> s_local_closed (m_objs demo_narrow ! 0)" "\<not> f_closed (s_flow (m_objs demo_narrow ! 0))"
  "window_of demo_narrow 0 = 0" "m_accept demo_narrow = []"
  by (simp_all add: demo_narrow_def demo_narrow_run_def narrow_def turn_defs start_defs poll_next_def
      holds_def poll_write_def reserve_send_slot_def MAX_PAYLOAD_def upd_flow_def try_send_def
      command_channel_limit_def sat_add_def sat_mul_def usize_max_def COMMAND_CHANNEL_EXTRA_FRAMES_def)

theorem aborted_session_strands_writer_witness:
  "mux_run demo_narrow_run (server_session narrow) = Some demo_narrow \<and>
     mux_run [GoAway] (drop_session demo_narrow) = Some (snd (goaway (drop_session demo_narrow))) \<and>
     fst (poll_write 0 [1] (snd (goaway (drop_session demo_narrow)))) = Pending"
proof -
  have "mux_reach 2 narrow demo_narrow"
    by (rule mux_run_reach [OF reach_start demo_narrow_facts(1) [unfolded server_session_def]])
  moreover have "mux_run [GoAway] (drop_session demo_narrow) = Some (snd (goaway (drop_session demo_narrow)))"
    by simp
  ultimately show ?thesis
    using aborted_session_strands_writer [of 2 narrow demo_narrow 0 "[GoAway]" _ "[1]"]
    by (simp add: demo_narrow_facts)
qed

section \<open>Streams closed on one side\<close>

text \<open>
  C26: A stream that was shut down and then dropped takes the whole session with it. Dropping it
  queues no reset and leaves its table entry, so the next data frame the peer had under way finds
  the receiver gone and ends the session.
\<close>
theorem shutdown_then_drop_kills_session:
  assumes "mux_reach first cfg m" "map_of (m_streams m) sid = Some h" "s_local_closed (m_objs m ! h)"
    "length (m_accept m) < max_streams (m_cfg m)"
  shows "m_commands (drop_stream h m) = m_commands m \<and> m_streams (drop_stream h m) = m_streams m \<and>
    \<not> m_alive (session_event now (FrameEvent FRAME_DATA sid pl) (drop_stream h m))"
proof -
  have "h < length (m_objs m)"
    using mux_ok_reach [OF assms(1)] assms(2) by (auto simp: mux_ok_def dest: table_ok_handle)
  then have "\<not> s_rx_open (m_objs (drop_stream h m) ! h)"
    by (simp add: drop_stream_def Let_def assms(3) upd_obj_nth)
  moreover have d: "drop_stream h m = upd_obj h (\<lambda>s. s\<lparr>s_rx_open := False\<rparr>) m"
    by (simp add: drop_stream_def Let_def assms(3))
  moreover have "\<not> m_alive (stop_session n)" for n by (simp add: stop_session_def end_task_def)
  ultimately show ?thesis
    using assms(2,4) by (simp add: session_event_def handle_frame_def frame_kind_defs handle_frame_data_def
        send_data_def finish_frame_def send_accept_error_def)
qed

theorem shutdown_then_drop_kills_session_witness:
  "\<not> m_alive (session_event 0 (FrameEvent FRAME_DATA 1 [1]) (drop_stream 0 (snd (poll_shutdown 0 demo))))"
proof -
  let ?m = "snd (poll_shutdown 0 demo)"
  have "mux_exec (Shutdown 0) demo = Some ?m" by (simp add: demo_facts)
  with demo_reach have "mux_reach 2 native_default ?m" by (rule reach_step)
  moreover have "m_streams ?m = [(1, 0)]" "m_accept ?m = [Inr 0]" "m_cfg ?m = native_default"
    "s_local_closed (m_objs ?m ! 0)"
    by (simp_all add: poll_shutdown_def demo_facts upd_obj_nth)
  ultimately show ?thesis
    using shutdown_then_drop_kills_session [of 2 native_default ?m 1 0 0 "[1]"]
    by (simp add: native_default_def)
qed

section \<open>Credit and the receiving side\<close>

text \<open>
  The receiving side does not enforce the window it gave. As long as the stream's channel has room
  for one more frame, a data frame of any size is taken in full, however much is unread already.
\<close>
lemma receiver_ignores_window:
  assumes "mux_reach first cfg m" "map_of (m_streams m) sid = Some h" "has_room h m"
  shows "unread_of (session_event now (FrameEvent FRAME_DATA sid pl) m) h = unread_of m h @ pl"
proof -
  have h: "h < length (m_objs m)"
    using mux_ok_reach [OF assms(1)] assms(2) by (auto simp: mux_ok_def dest: table_ok_handle)
  have "arrived h (Select now (FrameEvent FRAME_DATA sid pl)) m = pl" using assms by simp
  with step_ok_then [OF step_ok_frame [OF h, of now FRAME_DATA sid pl] still_finish] show ?thesis
    by (simp add: step_ok_def session_event_def)
qed

lemma receiver_ignores_window_witness:
  "mux_reach 2 native_default demo \<and> has_room 0 demo \<and>
     unread_of (session_event 0 (FrameEvent FRAME_DATA 1 [1, 2]) demo) 0 = unread_of demo 0 @ [1, 2]"
proof -
  have "has_room 0 demo"
    by (simp add: has_room_def demo_def demo_run_def turn_defs start_defs)
  with receiver_ignores_window [OF demo_reach _ this, of 1 0 "[1, 2]"] show ?thesis
    using demo_reach by (simp add: demo_facts)
qed



end
