(* ===== verification/Esp_Crypto.thy ===== *)
theory Esp_Crypto
  imports Esp_Prelude
begin

text \<open>
  The key schedule and the masks of \<^verbatim>\<open>crypto/mod.rs\<close>. The primitives come from crates (\<^verbatim>\<open>sha2\<close>,
  \<^verbatim>\<open>hmac\<close>, \<^verbatim>\<open>hkdf\<close>, \<^verbatim>\<open>x25519_dalek\<close>, \<^verbatim>\<open>chacha20poly1305\<close>) and are the fields of a parameter \<open>p\<close>;
  \<open>prims_ok\<close> states what their documentation promises. HMAC accepts keys of every length and HKDF
  every output length asked for here (8 and 32 bytes), so neither fails.

  Shown: masking with the HMAC stream is an involution, so an envelope or a block is unmasked to
  what was put into it; the two sides derive mirrored session keys from the same secret; a key
  update on one side is matched by the update of the other side's opposite direction.
\<close>

section \<open>Primitives\<close>

unbundle bit_operations_syntax

record prims =
  sha256 :: "bytes \<Rightarrow> bytes"
  hmac_sha256 :: "bytes \<Rightarrow> bytes \<Rightarrow> bytes"
  hkdf_expand :: "bytes option \<Rightarrow> bytes \<Rightarrow> bytes \<Rightarrow> nat \<Rightarrow> bytes"
  public_key :: "bytes \<Rightarrow> bytes"
  diffie_hellman :: "bytes \<Rightarrow> bytes \<Rightarrow> bytes"
  aead_encrypt :: "bytes \<Rightarrow> bytes \<Rightarrow> bytes \<Rightarrow> bytes option"
  aead_decrypt :: "bytes \<Rightarrow> bytes \<Rightarrow> bytes \<Rightarrow> bytes option"

definition prims_ok :: "prims \<Rightarrow> bool" where
  "prims_ok p \<longleftrightarrow>
     (\<forall>x. length (sha256 p x) = 32) \<and>
     (\<forall>k x. length (hmac_sha256 p k x) = 32) \<and>
     (\<forall>s i info n. n \<le> 8160 \<longrightarrow> length (hkdf_expand p s i info n) = n) \<and>
     (\<forall>s. length (public_key p s) = 32) \<and>
     (\<forall>a b. diffie_hellman p a (public_key p b) = diffie_hellman p b (public_key p a)) \<and>
     (\<forall>k n x. length x \<le> u32_max \<longrightarrow>
        (\<exists>y. aead_encrypt p k n x = Some y \<and> length y = length x + 16 \<and> aead_decrypt p k n y = Some x)) \<and>
     (\<forall>k n x y. aead_decrypt p k n y = Some x \<longrightarrow> aead_encrypt p k n x = Some y \<and> length y = length x + 16)"

section \<open>Session keys\<close>

text \<open>\<open>k_tx\<close> and \<open>k_rx\<close> are the keys the two cipher objects were made with.\<close>

record SessionKeys =
  k_tx :: bytes
  k_rx :: bytes
  k_tx_key :: bytes
  k_rx_key :: bytes
  k_tx_len_mask :: bytes
  k_rx_len_mask :: bytes
  k_nonce_tag :: bytes
  k_tx_generation :: u64
  k_rx_generation :: u64
  k_tx_update_label :: bytes
  k_rx_update_label :: bytes

definition stealth_selector :: "SessionKeys \<Rightarrow> u64" where
  "stealth_selector k = from_be_u64 (k_nonce_tag k)"

definition next_key_generation :: "u64 \<Rightarrow> u64 result" where
  "next_key_generation current =
     (if unat current + 1 > u64_max then Inl (Bail ''traffic key generation exhausted'')
      else Inr (current + 1))"

definition update_secret :: "prims \<Rightarrow> bytes \<Rightarrow> bytes \<Rightarrow> u64 \<Rightarrow> bytes \<times> bytes" where
  "update_secret p current direction generation =
     (let info = ascii ''espejismo v1 key-update '' @ direction @ to_be_u64 generation
      in (hkdf_expand p None current info 32,
          hkdf_expand p None current (info @ ascii '' length-mask'') 32))"

definition update_tx :: "prims \<Rightarrow> (SessionKeys, unit) io" where
  "update_tx p k =
     (case next_key_generation (k_tx_generation k) of
        Inl e \<Rightarrow> (Inl e, k)
      | Inr generation \<Rightarrow>
          (case update_secret p (k_tx_key k) (k_tx_update_label k) generation of
             (key, len_mask) \<Rightarrow>
               (Inr (), k\<lparr>k_tx_generation := generation, k_tx_key := key,
                          k_tx_len_mask := len_mask, k_tx := key\<rparr>)))"

definition update_rx :: "prims \<Rightarrow> (SessionKeys, unit) io" where
  "update_rx p k =
     (case next_key_generation (k_rx_generation k) of
        Inl e \<Rightarrow> (Inl e, k)
      | Inr generation \<Rightarrow>
          (case update_secret p (k_rx_key k) (k_rx_update_label k) generation of
             (key, len_mask) \<Rightarrow>
               (Inr (), k\<lparr>k_rx_generation := generation, k_rx_key := key,
                          k_rx_len_mask := len_mask, k_rx := key\<rparr>)))"

definition derive_keys :: "prims \<Rightarrow> bytes \<Rightarrow> bytes \<Rightarrow> bytes \<Rightarrow> bytes \<Rightarrow> SessionKeys" where
  "derive_keys p psk shared nonce role =
     (let salt = sha256 p (psk @ nonce);
          hk = (\<lambda>info n. hkdf_expand p (Some salt) shared (ascii info) n);
          client_to_server = hk ''espejismo v1 client-to-server'' 32;
          server_to_client = hk ''espejismo v1 server-to-client'' 32;
          client_len_mask = hk ''espejismo v1 client-length-mask'' 32;
          server_len_mask = hk ''espejismo v1 server-length-mask'' 32;
          nonce_tag = hk ''espejismo v1 nonce-tag'' 8;
          (tx, rx, tx_len_mask, rx_len_mask, tx_label, rx_label) =
            (if role = ascii ''client''
             then (client_to_server, server_to_client, client_len_mask, server_len_mask,
                   ascii ''client-to-server'', ascii ''server-to-client'')
             else (server_to_client, client_to_server, server_len_mask, client_len_mask,
                   ascii ''server-to-client'', ascii ''client-to-server''))
      in \<lparr>k_tx = tx, k_rx = rx, k_tx_key = tx, k_rx_key = rx, k_tx_len_mask = tx_len_mask,
          k_rx_len_mask = rx_len_mask, k_nonce_tag = nonce_tag, k_tx_generation = 0,
          k_rx_generation = 0, k_tx_update_label = tx_label, k_rx_update_label = rx_label\<rparr>)"

definition session_nonce :: "u64 \<Rightarrow> bytes \<Rightarrow> bytes" where
  "session_nonce seq tag = tag @ replicate 8 0 @ to_be_u64 seq"

definition encrypt :: "prims \<Rightarrow> bytes \<Rightarrow> u64 \<Rightarrow> bytes \<Rightarrow> bytes \<Rightarrow> bytes result" where
  "encrypt p cipher seq nonce_tag plain =
     (case aead_encrypt p cipher (session_nonce seq nonce_tag) plain of
        None \<Rightarrow> Inl (Bail ''encryption failed'')
      | Some c \<Rightarrow> Inr c)"

definition decrypt :: "prims \<Rightarrow> bytes \<Rightarrow> u64 \<Rightarrow> bytes \<Rightarrow> bytes \<Rightarrow> bytes result" where
  "decrypt p cipher seq nonce_tag encrypted =
     (case aead_decrypt p cipher (session_nonce seq nonce_tag) encrypted of
        None \<Rightarrow> Inl (Bail ''frame authentication failed'')
      | Some x \<Rightarrow> Inr x)"

definition length_mask :: "prims \<Rightarrow> bytes \<Rightarrow> u64 \<Rightarrow> u32" where
  "length_mask p key seq = from_be_u32 (take 4 (hmac_sha256 p key (ascii ''len:'' @ to_be_u64 seq)))"

section \<open>Authentication keys\<close>

definition derive_auth_key :: "prims \<Rightarrow> bytes \<Rightarrow> bytes" where
  "derive_auth_key p psk = hkdf_expand p None psk (ascii ''espejismo v1 handshake-auth-key'') 32"

definition derive_window_auth_key :: "prims \<Rightarrow> bytes \<Rightarrow> u64 \<Rightarrow> bytes" where
  "derive_window_auth_key p psk slot =
     hkdf_expand p None psk (ascii ''espejismo v1 handshake-window-auth-key:'' @ to_be_u64 slot) 32"

definition window_slot :: "int \<Rightarrow> u64 \<Rightarrow> u64 result" where
  "window_slot now step_secs =
     (if step_secs = 0 then Inl (Bail ''handshake window step must be greater than 0'')
      else if now < 0 then Inl (Bail ''system time is before Unix epoch'')
      else Inr (of_int now div step_secs))"

definition server_hmac :: "prims \<Rightarrow> bytes \<Rightarrow> bytes \<Rightarrow> bytes \<Rightarrow> u16 \<Rightarrow> u64 \<Rightarrow> bytes" where
  "server_hmac p key client_hello server_pub version capabilities =
     hmac_sha256 p key (ascii ''server-v1:'' @ client_hello @ server_pub @ to_be_u16 version
       @ to_be_u64 capabilities)"

text \<open>The hex and base64 decoders are crates and parameters; \<open>None\<close> is a decoding error.\<close>

definition strip_prefix :: "bytes \<Rightarrow> bytes \<Rightarrow> bytes option" where
  "strip_prefix pre xs = (if take (length pre) xs = pre then Some (drop (length pre) xs) else None)"

definition parse_psk :: "(bytes \<Rightarrow> bytes option) \<Rightarrow> (bytes \<Rightarrow> bytes option) \<Rightarrow> rstring \<Rightarrow> bytes result" where
  "parse_psk hex_decode base64_decode input =
     res_bind
       (case strip_prefix (ascii ''hex:'') input of
          Some rest \<Rightarrow>
            (case hex_decode rest of None \<Rightarrow> Inl (Bail ''invalid hex PSK'') | Some k \<Rightarrow> Inr k)
        | None \<Rightarrow>
            (case strip_prefix (ascii ''base64:'') input of
               Some rest \<Rightarrow>
                 (case base64_decode rest of None \<Rightarrow> Inl (Bail ''invalid base64 PSK'') | Some k \<Rightarrow> Inr k)
             | None \<Rightarrow> Inr input))
       (\<lambda>key. if length key < 16 then Inl (Bail ''PSK must be at least 16 bytes'') else Inr key)"

section \<open>Masking\<close>

text \<open>
  The loop over the data: each round takes the HMAC of the domain, label, nonce, context and counter
  and combines its 32 bytes with the next 32 of the data.
\<close>

definition xor_bytes :: "bytes \<Rightarrow> bytes \<Rightarrow> bytes" where
  "xor_bytes xs ys = map2 (XOR) xs ys"

function xor_loop :: "(bytes \<Rightarrow> bytes) \<Rightarrow> u32 \<Rightarrow> bytes \<Rightarrow> bytes" where
  "xor_loop mac counter data =
     (if data = [] then []
      else xor_bytes (take 32 data) (mac (to_be_u32 counter))
             @ xor_loop mac (counter + 1) (drop 32 data))"
  by pat_completeness auto
termination
  by (relation "measure (\<lambda>(_, _, data). length data)") auto

declare xor_loop.simps [simp del]

definition xor_hmac_stream_with_domain ::
  "prims \<Rightarrow> bytes \<Rightarrow> string \<Rightarrow> string \<Rightarrow> bytes \<Rightarrow> bytes \<Rightarrow> bytes \<Rightarrow> bytes"
where
  "xor_hmac_stream_with_domain p key domain label nonce context data =
     xor_loop (\<lambda>c. hmac_sha256 p key (ascii domain @ ascii label @ nonce @ context @ c)) 0 data"

definition xor_hmac_stream :: "prims \<Rightarrow> bytes \<Rightarrow> string \<Rightarrow> bytes \<Rightarrow> bytes \<Rightarrow> bytes \<Rightarrow> bytes" where
  "xor_hmac_stream p key label nonce context data =
     xor_hmac_stream_with_domain p key ''stealth-handshake:'' label nonce context data"

definition xor_variable_handshake_len :: "prims \<Rightarrow> bytes \<Rightarrow> string \<Rightarrow> bytes \<Rightarrow> bytes \<Rightarrow> bytes \<Rightarrow> bytes" where
  "xor_variable_handshake_len p key label context nonce data =
     xor_hmac_stream_with_domain p key ''handshake-len:'' label nonce context data"

definition xor_variable_handshake_payload :: "prims \<Rightarrow> bytes \<Rightarrow> string \<Rightarrow> bytes \<Rightarrow> bytes \<Rightarrow> bytes \<Rightarrow> bytes" where
  "xor_variable_handshake_payload p key label context nonce data =
     xor_hmac_stream_with_domain p key ''handshake-payload:'' label nonce context data"

definition unmask_variable_handshake_len :: "prims \<Rightarrow> bytes \<Rightarrow> string \<Rightarrow> bytes \<Rightarrow> bytes \<Rightarrow> bytes \<Rightarrow> nat" where
  "unmask_variable_handshake_len p key label context nonce masked_len =
     unat (from_be_u32 (xor_variable_handshake_len p key label context nonce masked_len))"

section \<open>What the masks and keys do\<close>

lemma xor_bytes_length [simp]: "length (xor_bytes xs ys) = min (length xs) (length ys)"
  by (simp add: xor_bytes_def)

lemma xor_bytes_twice: "length xs \<le> length ys \<Longrightarrow> xor_bytes (xor_bytes xs ys) ys = xs"
  by (rule nth_equalityI) (auto simp: xor_bytes_def xor.assoc)

lemma xor_loop_Nil [simp]: "xor_loop mac c [] = []"
  by (simp add: xor_loop.simps)

lemma xor_loop_length [simp]:
  "(\<And>x. length (mac x) = 32) \<Longrightarrow> length (xor_loop mac c d) = length d"
proof (induction mac c d rule: xor_loop.induct)
  case (1 mac c d)
  then show ?case
    by (cases "d = []") (auto simp: xor_loop.simps [of mac c d])
qed

lemma xor_loop_twice:
  "(\<And>x. length (mac x) = 32) \<Longrightarrow> xor_loop mac c (xor_loop mac c d) = d"
proof (induction mac c d rule: xor_loop.induct)
  case (1 mac c d)
  show ?case
  proof (cases "d = []")
    case False
    define a where "a = xor_bytes (take 32 d) (mac (to_be_u32 c))"
    define b where "b = xor_loop mac (c + 1) (drop 32 d)"
    have loop: "xor_loop mac c d = a @ b"
      using False by (simp add: xor_loop.simps [of mac c d] a_def b_def)
    have len: "length a = min 32 (length d)" using "1.prems" by (simp add: a_def)
    then have "length a = 32 \<or> b = []" by (auto simp: b_def min_def)
    then have "take 32 (a @ b) = a" "drop 32 (a @ b) = b" using len by auto
    moreover have "a @ b \<noteq> []" using len False by (auto simp: min_def split: if_splits)
    ultimately have "xor_loop mac c (a @ b) = xor_bytes a (mac (to_be_u32 c)) @ xor_loop mac (c + 1) b"
      by (simp only: xor_loop.simps [of mac c "a @ b"] if_False)
    also have "\<dots> = take 32 d @ drop 32 d"
      using 1 False by (simp add: xor_bytes_twice a_def b_def)
    finally show ?thesis using loop by simp
  qed simp
qed

lemma prims_lengths:
  assumes "prims_ok p"
  shows "length (sha256 p x) = 32" "length (hmac_sha256 p k x) = 32" "length (public_key p s) = 32"
    "n \<le> 8160 \<Longrightarrow> length (hkdf_expand p o' i info n) = n"
  using assms by (simp_all add: prims_ok_def)

lemma dh_agrees: "prims_ok p \<Longrightarrow> diffie_hellman p a (public_key p b) = diffie_hellman p b (public_key p a)"
  by (simp add: prims_ok_def)

lemma xor_stream_length [simp]:
  "prims_ok p \<Longrightarrow> length (xor_hmac_stream_with_domain p key dm label nonce ctx d) = length d"
  by (simp add: xor_hmac_stream_with_domain_def prims_lengths)

lemma xor_stream_twice:
  "prims_ok p \<Longrightarrow> xor_hmac_stream_with_domain p key dm label nonce ctx
     (xor_hmac_stream_with_domain p key dm label nonce ctx d) = d"
  by (simp add: xor_hmac_stream_with_domain_def xor_loop_twice prims_lengths)

lemmas xor_stream_defs = xor_hmac_stream_def xor_variable_handshake_len_def xor_variable_handshake_payload_def

lemma unmask_len_masked:
  "prims_ok p \<Longrightarrow> n \<le> u32_max \<Longrightarrow> unmask_variable_handshake_len p key label ctx nonce
     (xor_variable_handshake_len p key label ctx nonce (to_be_u32 (of_nat n))) = n"
  by (simp add: unmask_variable_handshake_len_def xor_stream_defs xor_stream_twice unat_of_nat_u32)

text \<open>Mirrored keys: what one side sends with, the other receives with.\<close>

definition mirrored :: "SessionKeys \<Rightarrow> SessionKeys \<Rightarrow> bool" where
  "mirrored a b \<longleftrightarrow>
     k_tx a = k_rx b \<and> k_tx_key a = k_rx_key b \<and> k_tx_len_mask a = k_rx_len_mask b \<and>
     k_nonce_tag a = k_nonce_tag b \<and> k_tx_generation a = k_rx_generation b \<and>
     k_tx_update_label a = k_rx_update_label b"

lemma client_server_differ: "ascii ''server'' \<noteq> ascii ''client''"
  by (simp add: ascii_def)

lemma derive_keys_mirrored:
  "mirrored (derive_keys p psk shared nonce (ascii ''client'')) (derive_keys p psk shared nonce (ascii ''server''))"
  "mirrored (derive_keys p psk shared nonce (ascii ''server'')) (derive_keys p psk shared nonce (ascii ''client''))"
  using client_server_differ by (simp_all add: mirrored_def derive_keys_def Let_def)

lemma update_mirrored:
  assumes "mirrored a b" "update_tx p a = (Inr (), a')"
  shows "\<exists>b'. update_rx p b = (Inr (), b') \<and> mirrored a' b'"
  using assms by (auto simp: mirrored_def update_tx_def update_rx_def split: sum.splits prod.splits)

lemma update_tx_fails_iff: "isl (fst (update_tx p k)) \<longleftrightarrow> unat (k_tx_generation k) = u64_max"
  using unat_u64_less [of "k_tx_generation k"]
  by (auto simp: update_tx_def next_key_generation_def u64_max_def split: prod.splits)

section \<open>A small instance\<close>

text \<open>Primitives that satisfy \<open>prims_ok\<close>, on which the witnesses run.\<close>

definition demo_prims :: prims where
  "demo_prims = \<lparr>sha256 = \<lambda>_. replicate 32 0, hmac_sha256 = \<lambda>_ _. replicate 32 7,
     hkdf_expand = \<lambda>_ _ _ n. replicate n 3, public_key = \<lambda>_. replicate 32 9,
     diffie_hellman = \<lambda>_ _. replicate 32 5, aead_encrypt = \<lambda>_ _ x. Some (x @ replicate 16 0),
     aead_decrypt = \<lambda>_ _ y. if 16 \<le> length y \<and> drop (length y - 16) y = replicate 16 0
                           then Some (take (length y - 16) y) else None\<rparr>"

lemma demo_prims_ok: "prims_ok demo_prims"
  by (simp add: demo_prims_def prims_ok_def) (metis append_take_drop_id)

end
