(* ===== verification/Esp_Puzzle.thy ===== *)
theory Esp_Puzzle
  imports Esp_Prelude
begin

text \<open>
  The client puzzle of \<^verbatim>\<open>protocol/puzzle.rs\<close>. SHA-256 comes from the \<^verbatim>\<open>sha2\<close> crate and is a parameter
  \<open>sha256\<close>. The \<^verbatim>\<open>u8\<close> counter of leading zero bits wraps, as in the release profile. The search
  loop over nonces has no bound in the code and is a partial function: \<open>None\<close> is not returning.

  Shown: for a digest that is not all zeros the test accepts exactly the digests below the target
  \<open>2 ^ (8 * length - difficulty)\<close>; the search returns as soon as any nonce solves the puzzle; and
  its result verifies and differs from the input only in the nonce field.
\<close>

section \<open>Definitions\<close>

record PuzzleConfig =
  difficulty_bits :: u8

definition capped :: "PuzzleConfig \<Rightarrow> PuzzleConfig" where
  "capped p = p\<lparr>difficulty_bits := min (difficulty_bits p) 24\<rparr>"

text \<open>\<^verbatim>\<open>u8::leading_zeros\<close>.\<close>

definition leading_zeros :: "byte \<Rightarrow> nat" where
  "leading_zeros b =
     (let n = unat b in
      if n \<ge> 128 then 0 else if n \<ge> 64 then 1 else if n \<ge> 32 then 2 else if n \<ge> 16 then 3
      else if n \<ge> 8 then 4 else if n \<ge> 4 then 5 else if n \<ge> 2 then 6 else if n \<ge> 1 then 7 else 8)"

fun leading_zero_bits_loop :: "bytes \<Rightarrow> u8 \<Rightarrow> u8" where
  "leading_zero_bits_loop [] acc = acc"
| "leading_zero_bits_loop (b # bs) acc =
     (if b = 0 then leading_zero_bits_loop bs (acc + 8)
      else acc + of_nat (leading_zeros b))"

definition leading_zero_bits :: "bytes \<Rightarrow> u8" where
  "leading_zero_bits bs = leading_zero_bits_loop bs 0"

definition verify :: "(bytes \<Rightarrow> bytes) \<Rightarrow> bytes \<Rightarrow> u8 \<Rightarrow> bool" where
  "verify sha256 body difficulty =
     (let difficulty = min difficulty 24 in
      if difficulty = 0 then True
      else leading_zero_bits (sha256 body) \<ge> difficulty)"

text \<open>\<^verbatim>\<open>body[range].copy_from_slice(nonce)\<close>, with the panics of slicing and copying.\<close>

definition set_nonce :: "bytes \<Rightarrow> nat \<Rightarrow> nat \<Rightarrow> u64 \<Rightarrow> bytes result" where
  "set_nonce body lo hi nonce =
     (if lo \<le> hi \<and> hi \<le> length body \<and> hi - lo = 8
      then Inr (take lo body @ to_be_u64 nonce @ drop hi body)
      else Inl (Panic ''copy_from_slice''))"

partial_function (option) solve_loop ::
  "(bytes \<Rightarrow> bytes) \<Rightarrow> nat \<Rightarrow> nat \<Rightarrow> u8 \<Rightarrow> bytes \<Rightarrow> u64 \<Rightarrow> bytes result option"
where
  "solve_loop sha256 lo hi difficulty body nonce =
     (case set_nonce body lo hi nonce of
        Inl e \<Rightarrow> Some (Inl e)
      | Inr body' \<Rightarrow>
          if verify sha256 body' difficulty then Some (Inr body')
          else solve_loop sha256 lo hi difficulty body' (nonce + 1))"

definition solve ::
  "(bytes \<Rightarrow> bytes) \<Rightarrow> bytes \<Rightarrow> nat \<Rightarrow> nat \<Rightarrow> u8 \<Rightarrow> bytes result option"
where
  "solve sha256 body lo hi difficulty =
     (let difficulty = min difficulty 24 in
      if difficulty = 0 then Some (Inr body)
      else solve_loop sha256 lo hi difficulty body 0)"

section \<open>Counting zero bits\<close>

text \<open>The count without the wrap-around of \<^verbatim>\<open>u8\<close>.\<close>

fun zero_bits :: "bytes \<Rightarrow> nat" where
  "zero_bits [] = 0"
| "zero_bits (b # bs) = (if b = 0 then 8 + zero_bits bs else leading_zeros b)"

lemma leading_zero_bits_loop_eq: "leading_zero_bits_loop bs t = t + of_nat (zero_bits bs)"
  by (induction bs t rule: leading_zero_bits_loop.induct) (simp_all add: add.assoc)

lemma leading_zeros_bounds:
  "b \<noteq> 0 \<Longrightarrow> 2 ^ (7 - leading_zeros b) \<le> unat b \<and> unat b < 2 ^ (8 - leading_zeros b) \<and>
     leading_zeros b \<le> 7"
proof -
  assume "b \<noteq> 0"
  then have "unat b \<noteq> 0"
    by (simp add: unat_eq_0)
  moreover have "unat b < 256"
    using unsigned_less [where 'a = nat and w = b] by simp
  ultimately show ?thesis
    by (simp add: leading_zeros_def Let_def)
qed

lemma zero_bits_le: "zero_bits bs \<le> 8 * length bs"
  using leading_zeros_bounds by (induction bs) force+

lemma zero_bits_nonzero: "\<exists>b \<in> set bs. b \<noteq> 0 \<Longrightarrow> zero_bits bs < 8 * length bs"
proof (induction bs)
  case (Cons b bs)
  then show ?case
    using leading_zeros_bounds [of b] by (cases "b = 0") auto
qed simp

lemma zero_bits_replicate: "zero_bits (replicate n 0) = 8 * n"
  by (induction n) simp_all

lemma pow256: "(256 :: nat) ^ n = 2 ^ (8 * n)"
  by (simp add: power_mult)

text \<open>The puzzle's meaning: the digest, read as a number, is below the target.\<close>

lemma zero_bits_target:
  "d \<le> 8 * length bs \<Longrightarrow> d \<le> zero_bits bs \<longleftrightarrow> be_decode bs < 2 ^ (8 * length bs - d)"
proof (induction bs arbitrary: d)
  case (Cons b bs)
  let ?n = "8 * length bs"
  have dec: "be_decode bs < 2 ^ ?n"
    using be_decode_less [of bs] by (simp add: pow256)
  show ?case
  proof (cases "b = 0")
    case True
    show ?thesis
    proof (cases "d \<le> 8")
      case le: True
      have "2 ^ ?n \<le> (2::nat) ^ (8 + ?n - d)"
        using le by (intro power_increasing) auto
      with dec have "be_decode bs < 2 ^ (8 + ?n - d)"
        by (rule less_le_trans)
      with True le show ?thesis
        by (simp add: be_decode_Cons)
    next
      case False
      have "d - 8 \<le> zero_bits bs \<longleftrightarrow> be_decode bs < 2 ^ (?n - (d - 8))"
        using Cons.IH [of "d - 8"] Cons.prems by simp
      moreover have "?n - (d - 8) = 8 * length (b # bs) - d"
        using False by simp
      moreover have "d \<le> zero_bits (b # bs) \<longleftrightarrow> d - 8 \<le> zero_bits bs"
        using True False by auto
      ultimately show ?thesis
        using True by (simp add: be_decode_Cons)
    qed
  next
    case False
    let ?z = "leading_zeros b"
    from leading_zeros_bounds [OF False]
    have z: "2 ^ (7 - ?z) \<le> unat b" "unat b < 2 ^ (8 - ?z)" "?z \<le> 7" by auto
    have val: "be_decode (b # bs) = unat b * 2 ^ ?n + be_decode bs"
      by (simp add: be_decode_Cons pow256)
    show ?thesis
    proof (cases "d \<le> ?z")
      case True
      have "unat b + 1 \<le> 2 ^ (8 - d)"
        using z(2) power_increasing [OF diff_le_mono2 [OF True], of "2::nat" 8] by linarith
      then have "(unat b + 1) * 2 ^ ?n \<le> 2 ^ (8 - d) * 2 ^ ?n"
        by (rule mult_right_mono) simp
      also have "\<dots> = 2 ^ (8 + ?n - d)"
        using True z(3) by (simp flip: power_add)
      finally have "be_decode (b # bs) < 2 ^ (8 + ?n - d)"
        using dec val by simp
      with True False show ?thesis by simp
    next
      case gt: False
      have "2 ^ (8 + ?n - d) \<le> 2 ^ (7 - ?z) * (2::nat) ^ ?n"
        using gt z(3) by (simp flip: power_add)
      also have "\<dots> \<le> unat b * 2 ^ ?n"
        using z(1) by simp
      finally show ?thesis
        using gt False val by simp
    qed
  qed
qed simp

lemma unat_leading_zero_bits:
  "zero_bits bs < 256 \<Longrightarrow> unat (leading_zero_bits bs) = zero_bits bs"
  by (simp add: leading_zero_bits_def leading_zero_bits_loop_eq unat_of_nat_byte)

lemma verify_zero [simp]: "verify sha256 body 0"
  by (simp add: verify_def)

lemma unat_min_u8: "unat (min a b :: u8) = min (unat a) (unat b)"
  by (simp add: min_def word_le_nat_alt)

section \<open>The search\<close>

lemma set_nonce_again:
  "set_nonce body lo hi n = Inr b \<Longrightarrow> set_nonce b lo hi m = set_nonce body lo hi m"
  by (auto simp: set_nonce_def split: if_splits)

text \<open>
  If some nonce at or after the current one, before the counter wraps, solves the puzzle, the loop
  returns, and with the first such nonce.
\<close>

lemma solve_loop_finds:
  assumes "lo \<le> hi" and "hi \<le> length body" and "hi - lo = 8"
    and "verify sha256 (take lo body @ to_be_u64 (of_nat (n + k)) @ drop hi body) d"
    and "n + k < 2 ^ 64"
  shows "\<exists>j \<le> k. solve_loop sha256 lo hi d body (of_nat n) =
      Some (Inr (take lo body @ to_be_u64 (of_nat (n + j)) @ drop hi body)) \<and>
    verify sha256 (take lo body @ to_be_u64 (of_nat (n + j)) @ drop hi body) d"
  using assms
proof (induction k arbitrary: n body)
  case 0
  then show ?case
    by (subst solve_loop.simps) (simp add: set_nonce_def)
next
  case (Suc k)
  let ?b = "take lo body @ to_be_u64 (of_nat n) @ drop hi body"
  show ?case
  proof (cases "verify sha256 ?b d")
    case True
    with Suc.prems show ?thesis
      by (subst solve_loop.simps) (auto simp: set_nonce_def intro: exI [of _ 0])
  next
    case False
    have parts: "take lo ?b = take lo body" "drop hi ?b = drop hi body" "hi \<le> length ?b"
      using Suc.prems(1-3) by simp_all
    have "\<exists>j \<le> k. solve_loop sha256 lo hi d ?b (of_nat (Suc n)) =
        Some (Inr (take lo body @ to_be_u64 (of_nat (Suc n + j)) @ drop hi body)) \<and>
      verify sha256 (take lo body @ to_be_u64 (of_nat (Suc n + j)) @ drop hi body) d"
      using Suc.IH [of ?b "Suc n"] Suc.prems parts by simp
    then obtain j where "j \<le> k"
      and j: "solve_loop sha256 lo hi d ?b (of_nat (Suc n)) =
        Some (Inr (take lo body @ to_be_u64 (of_nat (Suc n + j)) @ drop hi body))"
        "verify sha256 (take lo body @ to_be_u64 (of_nat (Suc n + j)) @ drop hi body) d"
      by blast
    moreover have "solve_loop sha256 lo hi d body (of_nat n) =
        solve_loop sha256 lo hi d ?b (of_nat (Suc n))"
      using False Suc.prems(1-3)
      by (subst solve_loop.simps) (simp add: set_nonce_def add.commute)
    ultimately show ?thesis
      by (intro exI [of _ "Suc j"]) simp
  qed
qed

text \<open>The whole search: the result is the body with some nonce in place, or the body itself.\<close>

lemma solve_finds:
  assumes "lo + 8 \<le> length body" and "n < 2 ^ 64"
    and "verify sha256 (take lo body @ to_be_u64 (of_nat n) @ drop (lo + 8) body) d"
  shows "\<exists>w. length w = 8 \<and>
    solve sha256 body lo (lo + 8) d = Some (Inr (take lo body @ w @ drop (lo + 8) body)) \<and>
    verify sha256 (take lo body @ w @ drop (lo + 8) body) d"
proof (cases "min d 24 = 0")
  case True
  have "body = take lo body @ subslice lo (lo + 8) body @ drop (lo + 8) body"
    using subslice_split [of lo "lo + 8" body] by (metis append_take_drop_id le_add1)
  with True assms(1) show ?thesis
    by (intro exI [of _ "subslice lo (lo + 8) body"]) (simp add: solve_def verify_def)
next
  case False
  have capped: "verify sha256 b (min d 24) = verify sha256 b d" for b
    by (simp add: verify_def)
  with assms solve_loop_finds [of lo "lo + 8" body sha256 0 n "min d 24"]
  obtain j where "solve_loop sha256 lo (lo + 8) (min d 24) body 0 =
      Some (Inr (take lo body @ to_be_u64 (of_nat j) @ drop (lo + 8) body))"
    and "verify sha256 (take lo body @ to_be_u64 (of_nat j) @ drop (lo + 8) body) d"
    by auto
  with assms(1) False show ?thesis
    by (intro exI [of _ "to_be_u64 (of_nat j)"]) (simp add: solve_def Let_def)
qed

section \<open>Properties\<close>

text \<open>
  C15: for a 32-byte digest that is not all zeros, the puzzle test accepts exactly when the digest
  read as a big-endian number is below \<open>2 ^ (256 - difficulty)\<close>, with the difficulty capped at 24.
\<close>

theorem verify_target:
  assumes "length (sha256 body) = 32" and "\<exists>b \<in> set (sha256 body). b \<noteq> 0"
  shows "verify sha256 body d \<longleftrightarrow> be_decode (sha256 body) < 2 ^ (256 - min (unat d) 24)"
proof -
  from assms have less: "zero_bits (sha256 body) < 256"
    using zero_bits_nonzero [of "sha256 body"] by simp
  have "be_decode (sha256 body) < 2 ^ 256"
    using be_decode_less [of "sha256 body"] assms(1) by simp
  moreover have "unat (min d 24) = min (unat d) 24"
    by (simp add: unat_min_u8)
  moreover have "min d 24 \<le> leading_zero_bits (sha256 body) \<longleftrightarrow>
      min (unat d) 24 \<le> zero_bits (sha256 body)"
    using less by (simp add: word_le_nat_alt unat_min_u8 unat_leading_zero_bits)
  moreover have "min (unat d) 24 \<le> zero_bits (sha256 body) \<longleftrightarrow>
      be_decode (sha256 body) < 2 ^ (256 - min (unat d) 24)"
    using zero_bits_target [of "min (unat d) 24" "sha256 body"] assms(1) by simp
  ultimately show ?thesis
    by (auto simp: verify_def Let_def)
qed

theorem verify_target_witness:
  "verify (\<lambda>b. 0 # 1 # replicate 30 0) [] 12 \<longleftrightarrow>
     be_decode (0 # 1 # replicate 30 0) < 2 ^ (256 - min (unat (12 :: u8)) 24)"
  by (rule verify_target) simp_all

text \<open>
  C14: the search returns a body that passes the test and agrees with the input outside the nonce
  field, as soon as any of the \<open>2 ^ 64\<close> nonces solves the puzzle.
\<close>

theorem solve_returns:
  assumes "lo + 8 \<le> length body" and "n < 2 ^ 64"
    and "verify sha256 (take lo body @ to_be_u64 (of_nat n) @ drop (lo + 8) body) d"
  shows "\<exists>b. solve sha256 body lo (lo + 8) d = Some (Inr b) \<and> verify sha256 b d \<and>
    length b = length body \<and> take lo b = take lo body \<and> drop (lo + 8) b = drop (lo + 8) body"
  using solve_finds [OF assms] assms(1) by auto

theorem solve_returns_witness:
  "\<exists>b. solve (\<lambda>b. drop 7 b @ replicate 31 0) (replicate 8 0) 0 (0 + 8) 1 = Some (Inr b) \<and>
     verify (\<lambda>b. drop 7 b @ replicate 31 0) b 1 \<and> length b = length (replicate 8 (0 :: byte)) \<and>
     take 0 b = take 0 (replicate 8 0) \<and> drop (0 + 8) b = drop (0 + 8) (replicate 8 0)"
  by (rule solve_returns [of 0 _ 1])
    (simp_all add: verify_def leading_zero_bits_def to_be_u64_def leading_zeros_def)

text \<open>
  C18: an all-zero 32-byte digest, the best possible solution, is refused at every positive
  difficulty: its 256 zero bits wrap the \<^verbatim>\<open>u8\<close> counter back to zero.
\<close>

theorem verify_zero_digest_refused:
  assumes "sha256 body = replicate 32 0" and "0 < d"
  shows "\<not> verify sha256 body d"
proof -
  have "leading_zero_bits (replicate 32 0) = 0"
    by (simp add: leading_zero_bits_def leading_zero_bits_loop_eq zero_bits_replicate)
  moreover have "min d 24 \<noteq> 0"
    using assms(2) by (auto simp: min_def)
  ultimately show ?thesis
    using assms(1) by (auto simp: verify_def Let_def)
qed

theorem verify_zero_digest_refused_witness: "\<not> verify (\<lambda>b. replicate 32 0) [] 1"
  by (rule verify_zero_digest_refused) simp_all

end
