(* ===== verification/Esp_Replay.thy ===== *)
theory Esp_Replay
  imports Esp_Prelude
begin

text \<open>
  The replay cache of \<^verbatim>\<open>protocol/replay.rs\<close>: a set of identifiers seen within a time window and the
  queue of their insertion times. Times are \<^verbatim>\<open>i64\<close> seconds, written as \<open>int\<close> with the overflow of
  \<^verbatim>\<open>checked_sub\<close> explicit. The wall clock is an argument of every call and may go backwards.

  Shown: the queue stays sorted and agrees with the set; pruning, which stops at the first live
  entry, removes exactly the expired entries; a call is accepted exactly when its identifiers are
  not live; and, through the interface \<open>replay_guard\<close>, no two accepted calls of any run of calls
  share an identifier within the window.
\<close>

section \<open>State and operations\<close>

datatype ReplayKey = EphemeralPublicKey bytes | FirstPacketDigest bytes

record ReplayCache =
  ttl_secs :: int
  seen :: "ReplayKey set"
  order :: "(int \<times> ReplayKey) list"

definition replay_new :: "int \<Rightarrow> ReplayCache" where
  "replay_new ttl = \<lparr>ttl_secs = max ttl 0, seen = {}, order = []\<rparr>"

definition checked_sub_i64 :: "int \<Rightarrow> int \<Rightarrow> int option" where
  "checked_sub_i64 a b = (if i64_min \<le> a - b \<and> a - b \<le> i64_max then Some (a - b) else None)"

definition expired :: "int \<Rightarrow> int \<Rightarrow> int \<Rightarrow> bool" where
  "expired ttl now inserted_at \<longleftrightarrow>
     now \<ge> inserted_at \<and>
     (case checked_sub_i64 now inserted_at of None \<Rightarrow> True | Some age \<Rightarrow> age > ttl)"

fun prune_loop ::
  "int \<Rightarrow> int \<Rightarrow> (int \<times> ReplayKey) list \<Rightarrow> ReplayKey set \<Rightarrow> (int \<times> ReplayKey) list \<times> ReplayKey set"
where
  "prune_loop ttl now [] s = ([], s)"
| "prune_loop ttl now ((t, k) # q) s =
     (if expired ttl now t then prune_loop ttl now q (s - {k}) else ((t, k) # q, s))"

definition prune :: "int \<Rightarrow> ReplayCache \<Rightarrow> ReplayCache" where
  "prune now c =
     (case prune_loop (ttl_secs c) now (order c) (seen c) of
        (q, s) \<Rightarrow> c\<lparr>order := q, seen := s\<rparr>)"

definition insertion_time :: "int \<Rightarrow> ReplayCache \<Rightarrow> int" where
  "insertion_time now c = (if order c = [] then now else max now (fst (last (order c))))"

definition record_key :: "int \<Rightarrow> ReplayKey \<Rightarrow> ReplayCache \<Rightarrow> ReplayCache" where
  "record_key inserted_at k c = c\<lparr>seen := insert k (seen c), order := order c @ [(inserted_at, k)]\<rparr>"

definition check_and_insert_key :: "int \<Rightarrow> ReplayKey \<Rightarrow> (ReplayCache, unit) io" where
  "check_and_insert_key now k c =
     (let c = prune now c in
      if k \<in> seen c then (Inl (Bail ''replayed key''), c)
      else (Inr (), record_key (insertion_time now c) k c))"

definition map_err :: "error \<Rightarrow> ('s, 'a) io \<Rightarrow> ('s, 'a) io" where
  "map_err e m s = (case m s of (Inl _, t) \<Rightarrow> (Inl e, t) | (Inr a, t) \<Rightarrow> (Inr a, t))"

definition check_and_insert_ephemeral_public_key :: "int \<Rightarrow> bytes \<Rightarrow> (ReplayCache, unit) io" where
  "check_and_insert_ephemeral_public_key now pk =
     map_err (Bail ''replayed ephemeral public key'')
       (check_and_insert_key now (EphemeralPublicKey pk))"

definition check_and_insert :: "int \<Rightarrow> bytes \<Rightarrow> (ReplayCache, unit) io" where
  "check_and_insert now pk = check_and_insert_ephemeral_public_key now pk"

definition check_and_insert_first_packet_digest :: "int \<Rightarrow> bytes \<Rightarrow> (ReplayCache, unit) io" where
  "check_and_insert_first_packet_digest now digest =
     map_err (Bail ''replayed first packet digest'')
       (check_and_insert_key now (FirstPacketDigest digest))"

definition check_and_insert_handshake :: "int \<Rightarrow> bytes \<Rightarrow> bytes \<Rightarrow> (ReplayCache, unit) io" where
  "check_and_insert_handshake now digest public_key c =
     (let c = prune now c;
          inserted_at = insertion_time now c;
          digest_key = FirstPacketDigest digest;
          public_key_key = EphemeralPublicKey public_key
      in if digest_key \<in> seen c then (Inl (Bail ''replayed first packet digest''), c)
         else if public_key_key \<in> seen c then (Inl (Bail ''replayed ephemeral public key''), c)
         else (Inr (), record_key inserted_at public_key_key (record_key inserted_at digest_key c)))"

section \<open>The invariant\<close>

definition replay_wf :: "ReplayCache \<Rightarrow> bool" where
  "replay_wf c \<longleftrightarrow>
     0 \<le> ttl_secs c \<and> sorted (map fst (order c)) \<and> distinct (map snd (order c)) \<and>
     seen c = snd ` set (order c)"

text \<open>The identifiers that still count at a given time.\<close>

definition live :: "int \<Rightarrow> ReplayCache \<Rightarrow> ReplayKey set" where
  "live now c = {k. \<exists>t. (t, k) \<in> set (order c) \<and> \<not> expired (ttl_secs c) now t}"

lemma expired_iff: "0 \<le> ttl \<Longrightarrow> ttl \<le> i64_max \<Longrightarrow> expired ttl now t \<longleftrightarrow> ttl < now - t"
  by (auto simp: expired_def checked_sub_i64_def i64_min_def i64_max_def)

lemma expired_antimono: "t \<le> u \<Longrightarrow> expired ttl now u \<Longrightarrow> expired ttl now t"
  by (auto simp: expired_def checked_sub_i64_def i64_min_def i64_max_def split: if_splits)

lemma not_expired_within: "now \<le> t + ttl \<Longrightarrow> 0 \<le> ttl \<Longrightarrow> ttl \<le> i64_max \<Longrightarrow> \<not> expired ttl now t"
  by (simp add: expired_iff)

lemma prune_loop_order:
  "sorted (map fst q) \<Longrightarrow> fst (prune_loop ttl now q s) = filter (\<lambda>(t, k). \<not> expired ttl now t) q"
proof (induction ttl now q s rule: prune_loop.induct)
  case (2 ttl now t k q s)
  show ?case
  proof (cases "expired ttl now t")
    case True
    with 2 show ?thesis by simp
  next
    case False
    have "\<not> expired ttl now u" if "(u, j) \<in> set q" for u j
      using that "2.prems" False expired_antimono [of t u ttl now] by force
    then have "filter (\<lambda>(t, k). \<not> expired ttl now t) q = q"
      by (auto simp: filter_id_conv)
    with False show ?thesis by simp
  qed
qed simp

lemma prune_loop_seen:
  "distinct (map snd q) \<Longrightarrow> s = snd ` set q \<Longrightarrow>
     snd (prune_loop ttl now q s) = snd ` set (fst (prune_loop ttl now q s))"
proof (induction ttl now q s rule: prune_loop.induct)
  case (2 ttl now t k q s)
  then have "s - {k} = snd ` set q"
    by force
  with 2 show ?case by simp
qed simp

lemma prune_simps:
  "order (prune now c) = fst (prune_loop (ttl_secs c) now (order c) (seen c))"
  "seen (prune now c) = snd (prune_loop (ttl_secs c) now (order c) (seen c))"
  by (simp_all add: prune_def split_beta)

lemma prune_ttl [simp]: "ttl_secs (prune now c) = ttl_secs c"
  by (simp add: prune_def split_beta)

lemma prune_order:
  "replay_wf c \<Longrightarrow> order (prune now c) = filter (\<lambda>(t, k). \<not> expired (ttl_secs c) now t) (order c)"
  by (simp add: prune_simps prune_loop_order replay_wf_def)

lemma record_key_simps [simp]:
  "ttl_secs (record_key t k c) = ttl_secs c"
  "seen (record_key t k c) = insert k (seen c)"
  "order (record_key t k c) = order c @ [(t, k)]"
  by (simp_all add: record_key_def)

lemma sorted_map_filter: "sorted (map f xs) \<Longrightarrow> sorted (map f (filter P xs))"
  by (induction xs) auto

lemma prune_wf:
  assumes "replay_wf c"
  shows "replay_wf (prune now c)"
proof -
  from assms have "seen (prune now c) = snd ` set (order (prune now c))"
    unfolding prune_simps by (intro prune_loop_seen) (simp_all add: replay_wf_def)
  moreover from assms have "sorted (map fst (order (prune now c)))"
    and "distinct (map snd (order (prune now c)))"
    unfolding prune_order [OF assms] replay_wf_def
    by (blast intro: sorted_map_filter distinct_map_filter)+
  ultimately show ?thesis
    using assms by (simp add: replay_wf_def)
qed

lemma prune_seen: "replay_wf c \<Longrightarrow> seen (prune now c) = live now c"
  using prune_wf [of c now] unfolding replay_wf_def [of "prune now c"]
  by (auto simp: prune_order live_def image_iff)

lemma insertion_time_last:
  "replay_wf c \<Longrightarrow> (t, k) \<in> set (order c) \<Longrightarrow> t \<le> insertion_time now c"
  by (cases "order c" rule: rev_cases)
    (auto simp: replay_wf_def insertion_time_def sorted_append max_def)

lemma insertion_time_ge: "now \<le> insertion_time now c"
  by (simp add: insertion_time_def)

lemma record_key_wf:
  assumes "replay_wf c" and "k \<notin> seen c" and "\<forall>(u, j) \<in> set (order c). u \<le> t"
  shows "replay_wf (record_key t k c)"
  using assms by (auto simp: replay_wf_def sorted_append)

lemma record_now_wf:
  "replay_wf c \<Longrightarrow> k \<notin> seen c \<Longrightarrow> replay_wf (record_key (insertion_time now c) k c)"
  by (rule record_key_wf) (auto intro: insertion_time_last)

lemma replay_new_wf: "replay_wf (replay_new ttl)"
  by (simp add: replay_new_def replay_wf_def)

lemma check_and_insert_key_wf: "replay_wf c \<Longrightarrow> replay_wf (snd (check_and_insert_key now k c))"
  by (simp add: check_and_insert_key_def Let_def prune_wf record_now_wf)

lemma map_err_snd [simp]: "snd (map_err e m s) = snd (m s)"
  by (simp add: map_err_def split: prod.splits sum.splits)

lemma map_err_Inr [simp]: "map_err e m s = (Inr a, t) \<longleftrightarrow> m s = (Inr a, t)"
  by (simp add: map_err_def split: prod.splits sum.splits)

lemma map_err_fst_Inl [simp]: "isl (fst (map_err e m s)) \<longleftrightarrow> isl (fst (m s))"
  by (simp add: map_err_def split: prod.splits sum.splits)

lemma check_and_insert_handshake_wf:
  assumes "replay_wf c"
  shows "replay_wf (snd (check_and_insert_handshake now d p c))"
proof -
  let ?c = "prune now c" and ?t = "insertion_time now (prune now c)"
  from assms have wf: "replay_wf ?c" by (rule prune_wf)
  have "replay_wf (record_key ?t (EphemeralPublicKey p) (record_key ?t (FirstPacketDigest d) ?c))"
    if "FirstPacketDigest d \<notin> seen ?c" and "EphemeralPublicKey p \<notin> seen ?c"
  proof (rule record_key_wf)
    from wf that(1) show "replay_wf (record_key ?t (FirstPacketDigest d) ?c)"
      by (rule record_now_wf)
    show "\<forall>(u, j) \<in> set (order (record_key ?t (FirstPacketDigest d) ?c)). u \<le> ?t"
      using insertion_time_last [OF wf] by auto
  qed (use that in simp)
  with wf show ?thesis
    by (simp add: check_and_insert_handshake_def Let_def)
qed

section \<open>What a call answers\<close>

lemma check_and_insert_key_result:
  "replay_wf c \<Longrightarrow> fst (check_and_insert_key now k c) =
     (if k \<in> live now c then Inl (Bail ''replayed key'') else Inr ())"
  by (simp add: check_and_insert_key_def Let_def prune_seen)

lemma handshake_result:
  "replay_wf c \<Longrightarrow> fst (check_and_insert_handshake now d p c) =
     (if FirstPacketDigest d \<in> live now c then Inl (Bail ''replayed first packet digest'')
      else if EphemeralPublicKey p \<in> live now c then Inl (Bail ''replayed ephemeral public key'')
      else Inr ())"
  by (simp add: check_and_insert_handshake_def Let_def prune_seen)

lemma handshake_reject_no_insert:
  "fst (check_and_insert_handshake now d p c) = Inl e \<Longrightarrow>
     snd (check_and_insert_handshake now d p c) = prune now c"
  by (simp add: check_and_insert_handshake_def Let_def split: if_splits)

section \<open>The interface the handshake relies on\<close>

text \<open>
  A guard answers a call, made at some clock reading, that presents a set of identifiers.
  \<open>protected c u k\<close> says that \<open>k\<close> is refused at every clock reading up to \<open>u\<close>. The laws: an
  accepted call protects its identifiers for the length of the window; a call at a clock reading
  not beyond \<open>u\<close>, accepted or not, keeps what is protected up to \<open>u\<close>; and a protected
  identifier is refused.
\<close>

fun guard_run :: "(int \<Rightarrow> 'a \<Rightarrow> ('c, unit) io) \<Rightarrow> (int \<times> 'a) list \<Rightarrow> 'c \<Rightarrow> 'c" where
  "guard_run check [] c = c"
| "guard_run check ((now, a) # calls) c = guard_run check calls (snd (check now a c))"

lemma guard_run_Cons:
  "guard_run check (x # calls) c = guard_run check calls (snd (check (fst x) (snd x) c))"
  by (cases x) simp

locale replay_guard =
  fixes check :: "int \<Rightarrow> 'a \<Rightarrow> ('c, unit) io"
    and keys :: "'a \<Rightarrow> 'k set"
    and inv :: "'c \<Rightarrow> bool"
    and window :: "'c \<Rightarrow> int"
    and protected :: "'c \<Rightarrow> int \<Rightarrow> 'k \<Rightarrow> bool"
  assumes check_inv: "inv c \<Longrightarrow> inv (snd (check now a c))"
    and check_window: "window (snd (check now a c)) = window c"
    and accept_protects:
      "inv c \<Longrightarrow> check now a c = (Inr (), d) \<Longrightarrow> k \<in> keys a \<Longrightarrow> protected d (now + window c) k"
    and protected_kept:
      "inv c \<Longrightarrow> protected c u k \<Longrightarrow> now \<le> u \<Longrightarrow> protected (snd (check now a c)) u k"
    and protected_refused:
      "inv c \<Longrightarrow> protected c u k \<Longrightarrow> now \<le> u \<Longrightarrow> k \<in> keys a \<Longrightarrow> isl (fst (check now a c))"
begin

lemma run_inv: "inv c \<Longrightarrow> inv (guard_run check calls c)"
  by (induction calls arbitrary: c) (simp_all add: guard_run_Cons check_inv)

lemma run_protected:
  "inv c \<Longrightarrow> protected c u k \<Longrightarrow> \<forall>(now, a) \<in> set calls. now \<le> u \<Longrightarrow>
     protected (guard_run check calls c) u k"
proof (induction calls arbitrary: c)
  case (Cons x calls)
  obtain now a where x: "x = (now, a)" by (cases x)
  from Cons.prems x have "inv (snd (check now a c))" and "protected (snd (check now a c)) u k"
    by (auto intro: check_inv protected_kept)
  with Cons x show ?case by simp
qed simp

text \<open>
  After an accepted call, and whatever calls follow, a call that presents one of its identifiers
  again is refused, as long as no clock reading in between leaves the window.
\<close>

lemma no_replay_in_window:
  assumes "inv c" and "check t0 a c = (Inr (), d)"
    and "\<forall>(now, x) \<in> set calls. now \<le> t0 + window c" and "t1 \<le> t0 + window c"
    and "keys a \<inter> keys b \<noteq> {}"
  shows "isl (fst (check t1 b (guard_run check calls d)))"
proof -
  from assms(5) obtain k where k: "k \<in> keys a" "k \<in> keys b" by auto
  from assms(1,2) have d: "inv d" using check_inv [of c t0 a] by simp
  from assms(1,2) k(1) have "protected d (t0 + window c) k" by (rule accept_protects)
  with d assms(3) have "protected (guard_run check calls d) (t0 + window c) k"
    by (intro run_protected)
  with d assms(4) k(2) show ?thesis
    by (intro protected_refused [OF run_inv])
qed

end

text \<open>The cache provides the interface for a single identifier and for a whole handshake.\<close>

definition replay_inv :: "ReplayCache \<Rightarrow> bool" where
  "replay_inv c \<longleftrightarrow> replay_wf c \<and> ttl_secs c \<le> i64_max"

definition replay_protected :: "ReplayCache \<Rightarrow> int \<Rightarrow> ReplayKey \<Rightarrow> bool" where
  "replay_protected c u k \<longleftrightarrow> (\<exists>t. (t, k) \<in> set (order c) \<and> u \<le> t + ttl_secs c)"

lemma replay_new_inv: "ttl \<le> i64_max \<Longrightarrow> replay_inv (replay_new ttl)"
  by (simp add: replay_inv_def replay_new_wf) (simp add: replay_new_def i64_max_def)

lemma protected_live:
  "replay_inv c \<Longrightarrow> replay_protected c u k \<Longrightarrow> now \<le> u \<Longrightarrow> k \<in> live now c"
  unfolding replay_inv_def replay_wf_def replay_protected_def live_def
  by (fastforce simp: expired_iff)

lemma protected_prune:
  "replay_inv c \<Longrightarrow> replay_protected c u k \<Longrightarrow> now \<le> u \<Longrightarrow> replay_protected (prune now c) u k"
proof -
  assume inv: "replay_inv c" and prot: "replay_protected c u k" and le: "now \<le> u"
  from prot obtain t where t: "(t, k) \<in> set (order c)" "u \<le> t + ttl_secs c"
    by (auto simp: replay_protected_def)
  with inv le have "\<not> expired (ttl_secs c) now t"
    by (auto simp: replay_inv_def replay_wf_def expired_iff)
  with inv t show ?thesis
    by (auto simp: replay_protected_def replay_inv_def prune_order)
qed

lemma protected_record: "replay_protected c u k \<Longrightarrow> replay_protected (record_key t j c) u k"
  by (auto simp: replay_protected_def)

lemma protected_record_now:
  "now \<le> t \<Longrightarrow> replay_protected (record_key t k c) (now + ttl_secs c) k"
  by (auto simp: replay_protected_def)

lemma handshake_ttl [simp]:
  "ttl_secs (snd (check_and_insert_handshake now d p c)) = ttl_secs c"
  by (simp add: check_and_insert_handshake_def Let_def)

lemma check_key_ttl [simp]: "ttl_secs (snd (check_and_insert_key now k c)) = ttl_secs c"
  by (simp add: check_and_insert_key_def Let_def)

interpretation key_guard: replay_guard check_and_insert_key "\<lambda>k. {k}" replay_inv ttl_secs
  replay_protected
proof (unfold_locales, goal_cases)
  case (1 c now k) then show ?case by (simp add: replay_inv_def check_and_insert_key_wf)
next
  case (2 now k c) show ?case by simp
next
  case (3 c now a d k) then show ?case
    using protected_record_now [of now "insertion_time now (prune now c)" a "prune now c"]
    by (auto simp: insertion_time_ge check_and_insert_key_def Let_def split: if_splits)
next
  case (4 c u k now a) then show ?case
    by (auto simp: check_and_insert_key_def Let_def intro: protected_prune protected_record)
next
  case (5 c u k now a) then show ?case
    using check_and_insert_key_result [of c now a] protected_live [of c u k now]
    by (auto simp: replay_inv_def)
qed
definition handshake_keys :: "bytes \<times> bytes \<Rightarrow> ReplayKey set" where
  "handshake_keys a = {FirstPacketDigest (fst a), EphemeralPublicKey (snd a)}"

definition hs_call :: "int \<Rightarrow> bytes \<times> bytes \<Rightarrow> (ReplayCache, unit) io" where
  "hs_call now a = check_and_insert_handshake now (fst a) (snd a)"

interpretation handshake_guard: replay_guard hs_call handshake_keys replay_inv ttl_secs
  replay_protected
proof (unfold_locales, goal_cases)
  case (1 c now a) then show ?case
    by (simp add: hs_call_def replay_inv_def check_and_insert_handshake_wf)
next
  case (2 now a c) show ?case by (simp add: hs_call_def)
next
  case (3 c now a d k) then show ?case
    using insertion_time_ge [of now "prune now c"]
    by (auto simp: hs_call_def check_and_insert_handshake_def Let_def handshake_keys_def
        replay_protected_def split: if_splits)
next
  case (4 c u k now a) then show ?case
    by (auto simp: hs_call_def check_and_insert_handshake_def Let_def
        intro: protected_prune protected_record)
next
  case (5 c u k now a) then show ?case
    using handshake_result [of c now "fst a" "snd a"] protected_live [of c u k now]
    by (auto simp: hs_call_def replay_inv_def handshake_keys_def)
qed

section \<open>Properties\<close>

text \<open>
  No replay within the window. After an accepted handshake, and any further handshakes,
  accepted or refused, a handshake that repeats its first-packet digest or its ephemeral public
  key is refused, provided the clock readings of the calls, which may go backwards, stay within
  the window of the accepted one.
\<close>

lemma handshake_replay_refused:
  assumes "replay_wf c" and "ttl_secs c \<le> i64_max"
    and "check_and_insert_handshake t0 dg pk c = (Inr (), d)"
    and "\<forall>(now, x) \<in> set calls. now \<le> t0 + ttl_secs c" and "t1 \<le> t0 + ttl_secs c"
    and "dg' = dg \<or> pk' = pk"
  shows "isl (fst (check_and_insert_handshake t1 dg' pk' (guard_run hs_call calls d)))"
  using handshake_guard.no_replay_in_window [of c t0 "(dg, pk)" d calls t1 "(dg', pk')"] assms
  by (auto simp: replay_inv_def handshake_keys_def hs_call_def [of t0] hs_call_def [of t1])

lemma handshake_replay_refused_witness:
  "isl (fst (check_and_insert_handshake 160 [1] [9]
     (guard_run hs_call [(130, ([3], [4])), (90, ([5], [6]))]
        (snd (check_and_insert_handshake 100 [1] [2] (replay_new 60))))))"
proof (rule handshake_replay_refused [of "replay_new 60" 100 "[1]" "[2]"])
  show "check_and_insert_handshake 100 [1] [2] (replay_new 60) =
      (Inr (), snd (check_and_insert_handshake 100 [1] [2] (replay_new 60)))"
    by (simp add: check_and_insert_handshake_def Let_def prune_def replay_new_def)
qed (simp_all add: replay_new_wf, simp_all add: replay_new_def i64_max_def)

text \<open>
  Pruning, which walks the queue from the front and stops at the first live entry, removes
  exactly the expired entries, and afterwards the set holds exactly the live identifiers: no
  expired entry is stranded behind a live one, even when the clock went backwards.
\<close>

lemma prune_exact:
  assumes "replay_wf c"
  shows "order (prune now c) = filter (\<lambda>(t, k). \<not> expired (ttl_secs c) now t) (order c) \<and>
    seen (prune now c) = live now c \<and> replay_wf (prune now c)"
  using assms by (simp add: prune_order prune_seen prune_wf)

lemma prune_exact_witness:
  "order (prune 11 \<lparr>ttl_secs = 5, seen = {EphemeralPublicKey [1], EphemeralPublicKey [2]},
      order = [(3, EphemeralPublicKey [1]), (6, EphemeralPublicKey [2])]\<rparr>) =
    [(6, EphemeralPublicKey [2])]"
  by (subst prune_exact [THEN conjunct1])
    (auto simp: replay_wf_def expired_def checked_sub_i64_def i64_min_def i64_max_def)

text \<open>
  A handshake is refused exactly when one of its identifiers is live, the digest being
  reported first; a refused handshake leaves the pruned cache, so it never leaves one half of its
  identifiers behind; and the cache stays well-formed.
\<close>

lemma handshake_outcome:
  assumes "replay_wf c"
  shows "fst (check_and_insert_handshake now dg pk c) =
      (if FirstPacketDigest dg \<in> live now c then Inl (Bail ''replayed first packet digest'')
       else if EphemeralPublicKey pk \<in> live now c then Inl (Bail ''replayed ephemeral public key'')
       else Inr ()) \<and>
    seen (snd (check_and_insert_handshake now dg pk c)) =
      (if FirstPacketDigest dg \<in> live now c \<or> EphemeralPublicKey pk \<in> live now c then live now c
       else live now c \<union> {FirstPacketDigest dg, EphemeralPublicKey pk}) \<and>
    replay_wf (snd (check_and_insert_handshake now dg pk c))"
proof (intro conjI)
  show "replay_wf (snd (check_and_insert_handshake now dg pk c))"
    using assms by (rule check_and_insert_handshake_wf)
qed (use assms in \<open>auto simp: check_and_insert_handshake_def Let_def prune_seen\<close>)

lemma handshake_outcome_witness:
  "fst (check_and_insert_handshake 5 [7] [8]
     (snd (check_and_insert_handshake 3 [1] [8] (replay_new 60)))) =
    Inl (Bail ''replayed ephemeral public key'')"
proof -
  let ?c = "snd (check_and_insert_handshake 3 [1] [8] (replay_new 60))"
  have "replay_wf ?c"
    by (intro check_and_insert_handshake_wf replay_new_wf)
  moreover have "order ?c = [(3, FirstPacketDigest [1]), (3, EphemeralPublicKey [8])]"
    and "ttl_secs ?c = 60"
    by (simp_all add: check_and_insert_handshake_def Let_def prune_def replay_new_def
        insertion_time_def record_key_def)
  then have "FirstPacketDigest [7] \<notin> live 5 ?c" and "EphemeralPublicKey [8] \<in> live 5 ?c"
    by (simp_all add: live_def expired_def checked_sub_i64_def i64_min_def i64_max_def)
  ultimately show ?thesis
    using handshake_outcome [of ?c 5 "[7]" "[8]"] by simp
qed

end
