(* ===== verification/Esp_Handshake.thy ===== *)
theory Esp_Handshake
  imports Esp_Crypto Esp_Puzzle Esp_Replay
begin

text \<open>
  The authenticated handshake of \<^verbatim>\<open>crypto/mod.rs\<close>, both sides, in its plain (variable-length
  envelope) and stealth (fixed-size block) forms, for one user or a list of users. Random draws and
  the readings of the clock are arguments, one for each reading of a side; the puzzle search may not
  return, so the client's side has an option type. The server works on its connection and its replay
  cache. Wiping the keys when a value is dropped and the redacting debug output are left out.
\<close>

section \<open>Constants and configuration\<close>

definition CLIENT_HELLO_TAG_LEN :: nat where
  "CLIENT_HELLO_TAG_LEN = 32"

definition CLIENT_HELLO_FIXED_BODY_LEN :: nat where
  "CLIENT_HELLO_FIXED_BODY_LEN = 8 + 24 + 32 + 2 + 8 + 8 + 2"

definition SERVER_HELLO_LEN :: nat where
  "SERVER_HELLO_LEN = 32 + 2 + 8 + 32"

definition MAX_HANDSHAKE_PADDING :: nat where
  "MAX_HANDSHAKE_PADDING = 1024"

definition STEALTH_HANDSHAKE_NONCE_LEN :: nat where
  "STEALTH_HANDSHAKE_NONCE_LEN = 24"

definition VARIABLE_HANDSHAKE_NONCE_LEN :: nat where
  "VARIABLE_HANDSHAKE_NONCE_LEN = 24"

definition VARIABLE_HANDSHAKE_LEN_LEN :: nat where
  "VARIABLE_HANDSHAKE_LEN_LEN = 4"

definition VARIABLE_HANDSHAKE_EXTRA_PADDING_MAX :: nat where
  "VARIABLE_HANDSHAKE_EXTRA_PADDING_MAX = 512"

definition PROTOCOL_VERSION :: u16 where
  "PROTOCOL_VERSION = 1"

definition CAP_TCP_CONNECT :: u64 where
  "CAP_TCP_CONNECT = 1"

definition CAP_UDP_ASSOCIATE :: u64 where
  "CAP_UDP_ASSOCIATE = 2"

definition CAP_MUX_YAMUX :: u64 where
  "CAP_MUX_YAMUX = 256"

definition CAP_MUX_NATIVE :: u64 where
  "CAP_MUX_NATIVE = 512"

definition DEFAULT_CAPABILITIES :: u64 where
  "DEFAULT_CAPABILITIES = CAP_TCP_CONNECT OR CAP_UDP_ASSOCIATE OR CAP_MUX_YAMUX"

lemmas hello_lens = CLIENT_HELLO_TAG_LEN_def CLIENT_HELLO_FIXED_BODY_LEN_def SERVER_HELLO_LEN_def
  STEALTH_HANDSHAKE_NONCE_LEN_def VARIABLE_HANDSHAKE_NONCE_LEN_def VARIABLE_HANDSHAKE_LEN_LEN_def

lemmas cap_defs = CAP_TCP_CONNECT_def CAP_UDP_ASSOCIATE_def CAP_MUX_YAMUX_def CAP_MUX_NATIVE_def

datatype MuxMode = Yamux | Native

record HandshakeWindow =
  w_enabled :: bool
  w_step_secs :: u64
  w_previous_windows :: u8
  w_future_windows :: u8

definition handshake_window_default :: HandshakeWindow where
  "handshake_window_default =
     \<lparr>w_enabled = True, w_step_secs = 30, w_previous_windows = 1, w_future_windows = 0\<rparr>"

record HandshakeConfig =
  h_psk :: bytes
  h_auth_key :: bytes
  h_window :: HandshakeWindow
  h_clock_skew_secs :: int
  h_max_handshake_padding :: nat
  h_puzzle_difficulty_bits :: u8
  h_stealth_frame_size :: "nat option"
  h_mux_mode :: MuxMode

definition handshake_config_new :: "prims \<Rightarrow> bytes \<Rightarrow> int \<Rightarrow> nat \<Rightarrow> u8 \<Rightarrow> HandshakeConfig" where
  "handshake_config_new p psk clock_skew_secs max_handshake_padding puzzle_difficulty_bits =
     \<lparr>h_psk = psk, h_auth_key = derive_auth_key p psk, h_window = handshake_window_default,
      h_clock_skew_secs = clock_skew_secs, h_max_handshake_padding = max_handshake_padding,
      h_puzzle_difficulty_bits = puzzle_difficulty_bits, h_stealth_frame_size = None,
      h_mux_mode = Yamux\<rparr>"

definition with_stealth_frame_size :: "nat option \<Rightarrow> HandshakeConfig \<Rightarrow> HandshakeConfig" where
  "with_stealth_frame_size frame_size cfg = cfg\<lparr>h_stealth_frame_size := frame_size\<rparr>"

definition with_mux_mode :: "MuxMode \<Rightarrow> HandshakeConfig \<Rightarrow> HandshakeConfig" where
  "with_mux_mode mode cfg = cfg\<lparr>h_mux_mode := mode\<rparr>"

definition with_handshake_window :: "HandshakeWindow \<Rightarrow> HandshakeConfig \<Rightarrow> HandshakeConfig" where
  "with_handshake_window window cfg = cfg\<lparr>h_window := window\<rparr>"

record HandshakeUser =
  u_name :: rstring
  u_config :: HandshakeConfig

section \<open>Clock and integers\<close>

text \<open>
  A release build wraps \<^verbatim>\<open>i64\<close> arithmetic. The clock is the whole seconds since the epoch, negative
  before it.
\<close>

definition i64_wrap :: "int \<Rightarrow> int" where
  "i64_wrap x = (x + 9223372036854775808) mod 18446744073709551616 - 9223372036854775808"

definition unix_now :: "int \<Rightarrow> int result" where
  "unix_now clock =
     (if clock < 0 then Inl (Bail ''system clock is before UNIX epoch'') else Inr (i64_wrap clock))"

definition to_be_i64 :: "int \<Rightarrow> bytes" where
  "to_be_i64 x = to_be_u64 (of_int x)"

definition from_be_i64 :: "bytes \<Rightarrow> int" where
  "from_be_i64 bs = i64_wrap (int (unat (from_be_u64 bs)))"

section \<open>Keys a configuration accepts\<close>

definition client_auth_key :: "prims \<Rightarrow> int \<Rightarrow> HandshakeConfig \<Rightarrow> bytes result" where
  "client_auth_key p clock cfg =
     (if \<not> w_enabled (h_window cfg) then Inr (h_auth_key cfg)
      else res_bind (unix_now clock) (\<lambda>now.
        res_bind (window_slot now (w_step_secs (h_window cfg))) (\<lambda>slot.
          Inr (derive_window_auth_key p (h_psk cfg) slot))))"

text \<open>The loops over the offsets of the previous and of the future windows.\<close>

definition previous_keys :: "prims \<Rightarrow> bytes \<Rightarrow> u64 \<Rightarrow> nat \<Rightarrow> bytes list" where
  "previous_keys p psk current n =
     map (\<lambda>offset. derive_window_auth_key p psk (current - of_nat offset))
       (filter (\<lambda>offset. offset \<le> unat current) [1..<Suc n])"

fun future_keys :: "prims \<Rightarrow> bytes \<Rightarrow> u64 \<Rightarrow> nat list \<Rightarrow> bytes list result" where
  "future_keys p psk current [] = Inr []"
| "future_keys p psk current (offset # rest) =
     (if unat current + offset > u64_max then Inl (Bail ''handshake window slot overflow'')
      else res_bind (future_keys p psk current rest) (\<lambda>ks.
        Inr (derive_window_auth_key p psk (current + of_nat offset) # ks)))"

definition accepted_auth_keys :: "prims \<Rightarrow> int \<Rightarrow> HandshakeConfig \<Rightarrow> bytes list result" where
  "accepted_auth_keys p now cfg =
     (if \<not> w_enabled (h_window cfg) then Inr [h_auth_key cfg]
      else res_bind (window_slot now (w_step_secs (h_window cfg))) (\<lambda>current.
        res_bind (future_keys p (h_psk cfg) current [1..<Suc (unat (w_future_windows (h_window cfg)))])
          (\<lambda>future.
            Inr (derive_window_auth_key p (h_psk cfg) current
                 # previous_keys p (h_psk cfg) current (unat (w_previous_windows (h_window cfg)))
                 @ future))))"

section \<open>Capabilities\<close>

definition supports_protocol_version :: "u16 \<Rightarrow> bool" where
  "supports_protocol_version version \<longleftrightarrow> version = PROTOCOL_VERSION"

definition mux_capability :: "MuxMode \<Rightarrow> u64" where
  "mux_capability mode = (case mode of Yamux \<Rightarrow> CAP_MUX_YAMUX | Native \<Rightarrow> CAP_MUX_NATIVE)"

definition handshake_capabilities :: "HandshakeConfig \<Rightarrow> u64" where
  "handshake_capabilities cfg = CAP_TCP_CONNECT OR CAP_UDP_ASSOCIATE OR mux_capability (h_mux_mode cfg)"

definition ensure_mux_capability :: "HandshakeConfig \<Rightarrow> u64 \<Rightarrow> string \<Rightarrow> unit result" where
  "ensure_mux_capability cfg peer_capabilities peer_label =
     (if peer_capabilities AND mux_capability (h_mux_mode cfg) = 0
      then Inl (Bail (peer_label @ '' does not support configured mux mode ''
                 @ (case h_mux_mode cfg of Yamux \<Rightarrow> ''Yamux'' | Native \<Rightarrow> ''Native'')
                 @ ''; check shared.mux.mode on both endpoints''))
      else Inr ())"

definition negotiated_capabilities :: "HandshakeConfig \<Rightarrow> u64 \<Rightarrow> u64 result" where
  "negotiated_capabilities cfg peer_capabilities =
     res_bind (ensure_mux_capability cfg peer_capabilities ''peer'') (\<lambda>_.
       Inr (handshake_capabilities cfg AND peer_capabilities))"

section \<open>Envelopes and blocks\<close>

text \<open>
  A random length below a bound is a draw of two bytes taken modulo the bound; random bytes are a
  function of the number asked for.
\<close>

definition random_padding_len :: "u16 \<Rightarrow> nat \<Rightarrow> nat" where
  "random_padding_len draw max_padding = (if max_padding = 0 then 0 else unat draw mod (max_padding + 1))"

record mask_draw =
  d_nonce :: bytes
  d_extra :: u16
  d_fill :: "nat \<Rightarrow> bytes"

definition draw_ok :: "mask_draw \<Rightarrow> bool" where
  "draw_ok d \<longleftrightarrow> length (d_nonce d) = 24 \<and> (\<forall>n. length (d_fill d n) = n)"

definition mask_variable_handshake_envelope ::
  "prims \<Rightarrow> bytes \<Rightarrow> string \<Rightarrow> bytes \<Rightarrow> bytes \<Rightarrow> nat \<Rightarrow> mask_draw \<Rightarrow> bytes result"
where
  "mask_variable_handshake_envelope p key label context clear max_extra_padding d =
     (let nonce = d_nonce d;
          extra_len = random_padding_len (d_extra d) max_extra_padding
      in if length clear + extra_len > usize_max
         then Inl (Bail ''handshake envelope payload length overflow'')
         else
           let payload = clear @ d_fill d extra_len;
               masked_len = xor_variable_handshake_len p key label context nonce
                 (to_be_u32 (of_nat (length clear + extra_len)));
               payload = xor_variable_handshake_payload p key label context nonce payload
           in Inr (nonce @ masked_len @ payload))"

definition ctx :: "string \<Rightarrow> ('s, 'a) io \<Rightarrow> ('s, 'a) io" where
  "ctx msg m = map_err (Bail msg) m"

definition read_variable_handshake_envelope ::
  "prims \<Rightarrow> bytes \<Rightarrow> string \<Rightarrow> bytes \<Rightarrow> nat \<Rightarrow> nat \<Rightarrow> (conn, bytes) io"
where
  "read_variable_handshake_envelope p key label context min_payload_len max_payload_len =
     io_bind (ctx ''handshake envelope nonce failed'' (read_exact VARIABLE_HANDSHAKE_NONCE_LEN)) (\<lambda>nonce.
     io_bind (ctx ''handshake envelope length failed'' (read_exact VARIABLE_HANDSHAKE_LEN_LEN)) (\<lambda>masked_len.
       let payload_len = unmask_variable_handshake_len p key label context nonce masked_len in
       if payload_len < min_payload_len \<or> payload_len > max_payload_len
       then io_fail (Bail ''handshake envelope length outside configured bounds'')
       else io_bind (ctx ''handshake envelope payload failed'' (read_exact payload_len)) (\<lambda>payload.
         io_return (xor_variable_handshake_payload p key label context nonce payload))))"

definition validate_stealth_handshake_frame :: "nat \<Rightarrow> unit result" where
  "validate_stealth_handshake_frame frame_size =
     (let min_client = STEALTH_HANDSHAKE_NONCE_LEN + CLIENT_HELLO_TAG_LEN + CLIENT_HELLO_FIXED_BODY_LEN;
          min_server = STEALTH_HANDSHAKE_NONCE_LEN + SERVER_HELLO_LEN
      in if frame_size < max min_client min_server
         then Inl (Bail ''shared.stealth.frame_size is too small for stealth handshake'')
         else Inr ())"

definition mask_stealth_handshake_block ::
  "prims \<Rightarrow> bytes \<Rightarrow> string \<Rightarrow> bytes \<Rightarrow> bytes \<Rightarrow> nat \<Rightarrow> mask_draw \<Rightarrow> bytes result"
where
  "mask_stealth_handshake_block p key label context clear frame_size d =
     res_bind (validate_stealth_handshake_frame frame_size) (\<lambda>_.
       if length clear + STEALTH_HANDSHAKE_NONCE_LEN > frame_size
       then Inl (Bail ''stealth handshake payload exceeds frame size'')
       else
         let nonce = d_nonce d;
             payload_len = frame_size - STEALTH_HANDSHAKE_NONCE_LEN;
             payload = clear @ drop (length clear) (d_fill d payload_len)
         in Inr (nonce @ xor_hmac_stream p key label nonce context payload))"

definition unmask_stealth_handshake_block :: "prims \<Rightarrow> bytes \<Rightarrow> string \<Rightarrow> bytes \<Rightarrow> bytes \<Rightarrow> bytes result" where
  "unmask_stealth_handshake_block p key label context block =
     (if length block \<le> STEALTH_HANDSHAKE_NONCE_LEN then Inl (Bail ''short stealth handshake block'')
      else
        let nonce = take STEALTH_HANDSHAKE_NONCE_LEN block in
        Inr (xor_hmac_stream p key label nonce context (drop STEALTH_HANDSHAKE_NONCE_LEN block)))"

definition stealth_client_padding_cap :: "HandshakeConfig \<Rightarrow> nat \<Rightarrow> nat result" where
  "stealth_client_padding_cap cfg frame_size =
     res_bind (validate_stealth_handshake_frame frame_size) (\<lambda>_.
       let used = STEALTH_HANDSHAKE_NONCE_LEN + CLIENT_HELLO_TAG_LEN + CLIENT_HELLO_FIXED_BODY_LEN in
       if frame_size < used
       then Inl (Bail ''shared.stealth.frame_size is too small for client handshake'')
       else Inr (min (min (h_max_handshake_padding cfg) MAX_HANDSHAKE_PADDING) (frame_size - used)))"

section \<open>The client's side\<close>

record ClientHelloMaterial =
  m_tag :: bytes
  m_body :: bytes
  m_nonce :: bytes
  m_wire :: bytes

record hello_draw =
  r_secret :: bytes
  r_nonce :: bytes
  r_padding_len :: u16
  r_fill :: "nat \<Rightarrow> bytes"

definition hello_draw_ok :: "hello_draw \<Rightarrow> bool" where
  "hello_draw_ok r \<longleftrightarrow> length (r_nonce r) = 24 \<and> (\<forall>n. length (r_fill r n) = n)"

text \<open>The body before the puzzle is solved; its bytes 74 to 81 are the puzzle's nonce.\<close>

definition hello_body :: "prims \<Rightarrow> HandshakeConfig \<Rightarrow> int \<Rightarrow> nat \<Rightarrow> hello_draw \<Rightarrow> bytes" where
  "hello_body p cfg now max_padding r =
     (let padding_len = random_padding_len (r_padding_len r) (min max_padding MAX_HANDSHAKE_PADDING)
      in to_be_i64 now @ r_nonce r @ public_key p (r_secret r) @ to_be_u16 PROTOCOL_VERSION
         @ to_be_u64 (handshake_capabilities cfg) @ to_be_u64 0 @ to_be_u16 (of_nat padding_len)
         @ r_fill r padding_len)"

definition build_client_hello ::
  "prims \<Rightarrow> int \<Rightarrow> HandshakeConfig \<Rightarrow> nat \<Rightarrow> bytes \<Rightarrow> hello_draw \<Rightarrow> ClientHelloMaterial result option"
where
  "build_client_hello p clock cfg max_padding auth_key r =
     (case unix_now clock of
        Inl e \<Rightarrow> Some (Inl e)
      | Inr now \<Rightarrow>
          (case solve (sha256 p) (hello_body p cfg now max_padding r) 74 82 (h_puzzle_difficulty_bits cfg) of
             None \<Rightarrow> None
           | Some (Inl e) \<Rightarrow> Some (Inl e)
           | Some (Inr body) \<Rightarrow>
               let tag = hmac_sha256 p auth_key body in
               Some (Inr \<lparr>m_tag = tag, m_body = body, m_nonce = r_nonce r, m_wire = tag @ body\<rparr>)))"

definition finish_client_handshake ::
  "prims \<Rightarrow> HandshakeConfig \<Rightarrow> bytes \<Rightarrow> bytes \<Rightarrow> bytes \<Rightarrow> bytes \<Rightarrow> bytes \<Rightarrow> SessionKeys result"
where
  "finish_client_handshake p cfg auth_key secret body nonce reply =
     (let server_public = take 32 reply;
          server_version = from_be_u16 (subslice 32 34 reply);
          server_capabilities = from_be_u64 (subslice 34 42 reply)
      in if \<not> supports_protocol_version server_version
         then Inl (BailNum ''unsupported server protocol version'' (unat server_version))
         else if server_capabilities AND CAP_TCP_CONNECT = 0
         then Inl (Bail ''server does not support TCP CONNECT'')
         else res_bind (ensure_mux_capability cfg server_capabilities ''server'') (\<lambda>_.
           if server_hmac p auth_key body server_public server_version server_capabilities
                \<noteq> subslice 42 SERVER_HELLO_LEN reply
           then Inl (Bail ''server authentication failed'')
           else Inr (derive_keys p (h_psk cfg) (diffie_hellman p secret server_public) nonce
                       (ascii ''client''))))"

definition connect_plain_handshake ::
  "prims \<Rightarrow> int \<Rightarrow> int \<Rightarrow> HandshakeConfig \<Rightarrow> hello_draw \<Rightarrow> mask_draw \<Rightarrow> conn \<Rightarrow> (SessionKeys result \<times> conn) option"
where
  "connect_plain_handshake p clock clock' cfg r d c =
     (case client_auth_key p clock cfg of
        Inl e \<Rightarrow> Some (Inl e, c)
      | Inr auth_key \<Rightarrow>
          (case build_client_hello p clock' cfg (h_max_handshake_padding cfg) auth_key r of
             None \<Rightarrow> None
           | Some (Inl e) \<Rightarrow> Some (Inl e, c)
           | Some (Inr hello) \<Rightarrow>
               Some (io_bind (io_result (mask_variable_handshake_envelope p auth_key ''plain-client'' []
                        (m_wire hello) VARIABLE_HANDSHAKE_EXTRA_PADDING_MAX d)) (\<lambda>envelope.
                 io_then (write_all envelope)
                 (io_bind (ctx ''server handshake failed''
                    (read_variable_handshake_envelope p auth_key ''plain-server'' (m_tag hello)
                       SERVER_HELLO_LEN (SERVER_HELLO_LEN + VARIABLE_HANDSHAKE_EXTRA_PADDING_MAX)))
                    (\<lambda>reply_payload.
                      if length reply_payload < SERVER_HELLO_LEN
                      then io_fail (Bail ''short server handshake reply'')
                      else io_result (finish_client_handshake p cfg auth_key (r_secret r)
                             (m_body hello) (m_nonce hello) (take SERVER_HELLO_LEN reply_payload))))) c)))"

definition connect_stealth_handshake ::
  "prims \<Rightarrow> int \<Rightarrow> int \<Rightarrow> HandshakeConfig \<Rightarrow> nat \<Rightarrow> hello_draw \<Rightarrow> mask_draw \<Rightarrow> conn \<Rightarrow> (SessionKeys result \<times> conn) option"
where
  "connect_stealth_handshake p clock clock' cfg frame_size r d c =
     (case res_bind (stealth_client_padding_cap cfg frame_size) (\<lambda>max_padding.
             res_bind (client_auth_key p clock cfg) (\<lambda>auth_key. Inr (max_padding, auth_key))) of
        Inl e \<Rightarrow> Some (Inl e, c)
      | Inr (max_padding, auth_key) \<Rightarrow>
          (case build_client_hello p clock' cfg max_padding auth_key r of
             None \<Rightarrow> None
           | Some (Inl e) \<Rightarrow> Some (Inl e, c)
           | Some (Inr hello) \<Rightarrow>
               Some (io_bind (io_result (mask_stealth_handshake_block p auth_key ''client-hello'' []
                        (m_wire hello) frame_size d)) (\<lambda>block.
                 io_then (write_all block)
                 (io_bind (ctx ''stealth server handshake failed'' (read_exact frame_size)) (\<lambda>reply_block.
                  io_bind (io_result (unmask_stealth_handshake_block p auth_key ''server-hello''
                             (m_tag hello) reply_block)) (\<lambda>reply_plain.
                    io_result (finish_client_handshake p cfg auth_key (r_secret r) (m_body hello)
                       (m_nonce hello) (take SERVER_HELLO_LEN reply_plain)))))) c)))"

definition connect_handshake ::
  "prims \<Rightarrow> int \<Rightarrow> int \<Rightarrow> HandshakeConfig \<Rightarrow> hello_draw \<Rightarrow> mask_draw \<Rightarrow> conn \<Rightarrow> (SessionKeys result \<times> conn) option"
where
  "connect_handshake p clock clock' cfg r d c =
     (case h_stealth_frame_size cfg of
        Some frame_size \<Rightarrow> connect_stealth_handshake p clock clock' cfg frame_size r d c
      | None \<Rightarrow> connect_plain_handshake p clock clock' cfg r d c)"

section \<open>The server's side\<close>

record ParsedClientHello =
  c_tag :: bytes
  c_auth_key :: bytes
  c_fixed_body :: bytes
  c_body :: bytes
  c_first_packet_digest :: bytes

definition with_first_packet_digest :: "bytes \<Rightarrow> ParsedClientHello \<Rightarrow> ParsedClientHello" where
  "with_first_packet_digest digest h = h\<lparr>c_first_packet_digest := digest\<rparr>"

definition plain_client_hello_min_len :: nat where
  "plain_client_hello_min_len = CLIENT_HELLO_TAG_LEN + CLIENT_HELLO_FIXED_BODY_LEN"

definition plain_client_hello_max_len :: "nat \<Rightarrow> nat" where
  "plain_client_hello_max_len max_padding =
     plain_client_hello_min_len + min max_padding MAX_HANDSHAKE_PADDING
       + VARIABLE_HANDSHAKE_EXTRA_PADDING_MAX"

text \<open>The common part of the two parsers: the fixed fields and the padding up to \<open>cap\<close>.\<close>

definition parse_hello_fields :: "nat \<Rightarrow> string \<Rightarrow> string \<Rightarrow> bytes \<Rightarrow> bytes \<Rightarrow> ParsedClientHello result" where
  "parse_hello_fields cap too_much too_short plain auth_key =
     (let fixed_body = subslice CLIENT_HELLO_TAG_LEN (CLIENT_HELLO_TAG_LEN + CLIENT_HELLO_FIXED_BODY_LEN) plain;
          padding_len = unat (from_be_u16 (subslice 82 84 fixed_body));
          total_len = CLIENT_HELLO_TAG_LEN + CLIENT_HELLO_FIXED_BODY_LEN + padding_len
      in if padding_len > cap then Inl (Bail too_much)
         else if total_len > length plain then Inl (Bail too_short)
         else Inr \<lparr>c_tag = take CLIENT_HELLO_TAG_LEN plain, c_auth_key = auth_key,
                   c_fixed_body = fixed_body,
                   c_body = fixed_body @ subslice (CLIENT_HELLO_TAG_LEN + CLIENT_HELLO_FIXED_BODY_LEN) total_len plain,
                   c_first_packet_digest = replicate 32 0\<rparr>)"

definition parse_plain_client_hello :: "HandshakeConfig \<Rightarrow> bytes \<Rightarrow> bytes \<Rightarrow> ParsedClientHello result" where
  "parse_plain_client_hello cfg plain auth_key =
     (if length plain < plain_client_hello_min_len then Inl (Bail ''short client handshake'')
      else parse_hello_fields (min (h_max_handshake_padding cfg) MAX_HANDSHAKE_PADDING)
             ''handshake padding exceeds configured user limit'' ''short client handshake padding''
             plain auth_key)"

definition parse_stealth_client_hello :: "HandshakeConfig \<Rightarrow> bytes \<Rightarrow> nat \<Rightarrow> bytes \<Rightarrow> ParsedClientHello result" where
  "parse_stealth_client_hello cfg plain frame_size auth_key =
     (if length plain < CLIENT_HELLO_TAG_LEN + CLIENT_HELLO_FIXED_BODY_LEN
      then Inl (Bail ''short stealth client handshake'')
      else res_bind (stealth_client_padding_cap cfg frame_size) (\<lambda>max_padding.
        parse_hello_fields max_padding ''handshake padding exceeds configured stealth limit''
          ''short stealth client handshake padding'' plain auth_key))"

definition client_hello_authenticates :: "prims \<Rightarrow> ParsedClientHello \<Rightarrow> bool" where
  "client_hello_authenticates p h \<longleftrightarrow> hmac_sha256 p (c_auth_key h) (c_body h) = c_tag h"

definition first_packet_digest :: "prims \<Rightarrow> bytes list \<Rightarrow> bytes" where
  "first_packet_digest p chunks =
     sha256 p (ascii ''espejismo v1 first-packet replay digest''
       @ concat (map (\<lambda>chunk. to_be_u64 (of_nat (length chunk)) @ chunk) chunks))"

text \<open>
  The keys to try, as pairs of the user's index and a key: the users in order and each user's
  accepted keys in order. The first user whose keys cannot be computed stops the loop.
\<close>

fun users_keys :: "prims \<Rightarrow> int \<Rightarrow> nat \<Rightarrow> HandshakeUser list \<Rightarrow> (nat \<times> HandshakeConfig \<times> bytes) list result" where
  "users_keys p now index [] = Inr []"
| "users_keys p now index (user # users) =
     res_bind (accepted_auth_keys p now (u_config user)) (\<lambda>keys.
     res_bind (users_keys p now (Suc index) users) (\<lambda>rest.
       Inr (map (\<lambda>key. (index, u_config user, key)) keys @ rest)))"

definition plain_candidates ::
  "prims \<Rightarrow> bytes \<Rightarrow> bytes \<Rightarrow> (nat \<times> HandshakeConfig \<times> bytes) list \<Rightarrow> (nat \<times> HandshakeConfig \<times> bytes \<times> nat) list"
where
  "plain_candidates p nonce masked_len keys =
     concat (map (\<lambda>(index, cfg, auth_key).
       let len = unmask_variable_handshake_len p auth_key ''plain-client'' [] nonce masked_len in
       if plain_client_hello_min_len \<le> len \<and> len \<le> plain_client_hello_max_len (h_max_handshake_padding cfg)
       then [(index, cfg, auth_key, len)] else []) keys)"

fun unique_len_loop :: "nat option \<Rightarrow> nat list \<Rightarrow> nat option" where
  "unique_len_loop len [] = len"
| "unique_len_loop len (candidate_len # rest) =
     (case len of
        Some existing \<Rightarrow> if existing \<noteq> candidate_len then None else unique_len_loop len rest
      | None \<Rightarrow> unique_len_loop (Some candidate_len) rest)"

definition unique_candidate_payload_len :: "(nat \<times> HandshakeConfig \<times> bytes \<times> nat) list \<Rightarrow> nat option" where
  "unique_candidate_payload_len candidates =
     unique_len_loop None (map (\<lambda>(_, _, _, len). len) candidates)"

definition plain_authenticated ::
  "prims \<Rightarrow> bytes \<Rightarrow> bytes \<Rightarrow> bytes \<Rightarrow> (nat \<times> HandshakeConfig \<times> bytes \<times> nat) list \<Rightarrow> (ParsedClientHello \<times> nat) list"
where
  "plain_authenticated p nonce payload digest candidates =
     concat (map (\<lambda>(index, cfg, auth_key, _).
       (case parse_plain_client_hello cfg
               (xor_variable_handshake_payload p auth_key ''plain-client'' [] nonce payload) auth_key of
          Inl _ \<Rightarrow> []
        | Inr parsed \<Rightarrow>
            if client_hello_authenticates p parsed
            then [(with_first_packet_digest digest parsed, index)] else [])) candidates)"

definition read_plain_client_hello_for_users ::
  "prims \<Rightarrow> int \<Rightarrow> HandshakeUser list \<Rightarrow> (conn, ParsedClientHello \<times> nat) io"
where
  "read_plain_client_hello_for_users p clock users =
     io_bind (ctx ''client handshake nonce failed'' (read_exact VARIABLE_HANDSHAKE_NONCE_LEN)) (\<lambda>nonce.
     io_bind (ctx ''client handshake length failed'' (read_exact VARIABLE_HANDSHAKE_LEN_LEN)) (\<lambda>masked_len.
     io_bind (io_result (unix_now clock)) (\<lambda>now.
     io_bind (io_result (users_keys p now 0 users)) (\<lambda>keys.
       let candidates = plain_candidates p nonce masked_len keys in
       (case unique_candidate_payload_len candidates of
          None \<Rightarrow>
            if candidates = [] then io_fail (Bail ''client handshake did not match any configured user'')
            else io_fail (Bail ''client handshake length matched multiple user/window candidates'')
        | Some payload_len \<Rightarrow>
            io_bind (ctx ''client handshake payload failed'' (read_exact payload_len)) (\<lambda>payload.
              (case plain_authenticated p nonce payload
                      (first_packet_digest p [nonce, masked_len, payload]) candidates of
                 [one] \<Rightarrow> io_return one
               | [] \<Rightarrow> io_fail (Bail ''client handshake did not authenticate any configured user/window'')
               | _ \<Rightarrow> io_fail (Bail ''client handshake authenticated multiple user/window candidates'')))))))) "

definition read_plain_client_hello :: "prims \<Rightarrow> int \<Rightarrow> HandshakeConfig \<Rightarrow> (conn, ParsedClientHello) io" where
  "read_plain_client_hello p clock cfg =
     io_bind (read_plain_client_hello_for_users p clock [\<lparr>u_name = ascii ''default'', u_config = cfg\<rparr>])
       (\<lambda>(hello, _). io_return hello)"

definition stealth_authenticated ::
  "prims \<Rightarrow> nat \<Rightarrow> bytes \<Rightarrow> bytes \<Rightarrow> (nat \<times> HandshakeConfig \<times> bytes) list \<Rightarrow> (ParsedClientHello \<times> nat) list"
where
  "stealth_authenticated p frame_size block digest keys =
     concat (map (\<lambda>(index, cfg, auth_key).
       (case res_bind (unmask_stealth_handshake_block p auth_key ''client-hello'' [] block)
               (\<lambda>plain. parse_stealth_client_hello cfg plain frame_size auth_key) of
          Inl _ \<Rightarrow> []
        | Inr parsed \<Rightarrow>
            if client_hello_authenticates p parsed
            then [(with_first_packet_digest digest parsed, index)] else [])) keys)"

definition read_stealth_client_hello :: "prims \<Rightarrow> int \<Rightarrow> HandshakeConfig \<Rightarrow> nat \<Rightarrow> (conn, ParsedClientHello) io" where
  "read_stealth_client_hello p clock cfg frame_size =
     io_bind (io_result (validate_stealth_handshake_frame frame_size)) (\<lambda>_.
     io_bind (ctx ''stealth client handshake failed'' (read_exact frame_size)) (\<lambda>block.
     io_bind (io_result (unix_now clock)) (\<lambda>now.
     io_bind (io_result (accepted_auth_keys p now cfg)) (\<lambda>keys.
       (case stealth_authenticated p frame_size block (first_packet_digest p [block])
               (map (\<lambda>key. (0, cfg, key)) keys) of
          [(one, _)] \<Rightarrow> io_return one
        | [] \<Rightarrow> io_fail (Bail ''stealth client handshake did not authenticate configured user'')
        | _ \<Rightarrow> io_fail (Bail ''stealth client handshake authenticated multiple window candidates''))))))"

text \<open>Users with another frame size are passed over, before their keys are computed.\<close>

fun stealth_users_keys ::
  "prims \<Rightarrow> int \<Rightarrow> nat \<Rightarrow> nat \<Rightarrow> HandshakeUser list \<Rightarrow> (nat \<times> HandshakeConfig \<times> bytes) list result"
where
  "stealth_users_keys p now frame_size index [] = Inr []"
| "stealth_users_keys p now frame_size index (user # users) =
     (if h_stealth_frame_size (u_config user) \<noteq> Some frame_size
      then stealth_users_keys p now frame_size (Suc index) users
      else
        res_bind (accepted_auth_keys p now (u_config user)) (\<lambda>keys.
        res_bind (stealth_users_keys p now frame_size (Suc index) users) (\<lambda>rest.
          Inr (map (\<lambda>key. (index, u_config user, key)) keys @ rest))))"

definition read_stealth_client_hello_for_users ::
  "prims \<Rightarrow> int \<Rightarrow> HandshakeUser list \<Rightarrow> nat \<Rightarrow> (conn, ParsedClientHello \<times> nat) io"
where
  "read_stealth_client_hello_for_users p clock users frame_size =
     io_bind (io_result (validate_stealth_handshake_frame frame_size)) (\<lambda>_.
     io_bind (ctx ''stealth client handshake failed'' (read_exact frame_size)) (\<lambda>block.
     io_bind (io_result (unix_now clock)) (\<lambda>now.
     io_bind (io_result (stealth_users_keys p now frame_size 0 users)) (\<lambda>keys.
       (case stealth_authenticated p frame_size block (first_packet_digest p [block]) keys of
          [one] \<Rightarrow> io_return one
        | [] \<Rightarrow> io_fail (Bail ''stealth client handshake did not match any configured user'')
        | _ \<Rightarrow> io_fail (Bail ''stealth client handshake matched multiple users''))))))"

text \<open>The server's state: its connection and, where there is one, the shared replay cache.\<close>

type_synonym server = "conn \<times> ReplayCache option"

definition on_conn :: "(conn, 'a) io \<Rightarrow> (server, 'a) io" where
  "on_conn m s = (case m (fst s) of (r, c) \<Rightarrow> (r, (c, snd s)))"

definition check_replay :: "int \<Rightarrow> bytes \<Rightarrow> bytes \<Rightarrow> (server, unit) io" where
  "check_replay now digest public_key_bytes s =
     (case snd s of
        None \<Rightarrow> (Inr (), s)
      | Some cache \<Rightarrow>
          (case check_and_insert_handshake now digest public_key_bytes cache of
             (r, cache') \<Rightarrow> (r, (fst s, Some cache'))))"

definition timestamp_fresh :: "int \<Rightarrow> int \<Rightarrow> int \<Rightarrow> bool" where
  "timestamp_fresh now timestamp skew \<longleftrightarrow> \<not> i64_wrap \<bar>i64_wrap (now - timestamp)\<bar> > skew"

definition verify_client_hello :: "prims \<Rightarrow> int \<Rightarrow> HandshakeConfig \<Rightarrow> ParsedClientHello \<Rightarrow> (server, unit) io" where
  "verify_client_hello p clock cfg h =
     (if \<not> verify (sha256 p) (c_body h) (h_puzzle_difficulty_bits cfg)
      then io_fail (Bail ''client puzzle verification failed'')
      else if hmac_sha256 p (c_auth_key h) (c_body h) \<noteq> c_tag h
      then io_fail (Bail ''client authentication failed'')
      else
        let timestamp = from_be_i64 (take 8 (c_fixed_body h));
            client_version = from_be_u16 (subslice 64 66 (c_fixed_body h));
            client_capabilities = from_be_u64 (subslice 66 74 (c_fixed_body h))
        in if \<not> supports_protocol_version client_version
           then io_fail (BailNum ''unsupported client protocol version'' (unat client_version))
           else if client_capabilities AND CAP_TCP_CONNECT = 0
           then io_fail (Bail ''client does not support TCP CONNECT'')
           else
             io_bind (io_result (ensure_mux_capability cfg client_capabilities ''client'')) (\<lambda>_.
             io_bind (io_result (unix_now clock)) (\<lambda>now.
               if \<not> timestamp_fresh now timestamp (h_clock_skew_secs cfg)
               then io_fail (Bail ''handshake timestamp outside allowed window'')
               else check_replay now (c_first_packet_digest h) (subslice 32 64 (c_fixed_body h)))))"

definition send_server_hello_and_derive_keys ::
  "prims \<Rightarrow> HandshakeConfig \<Rightarrow> ParsedClientHello \<Rightarrow> bytes \<Rightarrow> mask_draw \<Rightarrow> (conn, SessionKeys) io"
where
  "send_server_hello_and_derive_keys p cfg h secret d =
     (let client_public = subslice 32 64 (c_fixed_body h);
          public = public_key p secret;
          shared = diffie_hellman p secret client_public;
          client_capabilities = from_be_u64 (subslice 66 74 (c_fixed_body h))
      in io_bind (io_result (negotiated_capabilities cfg client_capabilities)) (\<lambda>server_capabilities.
           let tag = server_hmac p (c_auth_key h) (c_body h) public PROTOCOL_VERSION server_capabilities;
               reply = public @ to_be_u16 PROTOCOL_VERSION @ to_be_u64 server_capabilities @ tag
           in io_bind
                (io_result (case h_stealth_frame_size cfg of
                   Some frame_size \<Rightarrow>
                     mask_stealth_handshake_block p (c_auth_key h) ''server-hello'' (c_tag h) reply frame_size d
                 | None \<Rightarrow>
                     mask_variable_handshake_envelope p (c_auth_key h) ''plain-server'' (c_tag h) reply
                       VARIABLE_HANDSHAKE_EXTRA_PADDING_MAX d))
                (\<lambda>envelope.
                  io_then (write_all envelope)
                    (io_return (derive_keys p (h_psk cfg) shared (subslice 8 32 (c_fixed_body h))
                       (ascii ''server''))))))"

definition accept_handshake_inner ::
  "prims \<Rightarrow> int \<Rightarrow> int \<Rightarrow> HandshakeConfig \<Rightarrow> bytes \<Rightarrow> mask_draw \<Rightarrow> (server, SessionKeys) io"
where
  "accept_handshake_inner p clock clock' cfg secret d =
     io_bind
       (on_conn (case h_stealth_frame_size cfg of
          Some frame_size \<Rightarrow> read_stealth_client_hello p clock cfg frame_size
        | None \<Rightarrow> read_plain_client_hello p clock cfg))
       (\<lambda>client_hello.
         io_then (verify_client_hello p clock' cfg client_hello)
           (on_conn (send_server_hello_and_derive_keys p cfg client_hello secret d)))"

definition accept_handshake ::
  "prims \<Rightarrow> int \<Rightarrow> int \<Rightarrow> HandshakeConfig \<Rightarrow> bytes \<Rightarrow> mask_draw \<Rightarrow> conn \<Rightarrow> SessionKeys result \<times> conn"
where
  "accept_handshake p clock clock' cfg secret d c =
     (case accept_handshake_inner p clock clock' cfg secret d (c, None) of (r, s) \<Rightarrow> (r, fst s))"

definition accept_handshake_with_replay ::
  "prims \<Rightarrow> int \<Rightarrow> int \<Rightarrow> HandshakeConfig \<Rightarrow> bytes \<Rightarrow> mask_draw \<Rightarrow> ReplayCache \<Rightarrow> conn \<Rightarrow> SessionKeys result \<times> server"
where
  "accept_handshake_with_replay p clock clock' cfg secret d cache c =
     accept_handshake_inner p clock clock' cfg secret d (c, Some cache)"

record AuthenticatedSession =
  a_keys :: SessionKeys
  a_user :: rstring

definition accept_handshake_users_inner ::
  "prims \<Rightarrow> int \<Rightarrow> int \<Rightarrow> HandshakeUser list \<Rightarrow> bytes \<Rightarrow> mask_draw \<Rightarrow> (server, AuthenticatedSession) io"
where
  "accept_handshake_users_inner p clock clock' users secret d =
     (case users of
        [] \<Rightarrow> io_fail (Bail ''at least one handshake user is required'')
      | first # _ \<Rightarrow>
          io_bind
            (on_conn (case h_stealth_frame_size (u_config first) of
               Some frame_size \<Rightarrow> read_stealth_client_hello_for_users p clock users frame_size
             | None \<Rightarrow> read_plain_client_hello_for_users p clock users))
            (\<lambda>(client_hello, user_index).
              if user_index \<ge> length users
              then io_fail (Bail ''selected handshake user is out of range'')
              else
                let user = users ! user_index in
                io_then (verify_client_hello p clock' (u_config user) client_hello)
                (io_bind (on_conn (send_server_hello_and_derive_keys p (u_config user) client_hello secret d))
                  (\<lambda>keys. io_return \<lparr>a_keys = keys, a_user = u_name user\<rparr>))))"

definition accept_handshake_with_users ::
  "prims \<Rightarrow> int \<Rightarrow> int \<Rightarrow> HandshakeUser list \<Rightarrow> bytes \<Rightarrow> mask_draw \<Rightarrow> ReplayCache \<Rightarrow> conn \<Rightarrow> AuthenticatedSession result \<times> server"
where
  "accept_handshake_with_users p clock clock' users secret d cache c =
     accept_handshake_users_inner p clock clock' users secret d (c, Some cache)"

end
