(* ===== verification/Esp_Handshake_Props.thy ===== *)
theory Esp_Handshake_Props
  imports Esp_Handshake
begin

text \<open>
  What the handshake of \<open>Esp_Handshake\<close> achieves: an honest client and the server end with mirrored
  session keys, in the plain and in the stealth form; an accepted handshake was authenticated
  under a key of the user it is attributed to, solved that user's puzzle and is fresh; a hello
  that repeats an identifier of an accepted one is refused during the replay window; and the
  freshness test on timestamps, with its one wrap-around.
\<close>

section \<open>Timestamps\<close>

lemma i64_wrap_id: "i64_min \<le> x \<Longrightarrow> x \<le> i64_max \<Longrightarrow> i64_wrap x = x"
  by (simp add: i64_wrap_def i64_min_def i64_max_def)

lemma i64_wrap_shift: "i64_wrap x = i64_wrap (x - 18446744073709551616)"
  using minus_mod_self2 [of "x + 9223372036854775808" 18446744073709551616]
  by (simp add: i64_wrap_def algebra_simps)

lemma from_to_be_i64: "i64_min \<le> x \<Longrightarrow> x \<le> i64_max \<Longrightarrow> from_be_i64 (to_be_i64 x) = x"
proof -
  assume x: "i64_min \<le> x" "x \<le> i64_max"
  have "int (unat (of_int x :: u64)) = x mod 2 ^ 64"
    by (simp add: uint_word_of_int)
  then have "from_be_i64 (to_be_i64 x) = i64_wrap (x mod 18446744073709551616)"
    by (simp add: from_be_i64_def to_be_i64_def)
  also have "\<dots> = i64_wrap x"
    by (simp add: i64_wrap_def mod_simps)
  finally show ?thesis using x by (simp add: i64_wrap_id)
qed

lemma to_be_i64_length [simp]: "length (to_be_i64 x) = 8"
  by (simp add: to_be_i64_def)

lemma timestamp_fresh_within:
  "0 \<le> now \<Longrightarrow> now \<le> i64_max \<Longrightarrow> 0 \<le> ts \<Longrightarrow> ts \<le> i64_max \<Longrightarrow> \<bar>now - ts\<bar> \<le> skew \<Longrightarrow> timestamp_fresh now ts skew"
  by (simp add: timestamp_fresh_def i64_wrap_id i64_min_def i64_max_def)

lemma unix_now_Inr: "0 \<le> t \<Longrightarrow> t \<le> i64_max \<Longrightarrow> unix_now t = Inr t"
  by (simp add: unix_now_def i64_wrap_id i64_min_def)

lemma timestamp_fresh_iff:
  assumes "0 \<le> now" "now \<le> i64_max" "i64_min \<le> ts" "ts \<le> i64_max" "0 \<le> skew" "skew + now \<le> i64_max"
  shows "timestamp_fresh now ts skew \<longleftrightarrow> \<bar>now - ts\<bar> \<le> skew \<or> ts = now - 9223372036854775808"
proof -
  consider "now - ts \<le> i64_max" | "now - ts = 9223372036854775808" | "now - ts > 9223372036854775808"
    unfolding i64_max_def by linarith
  then show ?thesis
  proof cases
    case 1
    then have "i64_wrap (now - ts) = now - ts" "i64_wrap \<bar>now - ts\<bar> = \<bar>now - ts\<bar>"
      using assms by (auto intro!: i64_wrap_id simp: i64_min_def i64_max_def)
    with 1 assms show ?thesis by (auto simp: timestamp_fresh_def i64_max_def)
  next
    case 2
    then have "ts = now - 9223372036854775808" by simp
    then show ?thesis using assms by (simp add: timestamp_fresh_def i64_wrap_def)
  next
    case 3
    then have w: "i64_wrap (now - ts) = now - ts - 18446744073709551616"
      using assms i64_wrap_shift [of "now - ts"]
      by (simp add: i64_wrap_id i64_min_def i64_max_def)
    have "i64_wrap \<bar>now - ts - 18446744073709551616\<bar> = 18446744073709551616 - (now - ts)"
      using assms 3 by (subst i64_wrap_id) (auto simp: i64_min_def i64_max_def)
    with 3 w assms show ?thesis by (auto simp: timestamp_fresh_def i64_min_def i64_max_def)
  qed
qed

section \<open>The fields of a hello\<close>

definition hello_bytes :: "int \<Rightarrow> bytes \<Rightarrow> bytes \<Rightarrow> u16 \<Rightarrow> u64 \<Rightarrow> bytes \<Rightarrow> bytes \<Rightarrow> bytes" where
  "hello_bytes now nonce pub version caps puzzle padding =
     to_be_i64 now @ nonce @ pub @ to_be_u16 version @ to_be_u64 caps @ puzzle
       @ to_be_u16 (of_nat (length padding)) @ padding"

lemma subslice_append:
  "a \<ge> length xs \<Longrightarrow> subslice a b (xs @ ys) = subslice (a - length xs) (b - length xs) ys"
  "b \<le> length xs \<Longrightarrow> subslice a b (xs @ ys) = subslice a b xs"
  by (simp_all add: subslice_def)

lemma subslice_full: "length xs = b \<Longrightarrow> subslice 0 b xs = xs"
  by (simp add: subslice_def)

lemma subslice_of_take: "b \<le> n \<Longrightarrow> subslice a b (take n xs) = subslice a b xs"
  by (simp add: subslice_def drop_take min_def)

lemma hello_fields:
  fixes now :: int and version :: u16 and caps :: u64 and pad :: bytes
  assumes "length nonce = 24" "length pub = 32" "length w = 8"
  defines "b \<equiv> hello_bytes now nonce pub version caps w pad"
  shows "length b = 84 + length pad" "take 8 (take 84 b) = to_be_i64 now"
    "subslice 8 32 (take 84 b) = nonce" "subslice 32 64 (take 84 b) = pub"
    "subslice 64 66 (take 84 b) = to_be_u16 version" "subslice 66 74 (take 84 b) = to_be_u64 caps"
    "subslice 82 84 (take 84 b) = to_be_u16 (of_nat (length pad))" "drop 84 b = pad"
  unfolding b_def hello_bytes_def using assms(1-3)
  by (simp_all add: subslice_of_take subslice_append subslice_full)

lemma parse_hello:
  fixes now :: int and version :: u16 and caps :: u64 and pad :: bytes
  assumes "length tag = 32" "length nonce = 24" "length pub = 32" "length w = 8"
    and "length pad \<le> cap" "length pad \<le> u16_max"
  defines "b \<equiv> hello_bytes now nonce pub version caps w pad"
  shows "parse_hello_fields cap e1 e2 (tag @ b @ extra) key =
     Inr \<lparr>c_tag = tag, c_auth_key = key, c_fixed_body = take 84 b, c_body = b,
          c_first_packet_digest = replicate 32 0\<rparr>"
proof -
  note f = hello_fields [OF assms(2-4), of now version caps pad, folded b_def]
  have fixed: "subslice 32 116 (tag @ b @ extra) = take 84 b"
    using assms(1) f(1) by (simp add: subslice_def)
  have rest: "subslice 116 (116 + length pad) (tag @ b @ extra) = pad"
    using assms(1) f(1,8) by (simp add: subslice_def)
  have "take 84 b @ pad = b" using f(8) append_take_drop_id [of 84 b] by simp
  with f fixed rest assms(1,5,6) show ?thesis
    by (simp add: parse_hello_fields_def hello_lens Let_def unat_of_nat_u16)
qed

section \<open>Envelopes and blocks\<close>

lemma random_padding_len_le: "random_padding_len draw mx \<le> mx"
proof -
  have "unat draw mod (mx + 1) < mx + 1" by simp
  then show ?thesis by (simp add: random_padding_len_def)
qed

lemma envelope_form:
  assumes "prims_ok p" "draw_ok d" "length clear + mx \<le> u32_max"
  obtains ml pl extra where
    "mask_variable_handshake_envelope p key label cx clear mx d = Inr (d_nonce d @ ml @ pl)"
    "length (d_nonce d) = 24" "length ml = 4" "length extra \<le> mx"
    "unmask_variable_handshake_len p key label cx (d_nonce d) ml = length clear + length extra"
    "length pl = length clear + length extra"
    "xor_variable_handshake_payload p key label cx (d_nonce d) pl = clear @ extra"
proof -
  define n where "n = random_padding_len (d_extra d) mx"
  have n: "n \<le> mx" by (simp add: n_def random_padding_len_le)
  have fill: "length (d_fill d n) = n" "length (d_nonce d) = 24"
    using assms(2) by (simp_all add: draw_ok_def)
  have le: "length clear + n \<le> u32_max" using n assms(3) by simp
  define ml where "ml = xor_variable_handshake_len p key label cx (d_nonce d) (to_be_u32 (of_nat (length clear + n)))"
  define pl where "pl = xor_variable_handshake_payload p key label cx (d_nonce d) (clear @ d_fill d n)"
  have "mask_variable_handshake_envelope p key label cx clear mx d = Inr (d_nonce d @ ml @ pl)"
    using le by (simp only: mask_variable_handshake_envelope_def Let_def ml_def pl_def flip: n_def)
      (simp add: usize_max_def u32_max_def)
  moreover have "unmask_variable_handshake_len p key label cx (d_nonce d) ml = length clear + n"
    unfolding ml_def using assms(1) le by (rule unmask_len_masked)
  moreover have "length ml = 4" "length pl = length clear + n"
    "xor_variable_handshake_payload p key label cx (d_nonce d) pl = clear @ d_fill d n"
    using assms(1) fill(1) by (simp_all add: ml_def pl_def xor_stream_defs xor_stream_twice)
  ultimately show thesis
    using n fill by (intro that [of ml pl "d_fill d n"]) simp_all
qed

lemma read_envelope:
  assumes "rx c = nonce @ ml @ pl @ rest" "length nonce = 24" "length ml = 4"
    and "unmask_variable_handshake_len p key label cx nonce ml = length pl"
    and "lo \<le> length pl" "length pl \<le> hi"
  shows "read_variable_handshake_envelope p key label cx lo hi c =
    (Inr (xor_variable_handshake_payload p key label cx nonce pl), c\<lparr>rx := rest\<rparr>)"
  using assms
  by (simp add: read_variable_handshake_envelope_def ctx_def io_bind_def map_err_def hello_lens
      read_exact_append)

lemma block_form:
  assumes "prims_ok p" "draw_ok d" "140 \<le> fs" "length clear + 24 \<le> fs"
  obtains blk extra where
    "mask_stealth_handshake_block p key label cx clear fs d = Inr blk" "length blk = fs"
    "unmask_stealth_handshake_block p key label cx blk = Inr (clear @ extra)"
    "length (clear @ extra) = fs - 24"
proof -
  let ?x = "clear @ drop (length clear) (d_fill d (fs - 24))"
  have fill: "length (d_fill d (fs - 24)) = fs - 24" "length (d_nonce d) = 24"
    using assms(2) by (simp_all add: draw_ok_def)
  with assms show thesis
    by (intro that [of "d_nonce d @ xor_hmac_stream p key label (d_nonce d) cx ?x"
          "drop (length clear) (d_fill d (fs - 24))"])
      (simp_all add: mask_stealth_handshake_block_def validate_stealth_handshake_frame_def hello_lens
        Let_def unmask_stealth_handshake_block_def xor_stream_defs xor_stream_twice)
qed

section \<open>The client's first packet\<close>

text \<open>A stealth frame has room for both hellos.\<close>

definition frames_ok :: "HandshakeConfig \<Rightarrow> bool" where
  "frames_ok cfg \<longleftrightarrow> (case h_stealth_frame_size cfg of None \<Rightarrow> True | Some fs \<Rightarrow> 140 \<le> fs)"

definition client_max_padding :: "HandshakeConfig \<Rightarrow> nat" where
  "client_max_padding cfg =
     (case h_stealth_frame_size cfg of
        None \<Rightarrow> h_max_handshake_padding cfg
      | Some fs \<Rightarrow> min (min (h_max_handshake_padding cfg) MAX_HANDSHAKE_PADDING) (fs - 140))"

text \<open>Some nonce solves the puzzle of the hello the client is about to send.\<close>

definition solvable :: "prims \<Rightarrow> HandshakeConfig \<Rightarrow> int \<Rightarrow> hello_draw \<Rightarrow> bool" where
  "solvable p cfg now r \<longleftrightarrow>
     (\<exists>n < 2 ^ 64. verify (sha256 p)
        (take 74 (hello_body p cfg now (client_max_padding cfg) r) @ to_be_u64 (of_nat n)
           @ drop 82 (hello_body p cfg now (client_max_padding cfg) r))
        (h_puzzle_difficulty_bits cfg))"

lemma hello_body_bytes:
  assumes "hello_draw_ok r"
  obtains pad where "length pad \<le> min mp MAX_HANDSHAKE_PADDING"
    "hello_body p cfg now mp r = hello_bytes now (r_nonce r) (public_key p (r_secret r))
       PROTOCOL_VERSION (handshake_capabilities cfg) (to_be_u64 0) pad"
proof
  let ?n = "random_padding_len (r_padding_len r) (min mp MAX_HANDSHAKE_PADDING)"
  have len: "length (r_fill r ?n) = ?n" using assms by (simp add: hello_draw_ok_def)
  then show "length (r_fill r ?n) \<le> min mp MAX_HANDSHAKE_PADDING"
    using random_padding_len_le by metis
  show "hello_body p cfg now mp r = hello_bytes now (r_nonce r) (public_key p (r_secret r))
       PROTOCOL_VERSION (handshake_capabilities cfg) (to_be_u64 0) (r_fill r ?n)"
    by (simp add: hello_body_def hello_bytes_def Let_def len)
qed

lemma hello_set_puzzle:
  assumes "length nonce = 24" "length pub = 32" "length z = 8"
  shows "take 74 (hello_bytes now nonce pub v caps z pad) @ w @ drop 82 (hello_bytes now nonce pub v caps z pad)
    = hello_bytes now nonce pub v caps w pad"
  using assms by (simp add: hello_bytes_def)

lemma hello_built:
  assumes "prims_ok p" "hello_draw_ok r" "0 \<le> now" "now \<le> i64_max" "solvable p cfg now r"
  obtains w pad where "length w = 8" "length pad \<le> min (client_max_padding cfg) MAX_HANDSHAKE_PADDING"
    "\<And>b key. b = hello_bytes now (r_nonce r) (public_key p (r_secret r)) PROTOCOL_VERSION
        (handshake_capabilities cfg) w pad \<Longrightarrow>
      build_client_hello p now cfg (client_max_padding cfg) key r =
        Some (Inr \<lparr>m_tag = hmac_sha256 p key b, m_body = b, m_nonce = r_nonce r,
                   m_wire = hmac_sha256 p key b @ b\<rparr>) \<and>
      verify (sha256 p) b (h_puzzle_difficulty_bits cfg)"
proof -
  let ?B = "hello_body p cfg now (client_max_padding cfg) r"
  obtain pad where pad: "length pad \<le> min (client_max_padding cfg) MAX_HANDSHAKE_PADDING"
    and B: "?B = hello_bytes now (r_nonce r) (public_key p (r_secret r)) PROTOCOL_VERSION
        (handshake_capabilities cfg) (to_be_u64 0) pad"
    using hello_body_bytes [OF assms(2)] by blast
  have lens: "length (r_nonce r) = 24" "length (public_key p (r_secret r)) = 32"
    using assms(1,2) by (simp_all add: hello_draw_ok_def prims_lengths)
  have "length ?B = 84 + length pad"
    unfolding B using hello_fields(1) [OF lens] by simp
  then obtain w where w: "length w = 8"
    "solve (sha256 p) ?B 74 82 (h_puzzle_difficulty_bits cfg) = Some (Inr (take 74 ?B @ w @ drop 82 ?B))"
    "verify (sha256 p) (take 74 ?B @ w @ drop 82 ?B) (h_puzzle_difficulty_bits cfg)"
    using assms(5) solve_finds [of 74 ?B _ "sha256 p" "h_puzzle_difficulty_bits cfg"]
    by (auto simp: solvable_def)
  have "take 74 ?B @ w @ drop 82 ?B = hello_bytes now (r_nonce r) (public_key p (r_secret r))
      PROTOCOL_VERSION (handshake_capabilities cfg) w pad"
    unfolding B using lens by (simp add: hello_set_puzzle)
  with w pad assms(3,4) show thesis
    by (intro that [of w pad]) (simp_all add: build_client_hello_def unix_now_Inr Let_def)
qed

section \<open>The server's check and answer\<close>

lemma own_capabilities:
  "handshake_capabilities cfg AND CAP_TCP_CONNECT \<noteq> 0"
  "handshake_capabilities cfg AND mux_capability (h_mux_mode cfg) \<noteq> 0"
  by (cases "h_mux_mode cfg"; simp add: handshake_capabilities_def mux_capability_def cap_defs)+

lemma own_mux: "ensure_mux_capability cfg (handshake_capabilities cfg) who = Inr ()"
  by (simp add: ensure_mux_capability_def own_capabilities)

abbreviation parsed_hello :: "prims \<Rightarrow> bytes \<Rightarrow> bytes \<Rightarrow> bytes \<Rightarrow> ParsedClientHello" where
  "parsed_hello p key b dg \<equiv> \<lparr>c_tag = hmac_sha256 p key b, c_auth_key = key, c_fixed_body = take 84 b,
     c_body = b, c_first_packet_digest = dg\<rparr>"

lemma verify_accepts:
  fixes cfg :: HandshakeConfig and now :: int and pad :: bytes
  assumes lens: "length nonce = 24" "length pub = 32" "length w = 8"
  defines "b \<equiv> hello_bytes now nonce pub PROTOCOL_VERSION (handshake_capabilities cfg) w pad"
  assumes "verify (sha256 p) b (h_puzzle_difficulty_bits cfg)"
    and "0 \<le> now" "now \<le> i64_max" "0 \<le> clock" "clock \<le> i64_max"
    and "\<bar>clock - now\<bar> \<le> h_clock_skew_secs cfg"
    and "check_and_insert_handshake clock dg pub cache = (Inr (), cache')"
  shows "verify_client_hello p clock cfg (parsed_hello p key b dg) (c, Some cache) =
    (Inr (), (c, Some cache'))"
proof -
  note f = hello_fields [OF lens, of now PROTOCOL_VERSION "handshake_capabilities cfg" pad, folded b_def]
  have "from_be_i64 (to_be_i64 now) = now"
    using assms(6,7) by (simp add: from_to_be_i64 i64_min_def)
  moreover have "timestamp_fresh clock now (h_clock_skew_secs cfg)"
    using assms(6-10) by (intro timestamp_fresh_within) simp_all
  ultimately show ?thesis
    using assms(5,8,9,11) f
    by (simp add: verify_client_hello_def Let_def supports_protocol_version_def own_capabilities
        own_mux unix_now_Inr check_replay_def io_bind_def)
qed

definition server_reply :: "prims \<Rightarrow> HandshakeConfig \<Rightarrow> bytes \<Rightarrow> bytes \<Rightarrow> bytes \<Rightarrow> bytes" where
  "server_reply p cfg key b secret =
     public_key p secret @ to_be_u16 PROTOCOL_VERSION @ to_be_u64 (handshake_capabilities cfg)
       @ server_hmac p key b (public_key p secret) PROTOCOL_VERSION (handshake_capabilities cfg)"

lemma server_reply_length: "prims_ok p \<Longrightarrow> length (server_reply p cfg key b secret) = SERVER_HELLO_LEN"
  by (simp add: server_reply_def server_hmac_def prims_lengths hello_lens)

lemma finish_ok:
  assumes "prims_ok p"
  shows "finish_client_handshake p cfg key secret b nonce (server_reply p cfg key b secret') =
    Inr (derive_keys p (h_psk cfg) (diffie_hellman p secret (public_key p secret')) nonce (ascii ''client''))"
proof -
  have "length (public_key p secret') = 32" using assms by (simp add: prims_lengths)
  then show ?thesis
    using server_reply_length [OF assms, of cfg key b secret']
    by (simp add: finish_client_handshake_def server_reply_def subslice_append subslice_full
        supports_protocol_version_def own_capabilities own_mux hello_lens)
qed

text \<open>The masked reply, in the form of the configuration.\<close>

definition masked_reply :: "prims \<Rightarrow> HandshakeConfig \<Rightarrow> bytes \<Rightarrow> bytes \<Rightarrow> bytes \<Rightarrow> mask_draw \<Rightarrow> bytes result" where
  "masked_reply p cfg key tag reply d =
     (case h_stealth_frame_size cfg of
        Some fs \<Rightarrow> mask_stealth_handshake_block p key ''server-hello'' tag reply fs d
      | None \<Rightarrow> mask_variable_handshake_envelope p key ''plain-server'' tag reply
                  VARIABLE_HANDSHAKE_EXTRA_PADDING_MAX d)"

lemma send_reply:
  fixes cfg :: HandshakeConfig and now :: int and pad :: bytes
  assumes lens: "length nonce = 24" "length pub = 32" "length w = 8"
  defines "b \<equiv> hello_bytes now nonce pub PROTOCOL_VERSION (handshake_capabilities cfg) w pad"
  assumes "masked_reply p cfg key (hmac_sha256 p key b) (server_reply p cfg key b secret) d = Inr env"
  shows "send_server_hello_and_derive_keys p cfg (parsed_hello p key b dg) secret d c =
    (Inr (derive_keys p (h_psk cfg) (diffie_hellman p secret pub) nonce (ascii ''server'')),
     c\<lparr>tx := tx c @ env\<rparr>)"
proof -
  note f = hello_fields [OF lens, of now PROTOCOL_VERSION "handshake_capabilities cfg" pad, folded b_def]
  show ?thesis
    using assms(5) f
    by (cases "h_stealth_frame_size cfg")
      (simp_all add: send_server_hello_and_derive_keys_def Let_def negotiated_capabilities_def own_mux
        server_reply_def masked_reply_def io_bind_def io_then_def write_all_def)
qed

section \<open>The client's wait for the answer\<close>

definition client_wait :: "prims \<Rightarrow> HandshakeConfig \<Rightarrow> bytes \<Rightarrow> hello_draw \<Rightarrow> bytes \<Rightarrow> (conn, SessionKeys) io" where
  "client_wait p cfg key r b =
     (case h_stealth_frame_size cfg of
        None \<Rightarrow>
          io_bind (ctx ''server handshake failed''
             (read_variable_handshake_envelope p key ''plain-server'' (hmac_sha256 p key b)
                SERVER_HELLO_LEN (SERVER_HELLO_LEN + VARIABLE_HANDSHAKE_EXTRA_PADDING_MAX)))
             (\<lambda>reply_payload.
               if length reply_payload < SERVER_HELLO_LEN
               then io_fail (Bail ''short server handshake reply'')
               else io_result (finish_client_handshake p cfg key (r_secret r) b (r_nonce r)
                      (take SERVER_HELLO_LEN reply_payload)))
      | Some fs \<Rightarrow>
          io_bind (ctx ''stealth server handshake failed'' (read_exact fs)) (\<lambda>reply_block.
          io_bind (io_result (unmask_stealth_handshake_block p key ''server-hello''
                     (hmac_sha256 p key b) reply_block)) (\<lambda>reply_plain.
            io_result (finish_client_handshake p cfg key (r_secret r) b (r_nonce r)
               (take SERVER_HELLO_LEN reply_plain)))))"

lemma client_wait_reply:
  assumes "prims_ok p" "draw_ok d" "frames_ok cfg"
  obtains env where
    "masked_reply p cfg key (hmac_sha256 p key b) (server_reply p cfg key b secret) d = Inr env"
    "\<And>c. rx c = env \<Longrightarrow> client_wait p cfg key r b c =
       (Inr (derive_keys p (h_psk cfg) (diffie_hellman p (r_secret r) (public_key p secret)) (r_nonce r)
               (ascii ''client'')), c\<lparr>rx := []\<rparr>)"
proof (cases "h_stealth_frame_size cfg")
  case None
  let ?tag = "hmac_sha256 p key b" and ?reply = "server_reply p cfg key b secret"
  have len: "length ?reply = 74" using server_reply_length [OF assms(1)] by (simp add: hello_lens)
  obtain ml pl extra where env:
    "mask_variable_handshake_envelope p key ''plain-server'' ?tag ?reply 512 d = Inr (d_nonce d @ ml @ pl)"
    "length (d_nonce d) = 24" "length ml = 4" "length extra \<le> 512"
    "unmask_variable_handshake_len p key ''plain-server'' ?tag (d_nonce d) ml = length ?reply + length extra"
    "length pl = length ?reply + length extra"
    "xor_variable_handshake_payload p key ''plain-server'' ?tag (d_nonce d) pl = ?reply @ extra"
    by (rule envelope_form [OF assms(1,2), of ?reply 512 key "''plain-server''" ?tag])
      (simp add: len u32_max_def)
  show thesis
  proof (rule that)
    show "masked_reply p cfg key ?tag ?reply d = Inr (d_nonce d @ ml @ pl)"
      using env(1) None by (simp add: masked_reply_def VARIABLE_HANDSHAKE_EXTRA_PADDING_MAX_def)
    fix c :: conn assume "rx c = d_nonce d @ ml @ pl"
    then have "read_variable_handshake_envelope p key ''plain-server'' ?tag 74 586 c =
        (Inr (?reply @ extra), c\<lparr>rx := []\<rparr>)"
      using read_envelope [of c "d_nonce d" ml pl "[]" p key "''plain-server''" ?tag 74 586] env len by simp
    then show "client_wait p cfg key r b c =
       (Inr (derive_keys p (h_psk cfg) (diffie_hellman p (r_secret r) (public_key p secret)) (r_nonce r)
               (ascii ''client'')), c\<lparr>rx := []\<rparr>)"
      using None len finish_ok [OF assms(1), of cfg key "r_secret r" b "r_nonce r" secret]
      by (simp add: client_wait_def hello_lens VARIABLE_HANDSHAKE_EXTRA_PADDING_MAX_def ctx_def
          io_bind_def map_err_def)
  qed
next
  case (Some fs)
  let ?tag = "hmac_sha256 p key b" and ?reply = "server_reply p cfg key b secret"
  have len: "length ?reply = 74" using server_reply_length [OF assms(1)] by (simp add: hello_lens)
  have fs: "140 \<le> fs" using assms(3) Some by (simp add: frames_ok_def)
  obtain blk extra where blk:
    "mask_stealth_handshake_block p key ''server-hello'' ?tag ?reply fs d = Inr blk" "length blk = fs"
    "unmask_stealth_handshake_block p key ''server-hello'' ?tag blk = Inr (?reply @ extra)"
    by (rule block_form [OF assms(1,2) fs, of ?reply key "''server-hello''" ?tag]) (use len fs in simp)
  show thesis
  proof (rule that)
    show "masked_reply p cfg key ?tag ?reply d = Inr blk"
      using blk(1) Some by (simp add: masked_reply_def)
    fix c :: conn assume "rx c = blk"
    then show "client_wait p cfg key r b c =
       (Inr (derive_keys p (h_psk cfg) (diffie_hellman p (r_secret r) (public_key p secret)) (r_nonce r)
               (ascii ''client'')), c\<lparr>rx := []\<rparr>)"
      using Some len blk finish_ok [OF assms(1), of cfg key "r_secret r" b "r_nonce r" secret]
        read_exact_append [of c blk "[]" fs]
      by (simp add: client_wait_def hello_lens ctx_def io_bind_def map_err_def)
  qed
qed

lemma client_wait_tx: "tx (snd (client_wait p cfg key r b c)) = tx c"
  by (auto simp: client_wait_def read_variable_handshake_envelope_def io_bind_def ctx_def map_err_def
      read_exact_def Let_def io_fail_def io_result_def split: option.splits sum.splits prod.splits if_splits)

section \<open>What the client sends, and the server reads\<close>

definition masked_hello :: "prims \<Rightarrow> HandshakeConfig \<Rightarrow> bytes \<Rightarrow> bytes \<Rightarrow> mask_draw \<Rightarrow> bytes result" where
  "masked_hello p cfg key wire d =
     (case h_stealth_frame_size cfg of
        Some fs \<Rightarrow> mask_stealth_handshake_block p key ''client-hello'' [] wire fs d
      | None \<Rightarrow> mask_variable_handshake_envelope p key ''plain-client'' [] wire
                  VARIABLE_HANDSHAKE_EXTRA_PADDING_MAX d)"

text \<open>The bytes the client has written when it waits for an answer.\<close>

definition first_packet :: "prims \<Rightarrow> int \<Rightarrow> int \<Rightarrow> HandshakeConfig \<Rightarrow> hello_draw \<Rightarrow> mask_draw \<Rightarrow> bytes" where
  "first_packet p clock clock' cfg r d =
     (case connect_handshake p clock clock' cfg r d \<lparr>rx = [], tx = []\<rparr> of
        Some (_, c) \<Rightarrow> tx c | None \<Rightarrow> [])"

lemma client_padding_cap:
  "140 \<le> fs \<Longrightarrow> stealth_client_padding_cap cfg fs = Inr (min (min (h_max_handshake_padding cfg) MAX_HANDSHAKE_PADDING) (fs - 140))"
  by (simp add: stealth_client_padding_cap_def validate_stealth_handshake_frame_def hello_lens)

lemma masked_hello_form:
  assumes "prims_ok p" "draw_ok d" "frames_ok cfg" "length tag = 32" "length b = 84 + length pad"
    and "length pad \<le> min (client_max_padding cfg) MAX_HANDSHAKE_PADDING"
  obtains E where "masked_hello p cfg key (tag @ b) d = Inr E"
proof (cases "h_stealth_frame_size cfg")
  case None
  have "length (tag @ b) + 512 \<le> u32_max"
    using assms(4-6) by (simp add: MAX_HANDSHAKE_PADDING_def u32_max_def)
  then show thesis
    using None that envelope_form [OF assms(1,2), of "tag @ b" 512 key "''plain-client''" "[]"]
    by (auto simp: masked_hello_def VARIABLE_HANDSHAKE_EXTRA_PADDING_MAX_def)
next
  case (Some fs)
  with assms have "140 \<le> fs" "length (tag @ b) + 24 \<le> fs"
    by (auto simp: frames_ok_def client_max_padding_def)
  then show thesis
    using Some that block_form [OF assms(1,2), of fs "tag @ b" key "''client-hello''" "[]"]
    by (auto simp: masked_hello_def)
qed

lemma client_connects:
  fixes b :: bytes
  assumes "client_auth_key p clock cfg = Inr key"
    and "build_client_hello p clock' cfg (client_max_padding cfg) key r =
      Some (Inr \<lparr>m_tag = hmac_sha256 p key b, m_body = b, m_nonce = r_nonce r,
                 m_wire = hmac_sha256 p key b @ b\<rparr>)"
    and "masked_hello p cfg key (hmac_sha256 p key b @ b) d = Inr E" and "frames_ok cfg"
  shows "connect_handshake p clock clock' cfg r d c = Some (client_wait p cfg key r b (c\<lparr>tx := tx c @ E\<rparr>))"
proof (cases "h_stealth_frame_size cfg")
  case None
  with assms show ?thesis
    by (simp add: connect_handshake_def connect_plain_handshake_def client_max_padding_def
        masked_hello_def client_wait_def io_bind_def [of "io_result _"] io_then_def
        io_bind_def [of "write_all _"] write_all_def cong: if_cong)
next
  case (Some fs)
  with assms show ?thesis
    by (simp add: connect_handshake_def connect_stealth_handshake_def client_max_padding_def frames_ok_def
        client_padding_cap masked_hello_def client_wait_def io_bind_def [of "io_result (Inr _)"] io_then_def
        io_bind_def [of "write_all _"] write_all_def)
qed

lemma first_packet_sent:
  "(\<And>c. connect_handshake p clock clock' cfg r d c = Some (client_wait p cfg key r b (c\<lparr>tx := tx c @ E\<rparr>)))
    \<Longrightarrow> first_packet p clock clock' cfg r d = E"
  using client_wait_tx [of p cfg key r b "\<lparr>rx = [], tx = E\<rparr>"]
  by (cases "client_wait p cfg key r b \<lparr>rx = [], tx = E\<rparr>") (simp add: first_packet_def)

text \<open>The keys the server tries, and whether one of them takes the packet.\<close>

definition server_keys ::
  "prims \<Rightarrow> int \<Rightarrow> HandshakeUser list \<Rightarrow> nat option \<Rightarrow> (nat \<times> HandshakeConfig \<times> bytes) list result"
where
  "server_keys p now users mode =
     (case mode of None \<Rightarrow> users_keys p now 0 users | Some fs \<Rightarrow> stealth_users_keys p now fs 0 users)"

definition key_matches :: "prims \<Rightarrow> nat option \<Rightarrow> bytes \<Rightarrow> nat \<times> HandshakeConfig \<times> bytes \<Rightarrow> bool" where
  "key_matches p mode E x =
     (case mode of
        None \<Rightarrow> plain_candidates p (take 24 E) (take 4 (drop 24 E)) [x] \<noteq> []
      | Some fs \<Rightarrow> stealth_authenticated p fs E [] [x] \<noteq> [])"

definition sole_match ::
  "prims \<Rightarrow> nat option \<Rightarrow> bytes \<Rightarrow> nat \<times> HandshakeConfig \<times> bytes \<Rightarrow> (nat \<times> HandshakeConfig \<times> bytes) list \<Rightarrow> bool"
where
  "sole_match p mode E x keys \<longleftrightarrow>
     (\<exists>as bs. keys = as @ x # bs \<and> (\<forall>y \<in> set as \<union> set bs. \<not> key_matches p mode E y))"

definition packet_digest :: "prims \<Rightarrow> nat option \<Rightarrow> bytes \<Rightarrow> bytes" where
  "packet_digest p mode E =
     (case mode of
        None \<Rightarrow> first_packet_digest p [take 24 E, take 4 (drop 24 E), drop 28 E]
      | Some _ \<Rightarrow> first_packet_digest p [E])"

definition read_hello :: "prims \<Rightarrow> int \<Rightarrow> HandshakeUser list \<Rightarrow> nat option \<Rightarrow> (conn, ParsedClientHello \<times> nat) io" where
  "read_hello p clock users mode =
     (case mode of
        Some fs \<Rightarrow> read_stealth_client_hello_for_users p clock users fs
      | None \<Rightarrow> read_plain_client_hello_for_users p clock users)"

lemma concat_map_sole:
  "\<forall>y \<in> set as \<union> set bs. f y = [] \<Longrightarrow> concat (map f (as @ x # bs)) = f x"
  by (auto simp: concat_eq_Nil_conv [THEN iffD2])

lemma read_sole_plain:
  assumes "h_stealth_frame_size cfg = None" "prims_ok p" "draw_ok d"
    and lens: "length nonce = 24" "length pub = 32" "length w = 8"
    and pad: "length pad \<le> min (h_max_handshake_padding cfg) MAX_HANDSHAKE_PADDING"
    and b: "b = hello_bytes now nonce pub version caps w pad"
    and E: "masked_hello p cfg key (hmac_sha256 p key b @ b) d = Inr E"
    and keys: "unix_now clock = Inr now'" "users_keys p now' 0 users = Inr keys"
    and sole: "sole_match p None E (i, cfg, key) keys"
  shows "read_plain_client_hello_for_users p clock users \<lparr>rx = E, tx = t\<rparr> =
    (Inr (parsed_hello p key b (packet_digest p None E), i), \<lparr>rx = [], tx = t\<rparr>)"
proof -
  let ?wire = "hmac_sha256 p key b @ b"
  have wire: "length ?wire = 116 + length pad"
    using assms(2) hello_fields(1) [OF lens, of now version caps pad] b by (simp add: prims_lengths)
  obtain ml pl extra where env:
    "mask_variable_handshake_envelope p key ''plain-client'' [] ?wire 512 d = Inr (d_nonce d @ ml @ pl)"
    "length (d_nonce d) = 24" "length ml = 4" "length extra \<le> 512"
    "unmask_variable_handshake_len p key ''plain-client'' [] (d_nonce d) ml = length ?wire + length extra"
    "length pl = length ?wire + length extra"
    "xor_variable_handshake_payload p key ''plain-client'' [] (d_nonce d) pl = ?wire @ extra"
    by (rule envelope_form [OF assms(2,3), of ?wire 512 key "''plain-client''" "[]"])
      (use wire pad in \<open>simp add: u32_max_def MAX_HANDSHAKE_PADDING_def\<close>)
  have E': "E = d_nonce d @ ml @ pl"
    using E env(1) assms(1) by (simp add: masked_hello_def VARIABLE_HANDSHAKE_EXTRA_PADDING_MAX_def)
  have parts: "take 24 E = d_nonce d" "take 4 (drop 24 E) = ml" "drop 28 E = pl"
    using env(2,3) by (simp_all add: E')
  have "length pad + length extra \<le> 512 + min (h_max_handshake_padding cfg) MAX_HANDSHAKE_PADDING"
    using pad env(4) by linarith
  then have cand: "plain_candidates p (d_nonce d) ml [(i, cfg, key)] = [(i, cfg, key, length pl)]"
    using env(5,6) wire
    by (simp add: plain_candidates_def Let_def plain_client_hello_min_len_def
        plain_client_hello_max_len_def hello_lens VARIABLE_HANDSHAKE_EXTRA_PADDING_MAX_def)
  from sole obtain as bs where split: "keys = as @ (i, cfg, key) # bs"
    and others: "\<forall>y \<in> set as \<union> set bs. \<not> key_matches p None E y"
    by (auto simp: sole_match_def)
  have cands: "plain_candidates p (d_nonce d) ml keys = [(i, cfg, key, length pl)]"
    unfolding split cand [symmetric] plain_candidates_def
    by (subst concat_map_sole) (use others parts in \<open>auto simp: key_matches_def plain_candidates_def\<close>)
  have parsed: "parse_plain_client_hello cfg (?wire @ extra) key =
      Inr (parsed_hello p key b (replicate 32 0))"
    using parse_hello [of "hmac_sha256 p key b" nonce pub w pad "min (h_max_handshake_padding cfg) MAX_HANDSHAKE_PADDING"]
      lens pad wire assms(2)
    by (simp add: parse_plain_client_hello_def plain_client_hello_min_len_def hello_lens prims_lengths b
        MAX_HANDSHAKE_PADDING_def u16_max_def)
  have auth: "plain_authenticated p (d_nonce d) pl dg [(i, cfg, key, length pl)] = [(parsed_hello p key b dg, i)]" for dg
    using env(7) parsed
    by (simp add: plain_authenticated_def client_hello_authenticates_def with_first_packet_digest_def)
  show ?thesis
    using env(2,3) keys cands auth
    by (simp add: read_plain_client_hello_for_users_def E' parts(1,2,3) [unfolded E'] io_bind_def ctx_def map_err_def
        read_exact_append [where bs = "d_nonce d"] read_exact_append [where bs = ml]
        read_exact_append [where bs = pl and rest = "[]"] hello_lens unique_candidate_payload_len_def packet_digest_def)
qed

lemma stealth_authenticated_single:
  "stealth_authenticated p fs E [] [x] = [] \<Longrightarrow> stealth_authenticated p fs E dg [x] = []"
  by (auto simp: stealth_authenticated_def split: prod.splits sum.splits if_splits)

lemma stealth_authenticated_concat:
  "stealth_authenticated p fs E dg keys = concat (map (\<lambda>x. stealth_authenticated p fs E dg [x]) keys)"
  by (simp add: stealth_authenticated_def cong: sum.case_cong)

lemma read_sole_stealth:
  assumes "h_stealth_frame_size cfg = Some fs" "140 \<le> fs" "prims_ok p" "draw_ok d"
    and lens: "length nonce = 24" "length pub = 32" "length w = 8"
    and pad: "length pad \<le> min (client_max_padding cfg) MAX_HANDSHAKE_PADDING"
    and b: "b = hello_bytes now nonce pub version caps w pad"
    and E: "masked_hello p cfg key (hmac_sha256 p key b @ b) d = Inr E"
    and keys: "unix_now clock = Inr now'" "stealth_users_keys p now' fs 0 users = Inr keys"
    and sole: "sole_match p (Some fs) E (i, cfg, key) keys"
  shows "read_stealth_client_hello_for_users p clock users fs \<lparr>rx = E, tx = t\<rparr> =
    (Inr (parsed_hello p key b (packet_digest p (Some fs) E), i), \<lparr>rx = [], tx = t\<rparr>)"
proof -
  let ?wire = "hmac_sha256 p key b @ b"
  have wire: "length ?wire = 116 + length pad"
    using assms(3) hello_fields(1) [OF lens, of now version caps pad] b by (simp add: prims_lengths)
  have le: "length ?wire + 24 \<le> fs" using wire pad assms(1,2) by (auto simp: client_max_padding_def)
  obtain blk extra where blk:
    "mask_stealth_handshake_block p key ''client-hello'' [] ?wire fs d = Inr blk" "length blk = fs"
    "unmask_stealth_handshake_block p key ''client-hello'' [] blk = Inr (?wire @ extra)"
    by (rule block_form [OF assms(3,4,2) le, of key "''client-hello''" "[]"])
  have E': "E = blk" using E blk(1) assms(1) by (simp add: masked_hello_def)
  have parsed: "parse_stealth_client_hello cfg (?wire @ extra) fs key =
      Inr (parsed_hello p key b (replicate 32 0))"
    using parse_hello [of "hmac_sha256 p key b" nonce pub w pad "client_max_padding cfg"]
      lens pad wire assms(1-3)
    by (simp add: parse_stealth_client_hello_def client_padding_cap client_max_padding_def hello_lens
        prims_lengths b MAX_HANDSHAKE_PADDING_def u16_max_def)
  have auth: "stealth_authenticated p fs E dg [(i, cfg, key)] = [(parsed_hello p key b dg, i)]" for dg
    using blk(3) parsed
    by (simp add: E' stealth_authenticated_def client_hello_authenticates_def with_first_packet_digest_def)
  from sole obtain as bs where split: "keys = as @ (i, cfg, key) # bs"
    and others: "\<forall>y \<in> set as \<union> set bs. \<not> key_matches p (Some fs) E y"
    by (auto simp: sole_match_def)
  have "stealth_authenticated p fs E dg keys = [(parsed_hello p key b dg, i)]" for dg
    unfolding split auth [symmetric]
    by (subst stealth_authenticated_concat, rule concat_map_sole)
      (use others in \<open>auto simp: key_matches_def stealth_authenticated_single\<close>)
  then show ?thesis
    using keys blk(2) assms(2) read_exact_append [of "\<lparr>rx = E, tx = t\<rparr>" E "[]" fs]
    by (simp add: read_stealth_client_hello_for_users_def io_bind_def ctx_def map_err_def E'
        validate_stealth_handshake_frame_def hello_lens packet_digest_def)
qed

section \<open>Agreement\<close>

text \<open>The client's half: what it sends does not depend on what it will read.\<close>

lemma client_half:
  assumes "prims_ok p" "hello_draw_ok r" "draw_ok d" "frames_ok cfg" "0 \<le> now" "now \<le> i64_max"
    and "solvable p cfg now r" "client_auth_key p cnow cfg = Inr key"
  obtains w pad b E where "length w = 8" "length pad \<le> min (client_max_padding cfg) MAX_HANDSHAKE_PADDING"
    "b = hello_bytes now (r_nonce r) (public_key p (r_secret r)) PROTOCOL_VERSION
       (handshake_capabilities cfg) w pad"
    "verify (sha256 p) b (h_puzzle_difficulty_bits cfg)"
    "masked_hello p cfg key (hmac_sha256 p key b @ b) d = Inr E"
    "\<And>c. connect_handshake p cnow now cfg r d c = Some (client_wait p cfg key r b (c\<lparr>tx := tx c @ E\<rparr>))"
    "first_packet p cnow now cfg r d = E"
proof -
  let ?pub = "public_key p (r_secret r)"
  obtain w pad where w: "length w = 8"
    and pad: "length pad \<le> min (client_max_padding cfg) MAX_HANDSHAKE_PADDING"
    and built: "\<And>b key. b = hello_bytes now (r_nonce r) ?pub PROTOCOL_VERSION
        (handshake_capabilities cfg) w pad \<Longrightarrow>
      build_client_hello p now cfg (client_max_padding cfg) key r =
        Some (Inr \<lparr>m_tag = hmac_sha256 p key b, m_body = b, m_nonce = r_nonce r,
                   m_wire = hmac_sha256 p key b @ b\<rparr>) \<and>
      verify (sha256 p) b (h_puzzle_difficulty_bits cfg)"
    using hello_built [OF assms(1,2,5,6,7)] by blast
  define b where "b = hello_bytes now (r_nonce r) ?pub PROTOCOL_VERSION (handshake_capabilities cfg) w pad"
  have "length (r_nonce r) = 24" "length ?pub = 32"
    using assms(1,2) by (simp_all add: hello_draw_ok_def prims_lengths)
  from hello_fields(1) [OF this w] have "length b = 84 + length pad" by (simp add: b_def)
  then obtain E where E: "masked_hello p cfg key (hmac_sha256 p key b @ b) d = Inr E"
    using masked_hello_form [OF assms(1,3,4) prims_lengths(2) [OF assms(1)] _ pad] by blast
  have conn: "connect_handshake p cnow now cfg r d c = Some (client_wait p cfg key r b (c\<lparr>tx := tx c @ E\<rparr>))" for c
    using client_connects [OF assms(8) _ E assms(4)] built [OF b_def] by blast
  show thesis
    using that [OF w pad b_def _ E conn first_packet_sent [OF conn]] built [OF b_def] by blast
qed

lemma read_sole:
  assumes "h_stealth_frame_size cfg = mode" "frames_ok cfg" "prims_ok p" "draw_ok d"
    and "length nonce = 24" "length pub = 32" "length w = 8"
    and "length pad \<le> min (client_max_padding cfg) MAX_HANDSHAKE_PADDING"
    and "b = hello_bytes now nonce pub version caps w pad"
    and "masked_hello p cfg key (hmac_sha256 p key b @ b) d = Inr E"
    and "unix_now clock = Inr now'" "server_keys p now' users mode = Inr keys"
    and "sole_match p mode E (i, cfg, key) keys"
  shows "read_hello p clock users mode \<lparr>rx = E, tx = t\<rparr> =
    (Inr (parsed_hello p key b (packet_digest p mode E), i), \<lparr>rx = [], tx = t\<rparr>)"
proof (cases mode)
  case None
  then show ?thesis
    using read_sole_plain [OF _ assms(3-7) _ assms(9-11)] assms(1,8,12,13)
    by (simp add: read_hello_def server_keys_def client_max_padding_def)
next
  case (Some fs)
  then show ?thesis
    using read_sole_stealth [OF _ _ assms(3-11)] assms(1,2,12,13)
    by (simp add: read_hello_def server_keys_def frames_ok_def)
qed

lemma accept_users_steps:
  assumes "i < length users" "cfg = u_config (users ! i)" "mode = h_stealth_frame_size (u_config (hd users))"
    and "read_hello p ck users mode c = (Inr (h, i), c1)"
    and "verify_client_hello p ck' cfg h (c1, Some cache) = (Inr (), (c1, Some cache'))"
    and "send_server_hello_and_derive_keys p cfg h secret ds c1 = (Inr ks, c2)"
  shows "accept_handshake_with_users p ck ck' users secret ds cache c =
    (Inr \<lparr>a_keys = ks, a_user = u_name (users ! i)\<rparr>, c2, Some cache')"
proof -
  obtain u us where "users = u # us" using assms(1) by (cases users) auto
  with assms show ?thesis
    by (cases mode) (simp_all add: accept_handshake_with_users_def accept_handshake_users_inner_def
        on_conn_def io_bind_def io_then_def read_hello_def Let_def)
qed

lemma handshake_agrees:
  assumes "prims_ok p" "hello_draw_ok r" "draw_ok d" "draw_ok ds"
    and "i < length users" "cfg = u_config (users ! i)" "frames_ok cfg"
    and "mode = h_stealth_frame_size (u_config (hd users))" "h_stealth_frame_size cfg = mode"
    and times: "0 \<le> now" "now \<le> i64_max" "0 \<le> ck" "ck \<le> i64_max" "0 \<le> ck'" "ck' \<le> i64_max"
    and "\<bar>ck' - now\<bar> \<le> h_clock_skew_secs cfg"
    and "solvable p cfg now r"
    and "client_auth_key p cnow cfg = Inr key"
    and "E = first_packet p cnow now cfg r d"
    and "server_keys p ck users mode = Inr keys" "sole_match p mode E (i, cfg, key) keys"
    and "replay_wf cache" "FirstPacketDigest (packet_digest p mode E) \<notin> live ck' cache"
      "EphemeralPublicKey (public_key p (r_secret r)) \<notin> live ck' cache"
  shows "\<exists>reply ks kc cache' h. read_hello p ck users mode \<lparr>rx = E, tx = []\<rparr> = (Inr (h, i), \<lparr>rx = [], tx = []\<rparr>) \<and>
    c_first_packet_digest h = packet_digest p mode E \<and> subslice 32 64 (c_fixed_body h) = public_key p (r_secret r) \<and>
    accept_handshake_with_users p ck ck' users secret ds cache \<lparr>rx = E, tx = []\<rparr> =
      (Inr \<lparr>a_keys = ks, a_user = u_name (users ! i)\<rparr>, \<lparr>rx = [], tx = reply\<rparr>, Some cache') \<and>
    connect_handshake p cnow now cfg r d \<lparr>rx = reply, tx = []\<rparr> = Some (Inr kc, \<lparr>rx = [], tx = E\<rparr>) \<and>
    mirrored kc ks \<and> mirrored ks kc"
proof -
  let ?pub = "public_key p (r_secret r)" and ?key = "hmac_sha256 p key" and ?dg = "packet_digest p mode E"
  obtain w pad b where w: "length w = 8"
    and pad: "length pad \<le> min (client_max_padding cfg) MAX_HANDSHAKE_PADDING"
    and b: "b = hello_bytes now (r_nonce r) ?pub PROTOCOL_VERSION (handshake_capabilities cfg) w pad"
    and solved: "verify (sha256 p) b (h_puzzle_difficulty_bits cfg)"
    and E: "masked_hello p cfg key (?key b @ b) d = Inr E"
    and conn: "\<And>c. connect_handshake p cnow now cfg r d c = Some (client_wait p cfg key r b (c\<lparr>tx := tx c @ E\<rparr>))"
    using client_half [OF assms(1-3,7) times(1,2) assms(17,18)] assms(19) by metis
  have lens: "length (r_nonce r) = 24" "length ?pub = 32"
    using assms(1,2) by (simp_all add: hello_draw_ok_def prims_lengths)
  obtain env where env: "masked_reply p cfg key (?key b) (server_reply p cfg key b secret) ds = Inr env"
    and wait: "\<And>c. rx c = env \<Longrightarrow> client_wait p cfg key r b c =
       (Inr (derive_keys p (h_psk cfg) (diffie_hellman p (r_secret r) (public_key p secret)) (r_nonce r)
               (ascii ''client'')), c\<lparr>rx := []\<rparr>)"
    using client_wait_reply [OF assms(1,4,7)] by blast
  obtain cache' where cache': "check_and_insert_handshake ck' ?dg ?pub cache = (Inr (), cache')"
    using handshake_result [OF assms(22), of ck' ?dg ?pub] assms(23,24) by (metis prod.collapse)
  note read = read_sole [OF assms(9,7,1,3) lens w pad b E unix_now_Inr [OF times(3,4)] assms(20,21)]
  note check = verify_accepts [OF lens w _ times(1,2,5,6) assms(16) cache', of p pad key, folded b, OF solved]
  note send = send_reply [OF lens w, of p cfg key now pad secret ds env, folded b, OF env]
  let ?k = "derive_keys p (h_psk cfg) (diffie_hellman p secret ?pub) (r_nonce r)"
  have "accept_handshake_with_users p ck ck' users secret ds cache \<lparr>rx = E, tx = []\<rparr> =
      (Inr \<lparr>a_keys = ?k (ascii ''server''), a_user = u_name (users ! i)\<rparr>, \<lparr>rx = [], tx = env\<rparr>, Some cache')"
    using accept_users_steps [OF assms(5,6,8) read check send] by simp
  moreover have "connect_handshake p cnow now cfg r d \<lparr>rx = env, tx = []\<rparr> =
      Some (Inr (?k (ascii ''client'')), \<lparr>rx = [], tx = E\<rparr>)"
    using conn wait by (simp add: dh_agrees [OF assms(1), of "r_secret r" secret])
  moreover have "subslice 32 64 (take 84 b) = ?pub" using hello_fields(4) [OF lens w] by (simp add: b)
  ultimately show ?thesis using read derive_keys_mirrored [of p "h_psk cfg" "diffie_hellman p secret ?pub" "r_nonce r"]
    by (intro exI conjI) (assumption | simp)+
qed

section \<open>What an accepted hello says\<close>

lemma users_keys_sound:
  "users_keys p now k users = Inr keys \<Longrightarrow> (j, cfg, key) \<in> set keys \<Longrightarrow>
     k \<le> j \<and> j - k < length users \<and> cfg = u_config (users ! (j - k)) \<and>
     (\<exists>ks. accepted_auth_keys p now cfg = Inr ks \<and> key \<in> set ks)"
proof (induction users arbitrary: k keys)
  case (Cons u us)
  from Cons.prems(1) obtain ks rest where ks: "accepted_auth_keys p now (u_config u) = Inr ks"
    and rest: "users_keys p now (Suc k) us = Inr rest"
    and keys: "keys = map (\<lambda>key. (k, u_config u, key)) ks @ rest"
    by (auto simp: res_bind_eq_Inr)
  show ?case
  proof (cases "(j, cfg, key) \<in> set rest")
    case True
    with Cons.IH [OF rest] show ?thesis by (auto simp: nth_Cons' Suc_diff_le)
  next
    case False
    with Cons.prems(2) ks keys show ?thesis by auto
  qed
qed simp

lemma stealth_users_keys_sound:
  "stealth_users_keys p now fs k users = Inr keys \<Longrightarrow> (j, cfg, key) \<in> set keys \<Longrightarrow>
     k \<le> j \<and> j - k < length users \<and> cfg = u_config (users ! (j - k)) \<and>
     (\<exists>ks. accepted_auth_keys p now cfg = Inr ks \<and> key \<in> set ks)"
proof (induction users arbitrary: k keys)
  case (Cons u us)
  show ?case
  proof (cases "h_stealth_frame_size (u_config u) = Some fs")
    case True
    with Cons.prems(1) obtain ks rest where ks: "accepted_auth_keys p now (u_config u) = Inr ks"
      and rest: "stealth_users_keys p now fs (Suc k) us = Inr rest"
      and keys: "keys = map (\<lambda>key. (k, u_config u, key)) ks @ rest"
      by (auto simp: res_bind_eq_Inr)
    show ?thesis
    proof (cases "(j, cfg, key) \<in> set rest")
      case True
      with Cons.IH [OF rest] show ?thesis by (auto simp: nth_Cons' Suc_diff_le)
    next
      case False
      with Cons.prems(2) ks keys show ?thesis by auto
    qed
  next
    case False
    with Cons.IH [of "Suc k"] Cons.prems show ?thesis by (auto simp: nth_Cons' Suc_diff_le)
  qed
qed simp

text \<open>The clear text of a first packet under a key.\<close>

definition unwrap :: "prims \<Rightarrow> nat option \<Rightarrow> bytes \<Rightarrow> bytes \<Rightarrow> bytes" where
  "unwrap p mode key pkt =
     (case mode of
        None \<Rightarrow> xor_variable_handshake_payload p key ''plain-client'' [] (take 24 pkt) (drop 28 pkt)
      | Some fs \<Rightarrow> xor_hmac_stream p key ''client-hello'' (take 24 pkt) [] (drop 24 pkt))"

definition hello_of :: "prims \<Rightarrow> bytes \<Rightarrow> ParsedClientHello \<Rightarrow> bool" where
  "hello_of p clear h \<longleftrightarrow>
     (\<exists>extra. clear = c_tag h @ c_body h @ extra) \<and> length (c_tag h) = 32 \<and> 84 \<le> length (c_body h) \<and>
     c_fixed_body h = take 84 (c_body h) \<and> hmac_sha256 p (c_auth_key h) (c_body h) = c_tag h"

lemma parse_hello_sound:
  assumes "parse_hello_fields cap e1 e2 plain key = Inr h" "116 \<le> length plain"
  shows "c_auth_key h = key \<and> length (c_tag h) = 32 \<and> 84 \<le> length (c_body h) \<and>
    c_fixed_body h = take 84 (c_body h) \<and> (\<exists>extra. plain = c_tag h @ c_body h @ extra)"
proof -
  define fx where "fx = subslice 32 116 plain"
  define n where "n = unat (from_be_u16 (subslice 82 84 fx))"
  have fx: "length fx = 84" using assms(2) by (simp add: fx_def)
  from assms(1) have le: "116 + n \<le> length plain"
    and h: "h = \<lparr>c_tag = take 32 plain, c_auth_key = key, c_fixed_body = fx,
       c_body = fx @ subslice 116 (116 + n) plain, c_first_packet_digest = replicate 32 0\<rparr>"
    by (auto simp: parse_hello_fields_def hello_lens Let_def n_def fx_def split: if_splits)
  have "plain = take 32 plain @ drop 32 plain" by simp
  also have "drop 32 plain = fx @ drop 116 plain"
    unfolding fx_def by (rule subslice_split) simp
  also have "drop 116 plain = subslice 116 (116 + n) plain @ drop (116 + n) plain"
    by (rule subslice_split) simp
  finally show ?thesis using h fx le by auto
qed

lemma plain_authenticated_sound:
  assumes "plain_authenticated p nonce pl dg cands = [(h, i)]"
  shows "\<exists>cfg n. (i, cfg, c_auth_key h, n) \<in> set cands \<and> c_first_packet_digest h = dg \<and>
    hello_of p (xor_variable_handshake_payload p (c_auth_key h) ''plain-client'' [] nonce pl) h"
proof -
  from assms have "(h, i) \<in> set (plain_authenticated p nonce pl dg cands)" by simp
  then obtain cfg key n g where x: "(i, cfg, key, n) \<in> set cands"
    and g: "Inr g = parse_plain_client_hello cfg (xor_variable_handshake_payload p key ''plain-client'' [] nonce pl) key"
    and auth: "client_hello_authenticates p g" and h: "h = with_first_packet_digest dg g"
    by (auto simp: plain_authenticated_def split: sum.splits if_splits)
  from g [symmetric] have "parse_hello_fields (min (h_max_handshake_padding cfg) MAX_HANDSHAKE_PADDING)
      ''handshake padding exceeds configured user limit'' ''short client handshake padding''
      (xor_variable_handshake_payload p key ''plain-client'' [] nonce pl) key = Inr g"
    "116 \<le> length (xor_variable_handshake_payload p key ''plain-client'' [] nonce pl)"
    by (auto simp: parse_plain_client_hello_def plain_client_hello_min_len_def hello_lens split: if_splits)
  note sound = parse_hello_sound [OF this]
  then have "hello_of p (xor_variable_handshake_payload p key ''plain-client'' [] nonce pl) h"
    using auth by (simp add: h hello_of_def with_first_packet_digest_def client_hello_authenticates_def)
  with sound x show ?thesis by (auto simp: h with_first_packet_digest_def)
qed

lemma stealth_authenticated_sound:
  assumes "stealth_authenticated p fs blk dg keys = [(h, i)]"
  shows "\<exists>cfg. (i, cfg, c_auth_key h) \<in> set keys \<and> c_first_packet_digest h = dg \<and>
    hello_of p (xor_hmac_stream p (c_auth_key h) ''client-hello'' (take 24 blk) [] (drop 24 blk)) h"
proof -
  from assms have "(h, i) \<in> set (stealth_authenticated p fs blk dg keys)" by simp
  then obtain cfg key g where x: "(i, cfg, key) \<in> set keys"
    and g: "Inr g = res_bind (unmask_stealth_handshake_block p key ''client-hello'' [] blk)
        (\<lambda>plain. parse_stealth_client_hello cfg plain fs key)"
    and auth: "client_hello_authenticates p g" and h: "h = with_first_packet_digest dg g"
    by (auto simp: stealth_authenticated_def split: sum.splits if_splits)
  from g [symmetric] obtain cap where "parse_hello_fields cap
      ''handshake padding exceeds configured stealth limit'' ''short stealth client handshake padding''
      (xor_hmac_stream p key ''client-hello'' (take 24 blk) [] (drop 24 blk)) key = Inr g"
    "116 \<le> length (xor_hmac_stream p key ''client-hello'' (take 24 blk) [] (drop 24 blk))"
    by (auto simp: unmask_stealth_handshake_block_def parse_stealth_client_hello_def hello_lens
        res_bind_eq_Inr Let_def split: if_splits)
  note sound = parse_hello_sound [OF this]
  then have "hello_of p (xor_hmac_stream p key ''client-hello'' (take 24 blk) [] (drop 24 blk)) h"
    using auth by (simp add: h hello_of_def with_first_packet_digest_def client_hello_authenticates_def)
  with sound x show ?thesis by (auto simp: h with_first_packet_digest_def)
qed

lemma read_hello_sound:
  assumes "read_hello p ck users mode c = (Inr (h, i), c1)"
  obtains now pkt keys where "unix_now ck = Inr now" "i < length users"
    "accepted_auth_keys p now (u_config (users ! i)) = Inr keys" "c_auth_key h \<in> set keys"
    "rx c = pkt @ rx c1" "tx c1 = tx c" "c_first_packet_digest h = packet_digest p mode pkt"
    "hello_of p (unwrap p mode (c_auth_key h) pkt) h"
proof (cases mode)
  case None
  with assms obtain nonce ml now keys n pl t1 t2 where
    r: "read_exact 24 c = (Inr nonce, t1)" "read_exact 4 t1 = (Inr ml, t2)" "read_exact n t2 = (Inr pl, c1)"
    and now: "unix_now ck = Inr now" and keys: "users_keys p now 0 users = Inr keys"
    and auth: "plain_authenticated p nonce pl (first_packet_digest p [nonce, ml, pl])
        (plain_candidates p nonce ml keys) = [(h, i)]"
    by (auto simp: read_hello_def read_plain_client_hello_for_users_def ctx_def hello_lens Let_def
        split: option.splits list.splits if_splits elim!: io_bind_result_cases)
  from plain_authenticated_sound [OF auth] obtain cfg where x: "(i, cfg, c_auth_key h) \<in> set keys"
    and dg: "c_first_packet_digest h = first_packet_digest p [nonce, ml, pl]"
    and of: "hello_of p (xor_variable_handshake_payload p (c_auth_key h) ''plain-client'' [] nonce pl) h"
    by (auto simp: plain_candidates_def Let_def split: if_splits)
  have "rx c = (nonce @ ml @ pl) @ rx c1" "length nonce = 24" "length ml = 4" "tx c1 = tx c"
    using r [THEN read_exact_InrD] by auto
  moreover from users_keys_sound [OF keys x] obtain ks where "i < length users"
    "accepted_auth_keys p now (u_config (users ! i)) = Inr ks" "c_auth_key h \<in> set ks" by auto
  ultimately show thesis
    using now dg of None by (intro that [of now ks "nonce @ ml @ pl"]) (auto simp: packet_digest_def unwrap_def)
next
  case (Some fs)
  with assms obtain blk now keys where
    r: "read_exact fs c = (Inr blk, c1)" and now: "unix_now ck = Inr now"
    and keys: "stealth_users_keys p now fs 0 users = Inr keys"
    and auth: "stealth_authenticated p fs blk (first_packet_digest p [blk]) keys = [(h, i)]"
    by (auto simp: read_hello_def read_stealth_client_hello_for_users_def ctx_def
        split: list.splits elim!: io_bind_result_cases)
  from stealth_authenticated_sound [OF auth] obtain cfg where x: "(i, cfg, c_auth_key h) \<in> set keys"
    and dg: "c_first_packet_digest h = first_packet_digest p [blk]"
    and of: "hello_of p (xor_hmac_stream p (c_auth_key h) ''client-hello'' (take 24 blk) [] (drop 24 blk)) h"
    by auto
  from stealth_users_keys_sound [OF keys x] obtain ks where "i < length users"
    "accepted_auth_keys p now (u_config (users ! i)) = Inr ks" "c_auth_key h \<in> set ks" by auto
  then show thesis
    using read_exact_InrD [OF r] now dg of Some
    by (intro that [of now ks blk]) (auto simp: packet_digest_def unwrap_def)
qed

text \<open>What the server has checked of a hello, and what its call did to the cache.\<close>

definition hello_checked :: "prims \<Rightarrow> HandshakeConfig \<Rightarrow> int \<Rightarrow> ParsedClientHello \<Rightarrow> bool" where
  "hello_checked p cfg now h \<longleftrightarrow>
     verify (sha256 p) (c_body h) (h_puzzle_difficulty_bits cfg) \<and>
     from_be_u16 (subslice 64 66 (c_fixed_body h)) = PROTOCOL_VERSION \<and>
     from_be_u64 (subslice 66 74 (c_fixed_body h)) AND CAP_TCP_CONNECT \<noteq> 0 \<and>
     from_be_u64 (subslice 66 74 (c_fixed_body h)) AND mux_capability (h_mux_mode cfg) \<noteq> 0 \<and>
     timestamp_fresh now (from_be_i64 (take 8 (c_fixed_body h))) (h_clock_skew_secs cfg)"

lemma verify_hello_sound:
  assumes "verify_client_hello p ck cfg h (c, Some cache) = (Inr (), s)"
  obtains now cache' where "unix_now ck = Inr now" "hello_checked p cfg now h" "s = (c, Some cache')"
    "hs_call now (c_first_packet_digest h, subslice 32 64 (c_fixed_body h)) cache = (Inr (), cache')"
  using assms
  by (auto simp: verify_client_hello_def Let_def supports_protocol_version_def ensure_mux_capability_def
      check_replay_def hello_checked_def hs_call_def split: if_splits prod.splits elim!: io_bind_result_cases)

lemma verify_hello_cache:
  "\<exists>cache'. snd (verify_client_hello p ck cfg h (c, Some cache)) = (c, Some cache') \<and>
     (cache' = cache \<or> (\<exists>now a. unix_now ck = Inr now \<and> cache' = snd (hs_call now a cache)))"
  by (auto simp: verify_client_hello_def Let_def check_replay_def hs_call_def io_bind_def ensure_mux_capability_def
      split: sum.splits prod.splits) (metis fst_conv snd_conv)+

lemma send_sound:
  assumes "send_server_hello_and_derive_keys p cfg h secret d c = (Inr ks, c1)"
  shows "ks = derive_keys p (h_psk cfg) (diffie_hellman p secret (subslice 32 64 (c_fixed_body h)))
      (subslice 8 32 (c_fixed_body h)) (ascii ''server'') \<and> rx c1 = rx c"
  using assms
  by (auto simp: send_server_hello_and_derive_keys_def Let_def io_then_def write_all_def elim!: io_bind_result_cases)

lemma on_conn_Inr: "on_conn m s = (Inr a, t) \<longleftrightarrow> (\<exists>c. m (fst s) = (Inr a, c) \<and> t = (c, snd s))"
  by (auto simp: on_conn_def split: prod.splits)

abbreviation users_mode :: "HandshakeUser list \<Rightarrow> nat option" where
  "users_mode users \<equiv> h_stealth_frame_size (u_config (hd users))"

lemma accept_users_form:
  "users \<noteq> [] \<Longrightarrow> accept_handshake_with_users p ck ck' users secret d cache c =
    io_bind (on_conn (read_hello p ck users (users_mode users))) (\<lambda>(h, i).
      if i \<ge> length users then io_fail (Bail ''selected handshake user is out of range'')
      else io_then (verify_client_hello p ck' (u_config (users ! i)) h)
        (io_bind (on_conn (send_server_hello_and_derive_keys p (u_config (users ! i)) h secret d))
          (\<lambda>keys. io_return \<lparr>a_keys = keys, a_user = u_name (users ! i)\<rparr>))) (c, Some cache)"
  by (cases users) (simp_all add: accept_handshake_with_users_def accept_handshake_users_inner_def
      read_hello_def Let_def cong: if_cong)

lemma accept_users_cases:
  assumes "accept_handshake_with_users p ck ck' users secret d cache c = (Inr s, c2, cache2)"
  obtains h i c1 now cache' where "read_hello p ck users (users_mode users) c = (Inr (h, i), c1)"
    "i < length users" "a_user s = u_name (users ! i)" "unix_now ck' = Inr now"
    "hello_checked p (u_config (users ! i)) now h"
    "hs_call now (c_first_packet_digest h, subslice 32 64 (c_fixed_body h)) cache = (Inr (), cache')"
    "send_server_hello_and_derive_keys p (u_config (users ! i)) h secret d c1 = (Inr (a_keys s), c2)"
    "cache2 = Some cache'"
proof (cases "users = []")
  case True
  with assms show thesis by (simp add: accept_handshake_with_users_def accept_handshake_users_inner_def)
next
  case False
  from assms accept_users_form [OF False] obtain h i c1 t where
    r: "read_hello p ck users (users_mode users) c = (Inr (h, i), c1)" "i < length users"
    and v: "verify_client_hello p ck' (u_config (users ! i)) h (c1, Some cache) = (Inr (), t)"
    and k: "on_conn (send_server_hello_and_derive_keys p (u_config (users ! i)) h secret d) t = (Inr (a_keys s), c2, cache2)"
      "a_user s = u_name (users ! i)"
    by (auto simp: io_then_def on_conn_Inr [of "read_hello _ _ _ _"] split: if_splits elim!: io_bind_result_cases)
  from verify_hello_sound [OF v] obtain now cache' where "unix_now ck' = Inr now"
    "hello_checked p (u_config (users ! i)) now h" "t = (c1, Some cache')"
    "hs_call now (c_first_packet_digest h, subslice 32 64 (c_fixed_body h)) cache = (Inr (), cache')" by blast
  with r k show thesis by (intro that [of h i c1 now cache']) (auto simp: on_conn_Inr)
qed

lemma accept_users_call:
  assumes "accept_handshake_with_users p ck t users secret d cache c = (Inr s, c2, cache2)"
    and "read_hello p ck users (users_mode users) c = (Inr (h, i), c1)" and "0 \<le> t" "t \<le> i64_max"
  shows "\<exists>cache'. cache2 = Some cache' \<and>
    hs_call t (c_first_packet_digest h, subslice 32 64 (c_fixed_body h)) cache = (Inr (), cache')"
  using accept_users_cases [OF assms(1)] assms(2-4) by (auto simp: unix_now_Inr)

text \<open>Whatever happens on its connection, a handshake changes the cache by at most one call.\<close>

lemma accept_users_cache:
  "\<exists>cache'. snd (snd (accept_handshake_with_users p ck ck' users secret d cache c)) = Some cache' \<and>
     (cache' = cache \<or> (\<exists>now a. unix_now ck' = Inr now \<and> cache' = snd (hs_call now a cache)))"
proof (cases "users = []")
  case True
  then show ?thesis by (simp add: accept_handshake_with_users_def accept_handshake_users_inner_def)
next
  case False
  obtain r c1 where r: "read_hello p ck users (users_mode users) c = (r, c1)" by force
  show ?thesis
  proof (cases "\<exists>h i. r = Inr (h, i) \<and> i < length users")
    case True
    then obtain h i where hi: "r = Inr (h, i)" "i < length users" by blast
    have "snd (snd (accept_handshake_with_users p ck ck' users secret d cache c)) =
        snd (snd (verify_client_hello p ck' (u_config (users ! i)) h (c1, Some cache)))"
      using r hi False
      by (auto simp: accept_users_form io_bind_def io_then_def on_conn_def split: prod.splits sum.splits)
    with verify_hello_cache [of p ck' "u_config (users ! i)" h c1 cache] show ?thesis by (metis snd_conv)
  next
    case no: False
    then have "snd (snd (accept_handshake_with_users p ck ck' users secret d cache c)) = Some cache"
      using r False
      by (auto simp: accept_users_form io_bind_def on_conn_def split: prod.splits sum.splits)
    then show ?thesis by blast
  qed
qed

text \<open>The server over its life: handshakes on any connections, one after another at the cache.\<close>

type_synonym arrival = "int \<times> int \<times> bytes \<times> mask_draw \<times> conn"

fun serve :: "prims \<Rightarrow> HandshakeUser list \<Rightarrow> arrival list \<Rightarrow> ReplayCache \<Rightarrow> ReplayCache" where
  "serve p users [] cache = cache"
| "serve p users ((ck, ck', secret, d, c) # rest) cache =
     (case accept_handshake_with_users p ck ck' users secret d cache c of
        (_, _, Some cache') \<Rightarrow> serve p users rest cache'
      | (_, _, None) \<Rightarrow> serve p users rest cache)"

lemma serve_calls:
  assumes "\<forall>(ck, ck', x) \<in> set arrivals. 0 \<le> ck' \<and> ck' \<le> min u i64_max"
  shows "\<exists>calls. serve p users arrivals cache = guard_run hs_call calls cache \<and> (\<forall>(now, a) \<in> set calls. now \<le> u)"
  using assms
proof (induction arrivals arbitrary: cache)
  case (Cons x rest)
  obtain ck ck' secret d c where x: "x = (ck, ck', secret, d, c)" by (cases x)
  from Cons.prems have ck': "unix_now ck' = Inr ck'" "ck' \<le> u" by (simp_all add: x unix_now_Inr)
  obtain cache' where acc: "snd (snd (accept_handshake_with_users p ck ck' users secret d cache c)) = Some cache'"
    and upd: "cache' = cache \<or> (\<exists>now a. unix_now ck' = Inr now \<and> cache' = snd (hs_call now a cache))"
    using accept_users_cache [of p ck ck' users secret d cache c] by blast
  have "\<exists>calls. serve p users rest cache' = guard_run hs_call calls cache' \<and> (\<forall>(now, a) \<in> set calls. now \<le> u)"
    using Cons.IH [of cache'] Cons.prems by simp
  then obtain calls where calls: "serve p users rest cache' = guard_run hs_call calls cache'"
    "\<forall>(now, a) \<in> set calls. now \<le> u" by blast
  have s: "serve p users (x # rest) cache = guard_run hs_call calls cache'"
    using acc calls(1) by (cases "accept_handshake_with_users p ck ck' users secret d cache c") (auto simp: x)
  from upd consider "cache' = cache" | a where "cache' = snd (hs_call ck' a cache)"
    using ck'(1) by auto
  then show ?case
  proof cases
    case 1
    with s calls(2) show ?thesis by blast
  next
    case (2 a)
    with s calls(2) ck'(2) show ?thesis by (intro exI [of _ "(ck', a) # calls"]) simp
  qed
qed (auto intro: exI [of _ "[]"])

section \<open>A small instance\<close>

text \<open>
  One user without windows and without a puzzle, and fixed draws: the inputs of the witnesses.
\<close>

definition demo_cfg :: "nat option \<Rightarrow> HandshakeConfig" where
  "demo_cfg mode = \<lparr>h_psk = replicate 16 1, h_auth_key = replicate 32 2,
     h_window = handshake_window_default\<lparr>w_enabled := False\<rparr>, h_clock_skew_secs = 30,
     h_max_handshake_padding = 64, h_puzzle_difficulty_bits = 0, h_stealth_frame_size = mode,
     h_mux_mode = Native\<rparr>"

definition demo_users :: "nat option \<Rightarrow> HandshakeUser list" where
  "demo_users mode = [\<lparr>u_name = ascii ''alice'', u_config = demo_cfg mode\<rparr>]"

definition demo_hello :: hello_draw where
  "demo_hello = \<lparr>r_secret = replicate 32 4, r_nonce = replicate 24 6, r_padding_len = 10, r_fill = \<lambda>n. replicate n 0\<rparr>"

definition demo_draw :: mask_draw where
  "demo_draw = \<lparr>d_nonce = replicate 24 8, d_extra = 5, d_fill = \<lambda>n. replicate n 0\<rparr>"

lemmas demo_defs = demo_prims_def demo_cfg_def demo_users_def demo_hello_def demo_draw_def

lemma demo_ok: "prims_ok demo_prims" "hello_draw_ok demo_hello" "draw_ok demo_draw"
  by (simp_all add: demo_prims_ok demo_hello_def demo_draw_def hello_draw_ok_def draw_ok_def)

lemma demo_client: "client_auth_key demo_prims t (demo_cfg mode) = Inr (replicate 32 2)"
  "solvable demo_prims (demo_cfg mode) t demo_hello"
  by (simp_all add: client_auth_key_def solvable_def demo_cfg_def exI [of _ "0::nat"])

lemma demo_server:
  "server_keys demo_prims t (demo_users mode) mode = Inr [(0, demo_cfg mode, replicate 32 2)]"
  "sole_match p mode E x [x]"
  by (cases mode; simp add: server_keys_def accepted_auth_keys_def demo_users_def demo_cfg_def sole_match_def Cons_eq_append_conv)+

lemma demo_cfg_mode [simp]: "h_stealth_frame_size (demo_cfg mode) = mode"
  by (simp add: demo_cfg_def)

lemma demo_live: "live t (replay_new ttl) = {}"
  by (simp add: live_def replay_new_def)

abbreviation demo_packet :: "nat option \<Rightarrow> bytes" where
  "demo_packet mode \<equiv> first_packet demo_prims 999 990 (demo_cfg mode) demo_hello demo_draw"

lemma demo_accept:
  assumes "mode = None \<or> mode = Some 512"
  shows "\<exists>s c2 cache' h. read_hello demo_prims 1000 (demo_users mode) mode \<lparr>rx = demo_packet mode, tx = []\<rparr> =
      (Inr (h, 0), \<lparr>rx = [], tx = []\<rparr>) \<and>
    accept_handshake_with_users demo_prims 1000 1001 (demo_users mode) [1] demo_draw (replay_new 60)
      \<lparr>rx = demo_packet mode, tx = []\<rparr> = (Inr s, c2, Some cache')"
proof -
  have frames: "frames_ok (demo_cfg mode)" using assms by (auto simp: frames_ok_def)
  have user: "demo_users mode ! 0 = \<lparr>u_name = ascii ''alice'', u_config = demo_cfg mode\<rparr>"
    "length (demo_users mode) = 1" "hd (demo_users mode) = \<lparr>u_name = ascii ''alice'', u_config = demo_cfg mode\<rparr>"
    by (simp_all add: demo_users_def)
  have skew: "h_clock_skew_secs (demo_cfg mode) = 30" by (simp add: demo_cfg_def)
  obtain reply ks kc cache' h where
    "read_hello demo_prims 1000 (demo_users mode) mode \<lparr>rx = demo_packet mode, tx = []\<rparr> =
      (Inr (h, 0), \<lparr>rx = [], tx = []\<rparr>)"
    "accept_handshake_with_users demo_prims 1000 1001 (demo_users mode) [1] demo_draw (replay_new 60)
      \<lparr>rx = demo_packet mode, tx = []\<rparr> = (Inr \<lparr>a_keys = ks, a_user = u_name (demo_users mode ! 0)\<rparr>, \<lparr>rx = [], tx = reply\<rparr>, Some cache')"
    using handshake_agrees [OF demo_ok(1,2,3,3), of 0 "demo_users mode" "demo_cfg mode" mode 990 1000 1001 999
      "replicate 32 2" _ "[(0, demo_cfg mode, replicate 32 2)]" "replay_new 60" "[1]",
      OF _ _ frames _ _ _ _ _ _ _ _ _ demo_client(2,1) refl demo_server replay_new_wf] user skew
    by (auto simp: demo_live i64_max_def)
  then show ?thesis by blast
qed

section \<open>Properties\<close>

text \<open>
  C1: an honest client and the server agree. The client has the configuration of one of the
  server's users; its puzzle has a solution; its key is accepted by the server and no other key
  takes the packet; its clock is within the user's skew of the server's; and the packet's digest
  and the ephemeral key are not live in the replay cache. Then the server, reading the bytes the
  client sends first, accepts, attributes the session to that user and answers; the client, reading that
  answer, finishes; both have read all there was; and the session keys are mirrored. This covers
  the plain and the stealth form.
\<close>

theorem handshake_agreement:
  assumes "prims_ok p" "hello_draw_ok r" "draw_ok d" "draw_ok ds"
    and "i < length users" "cfg = u_config (users ! i)" "frames_ok cfg"
    and "mode = h_stealth_frame_size (u_config (hd users))" "h_stealth_frame_size cfg = mode"
    and times: "0 \<le> now" "now \<le> i64_max" "0 \<le> ck" "ck \<le> i64_max" "0 \<le> ck'" "ck' \<le> i64_max"
    and "\<bar>ck' - now\<bar> \<le> h_clock_skew_secs cfg"
    and "solvable p cfg now r"
    and "client_auth_key p cnow cfg = Inr key"
    and "E = first_packet p cnow now cfg r d"
    and "server_keys p ck users mode = Inr keys" "sole_match p mode E (i, cfg, key) keys"
    and "replay_wf cache" "FirstPacketDigest (packet_digest p mode E) \<notin> live ck' cache"
      "EphemeralPublicKey (public_key p (r_secret r)) \<notin> live ck' cache"
  shows "\<exists>reply ks kc cache'.
    accept_handshake_with_users p ck ck' users secret ds cache \<lparr>rx = E, tx = []\<rparr> =
      (Inr \<lparr>a_keys = ks, a_user = u_name (users ! i)\<rparr>, \<lparr>rx = [], tx = reply\<rparr>, Some cache') \<and>
    connect_handshake p cnow now cfg r d \<lparr>rx = reply, tx = []\<rparr> = Some (Inr kc, \<lparr>rx = [], tx = E\<rparr>) \<and>
    mirrored kc ks \<and> mirrored ks kc"
  using handshake_agrees [OF assms] by blast

theorem handshake_agreement_witness:
  "\<exists>reply ks kc cache'.
    accept_handshake_with_users demo_prims 1000 1001 (demo_users (Some 512)) [1] demo_draw (replay_new 60)
        \<lparr>rx = first_packet demo_prims 999 990 (demo_cfg (Some 512)) demo_hello demo_draw, tx = []\<rparr> =
      (Inr \<lparr>a_keys = ks, a_user = ascii ''alice''\<rparr>, \<lparr>rx = [], tx = reply\<rparr>, Some cache') \<and>
    connect_handshake demo_prims 999 990 (demo_cfg (Some 512)) demo_hello demo_draw \<lparr>rx = reply, tx = []\<rparr> =
      Some (Inr kc, \<lparr>rx = [], tx = first_packet demo_prims 999 990 (demo_cfg (Some 512)) demo_hello demo_draw\<rparr>) \<and>
    mirrored kc ks \<and> mirrored ks kc"
  using handshake_agreement [OF demo_ok(1,2,3,3), of 0 "demo_users (Some 512)" "demo_cfg (Some 512)" "Some 512"
      990 1000 1001 999 "replicate 32 2" _ "[(0, demo_cfg (Some 512), replicate 32 2)]" "replay_new 60" "[1]",
      OF _ _ _ _ _ _ _ _ _ _ _ _ demo_client(2,1) refl demo_server replay_new_wf]
  by (simp add: demo_live i64_max_def frames_ok_def) (simp add: demo_users_def demo_cfg_def)

text \<open>
  C2: what an accepted handshake proves. The bytes taken from the connection unmask, under a key
  the attributed user accepts at that time, to a hello whose tag is the HMAC of its body under
  that key; its puzzle is solved at the user's difficulty; version, capabilities, multiplexer and
  timestamp pass; neither its packet digest nor its ephemeral key was live; and the session keys are derived from
  the user's secret, the Diffie-Hellman result with the hello's key and the hello's nonce.
\<close>

theorem accepted_handshake_sound:
  assumes "accept_handshake_with_users p ck ck' users secret d cache c = (Inr s, c2, cache2)"
    and "replay_wf cache"
  shows "\<exists>i h pkt keys now now'.
    i < length users \<and> a_user s = u_name (users ! i) \<and> unix_now ck = Inr now \<and> unix_now ck' = Inr now' \<and>
    accepted_auth_keys p now (u_config (users ! i)) = Inr keys \<and> c_auth_key h \<in> set keys \<and>
    rx c = pkt @ rx c2 \<and> hello_of p (unwrap p (users_mode users) (c_auth_key h) pkt) h \<and>
    hello_checked p (u_config (users ! i)) now' h \<and>
    FirstPacketDigest (packet_digest p (users_mode users) pkt) \<notin> live now' cache \<and>
    EphemeralPublicKey (subslice 32 64 (c_fixed_body h)) \<notin> live now' cache \<and>
    a_keys s = derive_keys p (h_psk (u_config (users ! i)))
      (diffie_hellman p secret (subslice 32 64 (c_fixed_body h))) (subslice 8 32 (c_fixed_body h)) (ascii ''server'')"
proof -
  obtain h i c1 now' cache' where
    r: "read_hello p ck users (users_mode users) c = (Inr (h, i), c1)"
    and i: "i < length users" "a_user s = u_name (users ! i)" "unix_now ck' = Inr now'"
      "hello_checked p (u_config (users ! i)) now' h"
    and call: "hs_call now' (c_first_packet_digest h, subslice 32 64 (c_fixed_body h)) cache = (Inr (), cache')"
    and send: "send_server_hello_and_derive_keys p (u_config (users ! i)) h secret d c1 = (Inr (a_keys s), c2)"
    and "cache2 = Some cache'"
    by (rule accept_users_cases [OF assms(1)])
  obtain now pkt keys where k: "unix_now ck = Inr now" "i < length users"
    "accepted_auth_keys p now (u_config (users ! i)) = Inr keys" "c_auth_key h \<in> set keys"
    "rx c = pkt @ rx c1" "tx c1 = tx c"
    and dg: "c_first_packet_digest h = packet_digest p (users_mode users) pkt"
    and of: "hello_of p (unwrap p (users_mode users) (c_auth_key h) pkt) h"
    by (rule read_hello_sound [OF r])
  have fresh: "FirstPacketDigest (packet_digest p (users_mode users) pkt) \<notin> live now' cache"
    "EphemeralPublicKey (subslice 32 64 (c_fixed_body h)) \<notin> live now' cache"
    using handshake_result [OF assms(2), of now' "c_first_packet_digest h" "subslice 32 64 (c_fixed_body h)"] call dg
    by (simp_all add: hs_call_def split: if_splits)
  note out = send_sound [OF send]
  have "rx c = pkt @ rx c2" using k(5) out by simp
  then show ?thesis
    using i k(1,3,4) of fresh out [THEN conjunct1] by blast
qed

theorem accepted_handshake_sound_witness:
  "\<exists>s c2 cache2 h keys. accept_handshake_with_users demo_prims 1000 1001 (demo_users None) [1] demo_draw (replay_new 60)
      \<lparr>rx = demo_packet None, tx = []\<rparr> = (Inr s, c2, cache2) \<and> a_user s = ascii ''alice'' \<and>
    accepted_auth_keys demo_prims 1000 (demo_cfg None) = Inr keys \<and> c_auth_key h \<in> set keys \<and>
    hello_checked demo_prims (demo_cfg None) 1001 h"
proof -
  obtain s c2 cache2 where acc: "accept_handshake_with_users demo_prims 1000 1001 (demo_users None) [1] demo_draw
      (replay_new 60) \<lparr>rx = demo_packet None, tx = []\<rparr> = (Inr s, c2, cache2)"
    using demo_accept [of None] by auto
  from accepted_handshake_sound [OF acc replay_new_wf] obtain i h keys now now' where
    "i < length (demo_users None)" "a_user s = u_name (demo_users None ! i)" "unix_now 1000 = Inr now"
    "unix_now 1001 = Inr now'" "accepted_auth_keys demo_prims now (u_config (demo_users None ! i)) = Inr keys"
    "c_auth_key h \<in> set keys" "hello_checked demo_prims (u_config (demo_users None ! i)) now' h"
    by auto
  then show ?thesis
    using acc by (intro exI conjI) (auto simp: demo_users_def unix_now_Inr i64_max_def)
qed

text \<open>
  C4: no accepted hello is accepted twice. After a handshake accepted at \<open>t0\<close> the server takes any
  further handshakes from any connections, and then one whose hello, as the server reads it,
  repeats the digest of the first packet or the client's ephemeral key: it is refused, as long as the clock readings stay within
  the replay window.
\<close>

theorem accepted_hello_not_replayed:
  assumes "replay_wf cache" "ttl_secs cache \<le> i64_max" "0 \<le> t0" "t0 + ttl_secs cache \<le> i64_max"
    and "accept_handshake_with_users p ck t0 users secret d cache c = (Inr s, c1, Some cache1)"
    and "read_hello p ck users (users_mode users) c = (Inr (h, i), c2)"
    and "\<forall>(k, t, x) \<in> set arrivals. 0 \<le> t \<and> t \<le> t0 + ttl_secs cache"
    and "0 \<le> t1" "t1 \<le> t0 + ttl_secs cache"
    and "read_hello p ck1 users (users_mode users) c' = (Inr (h', i'), c3)"
    and "c_first_packet_digest h' = c_first_packet_digest h \<or>
      subslice 32 64 (c_fixed_body h') = subslice 32 64 (c_fixed_body h)"
  shows "isl (fst (accept_handshake_with_users p ck1 t1 users secret' d' (serve p users arrivals cache1) c'))"
proof (rule ccontr)
  let ?a = "(c_first_packet_digest h, subslice 32 64 (c_fixed_body h))"
  let ?b = "(c_first_packet_digest h', subslice 32 64 (c_fixed_body h'))"
  assume "\<not> ?thesis"
  then obtain s' c4 cache4 where acc: "accept_handshake_with_users p ck1 t1 users secret' d'
      (serve p users arrivals cache1) c' = (Inr s', c4, cache4)"
    by (metis isl_def prod.collapse sum.exhaust_sel)
  have ttl: "0 \<le> ttl_secs cache" using assms(1) by (simp add: replay_wf_def)
  have first: "hs_call t0 ?a cache = (Inr (), cache1)"
    using accept_users_call [OF assms(5,6,3)] assms(4) ttl by auto
  have second: "fst (hs_call t1 ?b (serve p users arrivals cache1)) = Inr ()"
    using accept_users_call [OF acc assms(10,8)] assms(4,9) by auto
  obtain calls where "serve p users arrivals cache1 = guard_run hs_call calls cache1"
    "\<forall>(now, a) \<in> set calls. now \<le> t0 + ttl_secs cache"
    using serve_calls [of arrivals "t0 + ttl_secs cache" p users cache1] assms(4,7) by auto
  then have "isl (fst (hs_call t1 ?b (serve p users arrivals cache1)))"
    using handshake_guard.no_replay_in_window [OF _ first, of calls t1 ?b] assms(1,2,9,11)
    by (auto simp: replay_inv_def handshake_keys_def)
  with second show False by simp
qed

theorem accepted_hello_not_replayed_witness:
  "\<exists>s c1 cache1. accept_handshake_with_users demo_prims 1000 1001 (demo_users (Some 512)) [1] demo_draw (replay_new 60)
      \<lparr>rx = demo_packet (Some 512), tx = []\<rparr> = (Inr s, c1, Some cache1) \<and>
    isl (fst (accept_handshake_with_users demo_prims 1000 1050 (demo_users (Some 512)) [1] demo_draw
      (serve demo_prims (demo_users (Some 512)) [(1002, 1003, [2], demo_draw, \<lparr>rx = [1, 2, 3], tx = []\<rparr>)] cache1)
      \<lparr>rx = demo_packet (Some 512), tx = []\<rparr>))"
proof -
  obtain s c1 cache1 h where r: "read_hello demo_prims 1000 (demo_users (Some 512)) (Some 512)
      \<lparr>rx = demo_packet (Some 512), tx = []\<rparr> = (Inr (h, 0), \<lparr>rx = [], tx = []\<rparr>)"
    and acc: "accept_handshake_with_users demo_prims 1000 1001 (demo_users (Some 512)) [1] demo_draw (replay_new 60)
      \<lparr>rx = demo_packet (Some 512), tx = []\<rparr> = (Inr s, c1, Some cache1)"
    using demo_accept [of "Some 512"] by auto
  have "users_mode (demo_users (Some 512)) = Some 512" by (simp add: demo_users_def)
  then have r': "read_hello demo_prims 1000 (demo_users (Some 512)) (users_mode (demo_users (Some 512)))
      \<lparr>rx = demo_packet (Some 512), tx = []\<rparr> = (Inr (h, 0), \<lparr>rx = [], tx = []\<rparr>)"
    using r by (simp only:)
  have ttl: "ttl_secs (replay_new 60) = 60" by (simp add: replay_new_def)
  show ?thesis
    using accepted_hello_not_replayed [OF replay_new_wf _ _ _ acc r' _ _ _ r',
        of "[(1002, 1003, [2], demo_draw, \<lparr>rx = [1, 2, 3], tx = []\<rparr>)]" 1050 "[1]" demo_draw] acc
    by (simp add: ttl i64_max_def)
qed

text \<open>
  C29: the freshness test, for clocks and skews whose sum fits an \<^verbatim>\<open>i64\<close>, accepts exactly the
  timestamps within the skew of the server's clock, and besides them the single timestamp \<open>2 ^ 63\<close>
  seconds before the clock: there the difference wraps to the smallest \<^verbatim>\<open>i64\<close>, which is its own
  absolute value and below every skew.
\<close>

theorem timestamp_window:
  assumes "0 \<le> now" "now \<le> i64_max" "i64_min \<le> ts" "ts \<le> i64_max" "0 \<le> skew" "skew + now \<le> i64_max"
  shows "timestamp_fresh now ts skew \<longleftrightarrow> \<bar>now - ts\<bar> \<le> skew \<or> ts = now - 9223372036854775808"
  using assms by (rule timestamp_fresh_iff)

theorem timestamp_window_witness:
  "timestamp_fresh 1700000000 (1700000000 - 9223372036854775808) 30 \<and> \<not> timestamp_fresh 1700000000 1699999969 30"
  by (simp add: timestamp_window i64_min_def i64_max_def)

end
