(* ===== verification/Esp_Framing.thy ===== *)
theory Esp_Framing
  imports Esp_Crypto
begin

text \<open>
  The record layer of \<^verbatim>\<open>protocol/framing.rs\<close>: frames, the options that shape them, the encrypting
  writer with its padding, key updates and pacing, the decrypting reader, and the copy loop. What
  the code takes from the clock and from random numbers is the fields of a draw. Sleeping is
  counted in \<open>x_slept\<close>; \<open>x_sealed\<close> lists the key generation and sequence number of every call of the cipher, which
  the code does not store.
\<close>

section \<open>Frames\<close>

unbundle bit_operations_syntax

definition NORMAL_MAX_FRAME :: nat where
  "NORMAL_MAX_FRAME = 256 * 1024"

definition STEALTH_MAX_FRAME :: nat where
  "STEALTH_MAX_FRAME = 64 * 1024"

definition DATA_CHUNK :: nat where
  "DATA_CHUNK = 16 * 1024"

definition AEAD_TAG_LEN :: nat where
  "AEAD_TAG_LEN = 16"

definition STEALTH_HEADER_LEN :: nat where
  "STEALTH_HEADER_LEN = 3"

definition NORMAL_PAYLOAD_CAPACITY :: nat where
  "NORMAL_PAYLOAD_CAPACITY = NORMAL_MAX_FRAME - AEAD_TAG_LEN - 1"

definition DEFAULT_STEALTH_FRAME_SIZE :: nat where
  "DEFAULT_STEALTH_FRAME_SIZE = 4096"

definition DEFAULT_STEALTH_TICK_MS :: nat where
  "DEFAULT_STEALTH_TICK_MS = 50"

lemmas frame_lens = NORMAL_MAX_FRAME_def STEALTH_MAX_FRAME_def AEAD_TAG_LEN_def STEALTH_HEADER_LEN_def
  NORMAL_PAYLOAD_CAPACITY_def

datatype FrameType = Target | Data | Close | Padding | KeyUpdate

definition frame_type_u8 :: "FrameType \<Rightarrow> u8" where
  "frame_type_u8 ty = (case ty of Target \<Rightarrow> 1 | Data \<Rightarrow> 2 | Close \<Rightarrow> 3 | Padding \<Rightarrow> 4 | KeyUpdate \<Rightarrow> 5)"

definition frame_type_try_from :: "u8 \<Rightarrow> FrameType result" where
  "frame_type_try_from v =
     (if v = 1 then Inr Target else if v = 2 then Inr Data else if v = 3 then Inr Close
      else if v = 4 then Inr Padding else if v = 5 then Inr KeyUpdate
      else Inl (BailNum ''unknown frame type'' (unat v)))"

record Frame =
  f_ty :: FrameType
  f_payload :: bytes

section \<open>Options\<close>

datatype ObfuscationProfile = PLowLatency | PBalanced | PHighEntropy | PBulk | PStealth

definition profile_is_stealth :: "ObfuscationProfile \<Rightarrow> bool" where
  "profile_is_stealth p \<longleftrightarrow> p = PStealth"

datatype ChunkPolicy = CLowLatency | CBalanced | CBulk | CStealth | CCustom

definition policy_bounds :: "ChunkPolicy \<Rightarrow> nat \<Rightarrow> nat \<Rightarrow> nat \<Rightarrow> nat \<times> nat" where
  "policy_bounds policy fallback_min fallback_max stealth_capacity =
     (case policy of
        CLowLatency \<Rightarrow> (2 * 1024, 8 * 1024)
      | CBalanced \<Rightarrow> (4 * 1024, 16 * 1024)
      | CBulk \<Rightarrow> (let mn = max fallback_min (64 * 1024) in (mn, max fallback_max mn))
      | CStealth \<Rightarrow> (stealth_capacity, stealth_capacity)
      | CCustom \<Rightarrow> (fallback_min, fallback_max))"

datatype StealthShaperMode = SWeb | SStream | SCustom

datatype StealthIdleNoise = NoiseOff | Uniform | Poisson

text \<open>Milliseconds and rates are natural numbers; \<open>o_metrics\<close> says whether there is a metrics handle.\<close>

record FrameOptions =
  o_max_padding :: nat
  o_jitter_ms :: nat
  o_padding_chance_percent :: u8
  o_backpressure_threshold_ms :: nat
  o_backpressure_cooldown_ms :: nat
  o_obfuscation_profile :: ObfuscationProfile
  o_chunk_policy :: ChunkPolicy
  o_randomize_chunks :: bool
  o_min_chunk :: nat
  o_max_chunk :: nat
  o_stealth_frame_size :: nat
  o_stealth_frame_size_candidates :: "nat list"
  o_stealth_tick_ms :: nat
  o_stealth_shaper_enabled :: bool
  o_stealth_shaper_mode :: StealthShaperMode
  o_stealth_idle_noise :: StealthIdleNoise
  o_stealth_padding_budget_bps :: nat
  o_stealth_min_delay_ms :: nat
  o_stealth_max_delay_ms :: nat
  o_stealth_idle_max_delay_ms :: nat
  o_pacing_enabled :: bool
  o_pacing_max_bytes_per_sec :: nat
  o_pacing_burst_bytes :: nat
  o_pacing_min_write_bytes :: nat
  o_heartbeat_secs :: nat
  o_key_update_frames :: u64
  o_metrics :: bool

definition frame_options_default :: FrameOptions where
  "frame_options_default =
     \<lparr>o_max_padding = 64, o_jitter_ms = 0, o_padding_chance_percent = 35,
      o_backpressure_threshold_ms = 40, o_backpressure_cooldown_ms = 1000,
      o_obfuscation_profile = PBalanced, o_chunk_policy = CBalanced, o_randomize_chunks = True,
      o_min_chunk = 1024, o_max_chunk = DATA_CHUNK,
      o_stealth_frame_size = DEFAULT_STEALTH_FRAME_SIZE, o_stealth_frame_size_candidates = [],
      o_stealth_tick_ms = DEFAULT_STEALTH_TICK_MS, o_stealth_shaper_enabled = False,
      o_stealth_shaper_mode = SWeb, o_stealth_idle_noise = Poisson,
      o_stealth_padding_budget_bps = 0, o_stealth_min_delay_ms = DEFAULT_STEALTH_TICK_MS,
      o_stealth_max_delay_ms = DEFAULT_STEALTH_TICK_MS * 2, o_stealth_idle_max_delay_ms = 1000,
      o_pacing_enabled = True, o_pacing_max_bytes_per_sec = 0, o_pacing_burst_bytes = 64 * 1024,
      o_pacing_min_write_bytes = 1024, o_heartbeat_secs = 30, o_key_update_frames = 16384,
      o_metrics = False\<rparr>"

definition is_stealth :: "FrameOptions \<Rightarrow> bool" where
  "is_stealth o' = profile_is_stealth (o_obfuscation_profile o')"

definition validate_stealth :: "FrameOptions \<Rightarrow> unit result" where
  "validate_stealth o' =
     (if \<not> o_stealth_frame_size o' > AEAD_TAG_LEN + STEALTH_HEADER_LEN
      then Inl (Bail ''shared.stealth.frame_size must leave room for frame metadata'')
      else if \<not> o_stealth_frame_size o' \<le> STEALTH_MAX_FRAME
      then Inl (BailNum ''shared.stealth.frame_size must be <='' STEALTH_MAX_FRAME)
      else if \<not> o_stealth_tick_ms o' > 0
      then Inl (Bail ''shared.stealth.tick_ms must be greater than 0'')
      else Inr ())"

definition stealth_payload_capacity :: "FrameOptions \<Rightarrow> nat result" where
  "stealth_payload_capacity o' =
     res_bind (validate_stealth o') (\<lambda>_. Inr (o_stealth_frame_size o' - AEAD_TAG_LEN - STEALTH_HEADER_LEN))"

definition unwrap_or :: "'a result \<Rightarrow> 'a \<Rightarrow> 'a" where
  "unwrap_or r d = (case r of Inl _ \<Rightarrow> d | Inr a \<Rightarrow> a)"

definition clamp :: "nat \<Rightarrow> nat \<Rightarrow> nat \<Rightarrow> nat" where
  "clamp x lo hi = (if x < lo then lo else if x > hi then hi else x)"

definition normalized_chunk_bounds :: "FrameOptions \<Rightarrow> nat \<times> nat" where
  "normalized_chunk_bounds o' =
     (if is_stealth o' then
        let capacity = unwrap_or (stealth_payload_capacity o') 1 in (capacity, capacity)
      else
        let stealth_capacity = unwrap_or (stealth_payload_capacity o') DEFAULT_STEALTH_FRAME_SIZE;
            (policy_min, policy_max) =
              policy_bounds (o_chunk_policy o') (o_min_chunk o') (o_max_chunk o') stealth_capacity;
            requested_min =
              (if o_pacing_enabled o' then max policy_min (o_pacing_min_write_bytes o') else policy_min);
            mn = clamp requested_min 1 NORMAL_PAYLOAD_CAPACITY;
            mx = clamp policy_max mn NORMAL_PAYLOAD_CAPACITY
        in if \<not> o_randomize_chunks o' then (mx, mx) else (mn, mx))"

text \<open>\<^verbatim>\<open>gen_range(lo..=hi)\<close> from a draw.\<close>

definition gen_range :: "nat \<Rightarrow> nat \<Rightarrow> nat \<Rightarrow> nat" where
  "gen_range lo hi draw = lo + draw mod (hi - lo + 1)"

definition next_chunk_size :: "FrameOptions \<Rightarrow> nat \<Rightarrow> nat" where
  "next_chunk_size o' draw =
     (let (mn, mx) = normalized_chunk_bounds o' in if mn = mx then mx else gen_range mn mx draw)"

definition select_stealth_frame_size :: "FrameOptions \<Rightarrow> u64 \<Rightarrow> nat" where
  "select_stealth_frame_size o' selector =
     (if o_stealth_frame_size_candidates o' = [] then o_stealth_frame_size o'
      else o_stealth_frame_size_candidates o' !
             (unat selector mod length (o_stealth_frame_size_candidates o')))"

section \<open>Timing\<close>

text \<open>Instants and durations are nanoseconds.\<close>

definition millis :: "nat \<Rightarrow> nat" where
  "millis ms = 1000000 * ms"

definition maybe_jitter :: "FrameOptions \<Rightarrow> nat \<Rightarrow> nat \<Rightarrow> nat" where
  "maybe_jitter o' draw1 draw2 =
     (if o_jitter_ms o' = 0 then 0
      else
        let upper = max 1 (o_jitter_ms o');
            delay = (case o_obfuscation_profile o' of
                PLowLatency \<Rightarrow> gen_range 0 (max 1 (upper div 4)) draw1
              | PBalanced \<Rightarrow> gen_range 0 upper draw1
              | PHighEntropy \<Rightarrow> max (gen_range 0 upper draw1) (gen_range 0 upper draw2)
              | PBulk \<Rightarrow> gen_range 0 (max 1 (upper div 8)) draw1
              | PStealth \<Rightarrow> 0)
        in millis delay)"

text \<open>
  What \<^verbatim>\<open>pace_before_write\<close> sleeps and the new pacing instant; \<open>secs\<close> is the duration that the
  floating-point quotient of its arguments gives.
\<close>

definition pace_before_write ::
  "(nat \<Rightarrow> nat \<Rightarrow> nat) \<Rightarrow> nat \<Rightarrow> FrameOptions \<Rightarrow> nat \<Rightarrow> nat option \<Rightarrow> nat \<times> nat option"
where
  "pace_before_write secs now o' n next_pace_at =
     (if \<not> o_pacing_enabled o' \<or> o_pacing_max_bytes_per_sec o' = 0 then (0, next_pace_at)
      else
        let burst = max (max (o_pacing_burst_bytes o') (o_pacing_min_write_bytes o')) 1;
            charge = n - burst
        in if charge = 0 then (0, next_pace_at)
           else
             let delay = secs charge (o_pacing_max_bytes_per_sec o') in
             if delay = 0 then (0, next_pace_at)
             else
               let base = (case next_pace_at of
                     Some when \<Rightarrow> if when > now then when else now | None \<Rightarrow> now);
                   target = base + delay
               in (target - now, Some target))"

definition observe_backpressure :: "FrameOptions \<Rightarrow> nat \<Rightarrow> nat \<Rightarrow> nat option" where
  "observe_backpressure o' now elapsed =
     (if o_backpressure_threshold_ms o' = 0 \<or> o_backpressure_cooldown_ms o' = 0 then None
      else if elapsed \<ge> millis (o_backpressure_threshold_ms o')
      then Some (now + millis (o_backpressure_cooldown_ms o'))
      else None)"

text \<open>\<^verbatim>\<open>gen_bool(1.0)\<close> is true; a smaller positive chance gives either answer.\<close>

definition should_send_padding :: "FrameOptions \<Rightarrow> nat option \<Rightarrow> nat \<Rightarrow> bool \<Rightarrow> bool" where
  "should_send_padding o' disabled_until now draw =
     (if is_stealth o' then False
      else if o_max_padding o' = 0 \<or> o_padding_chance_percent o' = 0 then False
      else if (case disabled_until of Some until \<Rightarrow> now < until | None \<Rightarrow> False) then False
      else if o_padding_chance_percent o' \<ge> 100 then True
      else draw)"

definition should_key_update :: "FrameOptions \<Rightarrow> u64 \<Rightarrow> FrameType \<Rightarrow> bool" where
  "should_key_update o' tx_seq ty \<longleftrightarrow>
     o_key_update_frames o' > 0 \<and> tx_seq > 0 \<and> tx_seq mod o_key_update_frames o' = 0 \<and>
     ty \<noteq> Padding \<and> ty \<noteq> KeyUpdate"

section \<open>The writer\<close>

text \<open>What the writing functions take by mutable reference.\<close>

record Tx =
  x_conn :: conn
  x_keys :: SessionKeys
  x_seq :: u64
  x_disabled_until :: "nat option"
  x_next_pace_at :: "nat option"
  x_slept :: nat
  x_key_updates :: nat
  x_sealed :: "(u64 \<times> u64) list"

record write_draw =
  w_jitter :: "nat \<times> nat"
  w_fill :: "nat \<Rightarrow> bytes"
  w_secs :: "nat \<Rightarrow> nat \<Rightarrow> nat"
  w_now :: nat
  w_elapsed :: nat
  w_after :: nat

definition write_draw_ok :: "write_draw \<Rightarrow> bool" where
  "write_draw_ok d \<longleftrightarrow> (\<forall>n. length (w_fill d n) = n)"

definition seal :: "prims \<Rightarrow> bytes \<Rightarrow> (Tx, bytes) io" where
  "seal p plain s =
     (case encrypt p (k_tx (x_keys s)) (x_seq s) (k_nonce_tag (x_keys s)) plain of
        Inl e \<Rightarrow> (Inl e, s)
      | Inr c \<Rightarrow> (Inr c, s\<lparr>x_sealed := x_sealed s @ [(k_tx_generation (x_keys s), x_seq s)]\<rparr>))"

definition pace :: "FrameOptions \<Rightarrow> write_draw \<Rightarrow> nat \<Rightarrow> (Tx, unit) io" where
  "pace o' d n s =
     (case pace_before_write (w_secs d) (w_now d) o' n (x_next_pace_at s) of
        (slept, next) \<Rightarrow> (Inr (), s\<lparr>x_slept := x_slept s + slept, x_next_pace_at := next\<rparr>))"

definition step_seq :: "(Tx, unit) io" where
  "step_seq s = (Inr (), s\<lparr>x_seq := x_seq s + 1\<rparr>)"

definition put :: "bytes \<Rightarrow> (Tx, unit) io" where
  "put bs s = (Inr (), s\<lparr>x_conn := snd (write_all bs (x_conn s))\<rparr>)"

definition write_stealth_one :: "prims \<Rightarrow> FrameOptions \<Rightarrow> write_draw \<Rightarrow> Frame \<Rightarrow> (Tx, nat) io" where
  "write_stealth_one p o' d frame =
     io_bind (io_result (stealth_payload_capacity o')) (\<lambda>capacity.
       if length (f_payload frame) > capacity then io_fail (Bail ''stealth frame payload too large'')
       else
         let plain_len = o_stealth_frame_size o' - AEAD_TAG_LEN;
             plain = frame_type_u8 (f_ty frame) # to_be_u16 (of_nat (length (f_payload frame)))
               @ f_payload frame @ drop (STEALTH_HEADER_LEN + length (f_payload frame)) (w_fill d plain_len)
         in io_bind (seal p plain) (\<lambda>encrypted.
              if length encrypted \<noteq> o_stealth_frame_size o'
              then io_fail (Bail ''stealth encrypted frame size mismatch'')
              else
                io_then (pace o' d (length encrypted))
                (io_then step_seq
                (io_then (put encrypted)
                (io_return (w_elapsed d))))))"

definition write_normal_one :: "prims \<Rightarrow> FrameOptions \<Rightarrow> write_draw \<Rightarrow> Frame \<Rightarrow> (Tx, nat) io" where
  "write_normal_one p o' d frame =
     (if length (f_payload frame) > NORMAL_PAYLOAD_CAPACITY then io_fail (Bail ''frame payload too large'')
      else (\<lambda>s. (let seq = x_seq s in
        io_bind (seal p (frame_type_u8 (f_ty frame) # f_payload frame)) (\<lambda>encrypted.
        io_then step_seq
          (if length encrypted > NORMAL_MAX_FRAME then io_fail (Bail ''encrypted frame too large'')
           else
             io_then (pace o' d (length encrypted + 4))
             (\<lambda>s.
               let masked_len = of_nat (length encrypted) XOR length_mask p (k_tx_len_mask (x_keys s)) seq
               in io_then (put (to_be_u32 masked_len @ encrypted)) (io_return (w_elapsed d)) s)))) s))"

definition write_one :: "prims \<Rightarrow> FrameOptions \<Rightarrow> write_draw \<Rightarrow> Frame \<Rightarrow> (Tx, nat) io" where
  "write_one p o' d frame s =
     (let s = s\<lparr>x_slept := x_slept s + maybe_jitter o' (fst (w_jitter d)) (snd (w_jitter d))\<rparr>
      in if is_stealth o' then write_stealth_one p o' d frame s
         else write_normal_one p o' d frame s)"

definition observe_write_backpressure :: "FrameOptions \<Rightarrow> write_draw \<Rightarrow> nat \<Rightarrow> (Tx, unit) io" where
  "observe_write_backpressure o' d elapsed s =
     (case observe_backpressure o' (w_after d) elapsed of
        Some until \<Rightarrow> (Inr (), s\<lparr>x_disabled_until := Some until\<rparr>)
      | None \<Rightarrow> (Inr (), s))"

definition random_padding :: "(nat \<Rightarrow> bytes) \<Rightarrow> nat \<Rightarrow> bytes" where
  "random_padding fill n = fill n"

record send_draw =
  s_update :: write_draw
  s_padding :: write_draw
  s_frame :: write_draw
  s_gate_now :: nat
  s_gate :: bool
  s_pad_len :: nat
  s_pad_fill :: "nat \<Rightarrow> bytes"

definition send_draw_ok :: "send_draw \<Rightarrow> bool" where
  "send_draw_ok d \<longleftrightarrow> write_draw_ok (s_update d) \<and> write_draw_ok (s_padding d) \<and> write_draw_ok (s_frame d) \<and>
     (\<forall>n. length (s_pad_fill d n) = n)"

definition maybe_write_padding :: "prims \<Rightarrow> FrameOptions \<Rightarrow> send_draw \<Rightarrow> (Tx, unit) io" where
  "maybe_write_padding p o' d s =
     (if \<not> should_send_padding o' (x_disabled_until s) (s_gate_now d) (s_gate d) then (Inr (), s)
      else
        let len = gen_range 1 (o_max_padding o') (s_pad_len d) in
        io_bind (write_one p o' (s_padding d) \<lparr>f_ty = Padding, f_payload = random_padding (s_pad_fill d) len\<rparr>)
          (\<lambda>elapsed. observe_write_backpressure o' (s_padding d) elapsed) s)"

definition count_key_update :: "FrameOptions \<Rightarrow> (Tx, unit) io" where
  "count_key_update o' s =
     (Inr (), if o_metrics o' then s\<lparr>x_key_updates := x_key_updates s + 1\<rparr> else s)"

text \<open>\<^verbatim>\<open>keys.update_tx()?\<close> and the reset of the sequence number.\<close>

definition renew_tx :: "prims \<Rightarrow> (Tx, unit) io" where
  "renew_tx p s =
     (case update_tx p (x_keys s) of
        (Inl e, k) \<Rightarrow> (Inl e, s\<lparr>x_keys := k\<rparr>)
      | (Inr _, k) \<Rightarrow> (Inr (), s\<lparr>x_keys := k, x_seq := 0\<rparr>))"

definition write_key_update :: "prims \<Rightarrow> FrameOptions \<Rightarrow> send_draw \<Rightarrow> FrameType \<Rightarrow> (Tx, unit) io" where
  "write_key_update p o' d ty s =
     (if should_key_update o' (x_seq s) ty then
        io_bind (write_one p o' (s_update d) \<lparr>f_ty = KeyUpdate, f_payload = []\<rparr>) (\<lambda>elapsed.
        io_then (observe_write_backpressure o' (s_update d) elapsed)
        (io_then (count_key_update o') (renew_tx p))) s
      else (Inr (), s))"

definition send_with_optional_padding :: "prims \<Rightarrow> FrameOptions \<Rightarrow> send_draw \<Rightarrow> Frame \<Rightarrow> (Tx, unit) io" where
  "send_with_optional_padding p o' d frame =
     io_then (write_key_update p o' d (f_ty frame))
     (io_then
        (if \<not> is_stealth o' \<and> f_ty frame \<noteq> Padding \<and> f_ty frame \<noteq> KeyUpdate
         then maybe_write_padding p o' d else io_return ())
     (io_bind (write_one p o' (s_frame d) frame) (\<lambda>elapsed.
        observe_write_backpressure o' (s_frame d) elapsed)))"

section \<open>The reader\<close>

record Rx =
  y_conn :: conn
  y_keys :: SessionKeys
  y_seq :: u64

definition get :: "(conn, 'a) io \<Rightarrow> (Rx, 'a) io" where
  "get m s = (case m (y_conn s) of (r, c) \<Rightarrow> (r, s\<lparr>y_conn := c\<rparr>))"

text \<open>Decrypting one record under the current key and number, which is then stepped.\<close>

definition open_record :: "prims \<Rightarrow> bytes \<Rightarrow> (Rx, bytes) io" where
  "open_record p encrypted s =
     (case decrypt p (k_rx (y_keys s)) (y_seq s) (k_nonce_tag (y_keys s)) encrypted of
        Inl e \<Rightarrow> (Inl e, s)
      | Inr plain \<Rightarrow> (Inr plain, s\<lparr>y_seq := y_seq s + 1\<rparr>))"

definition renew_rx :: "prims \<Rightarrow> FrameType \<Rightarrow> (Rx, unit) io" where
  "renew_rx p ty s =
     (if ty = KeyUpdate then
        (case update_rx p (y_keys s) of
           (Inl e, k) \<Rightarrow> (Inl e, s\<lparr>y_keys := k\<rparr>)
         | (Inr _, k) \<Rightarrow> (Inr (), s\<lparr>y_keys := k, y_seq := 0\<rparr>))
      else (Inr (), s))"

definition read_stealth_one :: "prims \<Rightarrow> FrameOptions \<Rightarrow> (Rx, Frame) io" where
  "read_stealth_one p o' =
     io_bind (io_result (validate_stealth o')) (\<lambda>_.
     io_bind (get (read_exact (o_stealth_frame_size o'))) (\<lambda>encrypted.
     io_bind (open_record p encrypted) (\<lambda>plain.
       if length plain < STEALTH_HEADER_LEN then io_fail (Bail ''short stealth plaintext frame'')
       else
         let payload_len = unat (from_be_u16 (subslice 1 3 plain)) in
         io_bind (io_result (stealth_payload_capacity o')) (\<lambda>capacity.
           if payload_len > capacity \<or> STEALTH_HEADER_LEN + payload_len > length plain
           then io_fail (BailNum ''invalid stealth payload length'' payload_len)
           else
             io_bind (io_result (frame_type_try_from (hd plain))) (\<lambda>ty.
             io_then (renew_rx p ty)
             (io_return \<lparr>f_ty = ty, f_payload = take payload_len (drop STEALTH_HEADER_LEN plain)\<rparr>))))))"

definition read_normal_one :: "prims \<Rightarrow> (Rx, Frame) io" where
  "read_normal_one p s =
     io_bind (get read_u32) (\<lambda>masked_len.
       let len = unat (masked_len XOR length_mask p (k_rx_len_mask (y_keys s)) (y_seq s)) in
       if len = 0 \<or> len > NORMAL_MAX_FRAME then io_fail (BailNum ''invalid frame length'' len)
       else
         io_bind (get (read_exact len)) (\<lambda>encrypted.
         io_bind (open_record p encrypted) (\<lambda>plain.
           if plain = [] then io_fail (Bail ''empty plaintext frame'')
           else
             io_bind (io_result (frame_type_try_from (hd plain))) (\<lambda>ty.
             io_then (renew_rx p ty)
             (io_return \<lparr>f_ty = ty, f_payload = tl plain\<rparr>))))) s"

definition read_one :: "prims \<Rightarrow> FrameOptions \<Rightarrow> (Rx, Frame) io" where
  "read_one p o' = (if is_stealth o' then read_stealth_one p o' else read_normal_one p)"

text \<open>Every record that is read takes bytes off the connection.\<close>

lemma open_record_conn: "y_conn (snd (open_record p e s)) = y_conn s"
  by (simp add: open_record_def split: sum.splits)

lemma renew_rx_conn: "y_conn (snd (renew_rx p ty s)) = y_conn s"
  by (simp add: renew_rx_def split: sum.splits prod.splits)

lemma get_InrD: "get m s = (Inr a, t) \<Longrightarrow> m (y_conn s) = (Inr a, y_conn t) \<and> t = s\<lparr>y_conn := y_conn t\<rparr>"
  by (auto simp: get_def split: prod.splits)

lemma open_record_InrD:
  "open_record p e s = (Inr x, t) \<Longrightarrow>
     decrypt p (k_rx (y_keys s)) (y_seq s) (k_nonce_tag (y_keys s)) e = Inr x \<and> t = s\<lparr>y_seq := y_seq s + 1\<rparr>"
  by (auto simp: open_record_def split: sum.splits)

lemma read_normal_shorter:
  assumes "read_normal_one p s = (Inr f, t)"
  shows "length (rx (y_conn t)) < length (rx (y_conn s))"
proof -
  from assms obtain w t1 e t2 x t3 ty where
    "get read_u32 s = (Inr w, t1)" "get (read_exact (unat (w XOR length_mask p (k_rx_len_mask (y_keys s)) (y_seq s)))) t1 = (Inr e, t2)"
    "open_record p e t2 = (Inr x, t3)" "renew_rx p ty t3 = (Inr (), t)"
    by (auto simp: read_normal_one_def Let_def io_then_def elim!: io_bind_result_cases split: if_splits)
  then show ?thesis
    using open_record_conn [of p e t2] renew_rx_conn [of p ty t3]
    by (auto dest!: get_InrD read_u32_InrD read_exact_InrD)
qed

lemma read_stealth_shorter:
  assumes "read_stealth_one p o' s = (Inr f, t)"
  shows "length (rx (y_conn t)) < length (rx (y_conn s))"
proof -
  from assms obtain e t2 x t3 ty where v: "validate_stealth o' = Inr ()"
    "get (read_exact (o_stealth_frame_size o')) s = (Inr e, t2)"
    "open_record p e t2 = (Inr x, t3)" "renew_rx p ty t3 = (Inr (), t)"
    by (auto simp: read_stealth_one_def Let_def io_then_def elim!: io_bind_result_cases split: if_splits)
  moreover have "0 < o_stealth_frame_size o'"
    using v(1) by (simp add: validate_stealth_def split: if_splits)
  ultimately show ?thesis
    using open_record_conn [of p e t2] renew_rx_conn [of p ty t3]
    by (auto dest!: get_InrD read_exact_InrD)
qed

lemma read_one_shorter: "read_one p o' s = (Inr f, t) \<Longrightarrow> length (rx (y_conn t)) < length (rx (y_conn s))"
  by (auto simp: read_one_def split: if_splits intro: read_normal_shorter read_stealth_shorter)

function recv :: "prims \<Rightarrow> FrameOptions \<Rightarrow> Rx \<Rightarrow> Frame result \<times> Rx" where
  "recv p o' s =
     (case read_one p o' s of
        (Inl e, t) \<Rightarrow> (Inl e, t)
      | (Inr frame, t) \<Rightarrow>
          if f_ty frame \<noteq> Padding \<and> f_ty frame \<noteq> KeyUpdate then (Inr frame, t)
          else recv p o' t)"
  by pat_completeness auto
termination
  by (relation "measure (\<lambda>(_, _, s). length (rx (y_conn s)))") (auto dest: read_one_shorter [OF sym])

declare recv.simps [simp del]

section \<open>Codec, writer, reader, copying\<close>

record FrameCodec =
  c_stream :: conn
  c_tx_seq :: u64
  c_rx_seq :: u64
  c_keys :: SessionKeys
  c_options :: FrameOptions
  c_padding_disabled_until :: "nat option"
  c_next_pace_at :: "nat option"

definition codec_new :: "conn \<Rightarrow> SessionKeys \<Rightarrow> FrameOptions \<Rightarrow> FrameCodec" where
  "codec_new stream keys options =
     \<lparr>c_stream = stream, c_tx_seq = 0, c_rx_seq = 0, c_keys = keys, c_options = options,
      c_padding_disabled_until = None, c_next_pace_at = None\<rparr>"

definition codec_tx :: "FrameCodec \<Rightarrow> Tx" where
  "codec_tx c = \<lparr>x_conn = c_stream c, x_keys = c_keys c, x_seq = c_tx_seq c,
     x_disabled_until = c_padding_disabled_until c, x_next_pace_at = c_next_pace_at c, x_slept = 0,
     x_key_updates = 0, x_sealed = []\<rparr>"

definition codec_rx :: "FrameCodec \<Rightarrow> Rx" where
  "codec_rx c = \<lparr>y_conn = c_stream c, y_keys = c_keys c, y_seq = c_rx_seq c\<rparr>"

definition codec_send :: "prims \<Rightarrow> send_draw \<Rightarrow> Frame \<Rightarrow> (FrameCodec, unit) io" where
  "codec_send p d frame c =
     (case send_with_optional_padding p (c_options c) d frame (codec_tx c) of
        (r, t) \<Rightarrow> (r, c\<lparr>c_stream := x_conn t, c_keys := x_keys t, c_tx_seq := x_seq t,
                       c_padding_disabled_until := x_disabled_until t,
                       c_next_pace_at := x_next_pace_at t\<rparr>))"

definition codec_recv :: "prims \<Rightarrow> (FrameCodec, Frame) io" where
  "codec_recv p c =
     (case recv p (c_options c) (codec_rx c) of
        (r, s) \<Rightarrow> (r, c\<lparr>c_stream := y_conn s, c_keys := y_keys s, c_rx_seq := y_seq s\<rparr>))"

definition send_frame :: "prims \<Rightarrow> send_draw \<Rightarrow> FrameType \<Rightarrow> bytes \<Rightarrow> (FrameCodec, unit) io" where
  "send_frame p d ty payload = codec_send p d \<lparr>f_ty = ty, f_payload = payload\<rparr>"

definition read_frame :: "prims \<Rightarrow> (FrameCodec, Frame) io" where
  "read_frame p = codec_recv p"

record FrameWriter =
  fw_tx :: Tx
  fw_options :: FrameOptions

definition writer_new :: "conn \<Rightarrow> SessionKeys \<Rightarrow> FrameOptions \<Rightarrow> FrameWriter" where
  "writer_new writer keys options =
     \<lparr>fw_tx = \<lparr>x_conn = writer, x_keys = keys, x_seq = 0, x_disabled_until = None, x_next_pace_at = None,
               x_slept = 0, x_key_updates = 0, x_sealed = []\<rparr>, fw_options = options\<rparr>"

definition writer_send :: "prims \<Rightarrow> send_draw \<Rightarrow> Frame \<Rightarrow> (FrameWriter, unit) io" where
  "writer_send p d frame w =
     (case send_with_optional_padding p (fw_options w) d frame (fw_tx w) of
        (r, t) \<Rightarrow> (r, w\<lparr>fw_tx := t\<rparr>))"

record FrameReader =
  fr_rx :: Rx
  fr_options :: FrameOptions

definition reader_new :: "conn \<Rightarrow> SessionKeys \<Rightarrow> FrameOptions \<Rightarrow> FrameReader" where
  "reader_new reader keys options =
     \<lparr>fr_rx = \<lparr>y_conn = reader, y_keys = keys, y_seq = 0\<rparr>, fr_options = options\<rparr>"

definition reader_recv :: "prims \<Rightarrow> (FrameReader, Frame) io" where
  "reader_recv p r = (case recv p (fr_options r) (fr_rx r) of (x, s) \<Rightarrow> (x, r\<lparr>fr_rx := s\<rparr>))"

text \<open>
  The copy loop. A read into a buffer of \<open>n\<close> bytes gives between one byte and \<open>n\<close> of what is
  left, and none only at the end of the input; the draws are the chunk size, how short the read falls and
  what sending takes.
\<close>

record copy_draw =
  cd_chunk :: nat
  cd_short :: nat
  cd_send :: send_draw

definition read_some :: "nat \<Rightarrow> nat \<Rightarrow> bytes \<Rightarrow> bytes" where
  "read_some short n input = take (gen_range 1 (max 1 (min n (length input))) short) (take n input)"

function copy_encrypted :: "prims \<Rightarrow> (nat \<Rightarrow> copy_draw) \<Rightarrow> nat \<Rightarrow> u64 \<Rightarrow> bytes \<Rightarrow> (FrameCodec, u64) io" where
  "copy_encrypted p draws k copied input c =
     (let chunk_size = next_chunk_size (c_options c) (cd_chunk (draws k));
          got = read_some (cd_short (draws k)) chunk_size input
      in if got = [] then
           io_then (codec_send p (cd_send (draws k)) \<lparr>f_ty = Close, f_payload = []\<rparr>) (io_return copied) c
         else
           (case codec_send p (cd_send (draws k)) \<lparr>f_ty = Data, f_payload = got\<rparr> c of
              (Inl e, c') \<Rightarrow> (Inl e, c')
            | (Inr _, c') \<Rightarrow>
                copy_encrypted p draws (Suc k) (copied + of_nat (length got)) (drop (length got) input) c'))"
  by pat_completeness auto
termination
  by (relation "measure (\<lambda>(_, _, _, _, input, _). length input)") (auto simp: read_some_def split: if_splits)

declare copy_encrypted.simps [simp del]

end
