(* ===== verification/Esp_Framing_Props.thy ===== *)
theory Esp_Framing_Props
  imports Esp_Framing
begin

text \<open>
  What the record layer of \<open>Esp_Framing\<close> achieves: two codecs with mirrored keys exchange frames in
  both directions, in order, through padding and key updates; the copy loop carries its whole
  input; a record that is read is one that a writer at the same point could have written; no nonce
  is used twice; chunk sizes stay within what a frame holds; and a padding frame can step over the
  point of a key update.
\<close>

section \<open>Frames that fit\<close>

definition options_ok :: "FrameOptions \<Rightarrow> bool" where
  "options_ok o' \<longleftrightarrow>
     (if is_stealth o' then validate_stealth o' = Inr () else o_max_padding o' \<le> NORMAL_PAYLOAD_CAPACITY)"

definition capacity :: "FrameOptions \<Rightarrow> nat" where
  "capacity o' = (if is_stealth o' then o_stealth_frame_size o' - 19 else NORMAL_PAYLOAD_CAPACITY)"

lemma stealth_capacity:
  "validate_stealth o' = Inr () \<Longrightarrow> stealth_payload_capacity o' = Inr (o_stealth_frame_size o' - 19) \<and>
     19 < o_stealth_frame_size o' \<and> o_stealth_frame_size o' \<le> 65536"
  by (simp add: stealth_payload_capacity_def validate_stealth_def frame_lens split: if_splits)

lemma frame_type_round: "frame_type_try_from (frame_type_u8 ty) = Inr ty"
  by (cases ty) (simp_all add: frame_type_try_from_def frame_type_u8_def)

lemma frame_type_unround: "frame_type_try_from v = Inr ty \<Longrightarrow> frame_type_u8 ty = v"
  by (auto simp: frame_type_try_from_def frame_type_u8_def split: if_splits)

lemma frame_eta: "\<lparr>f_ty = f_ty f, f_payload = f_payload f\<rparr> = f"
  by simp

lemma prims_aead:
  assumes "prims_ok p" "length x \<le> u32_max"
  obtains y where "aead_encrypt p k n x = Some y" "length y = length x + 16" "aead_decrypt p k n y = Some x"
  using assms by (meson prims_ok_def)

section \<open>One record\<close>

definition sync :: "Tx \<Rightarrow> Rx \<Rightarrow> bool" where
  "sync s r \<longleftrightarrow> mirrored (x_keys s) (y_keys r) \<and> x_seq s = y_seq r"

text \<open>The effect of writing the bytes \<open>w\<close> as one record.\<close>

definition wrote :: "Tx \<Rightarrow> bytes \<Rightarrow> Tx \<Rightarrow> bool" where
  "wrote s w s' \<longleftrightarrow> x_keys s' = x_keys s \<and> x_seq s' = x_seq s + 1 \<and> rx (x_conn s') = rx (x_conn s) \<and>
     tx (x_conn s') = tx (x_conn s) @ w \<and>
     x_sealed s' = x_sealed s @ [(k_tx_generation (x_keys s), x_seq s)] \<and>
     x_disabled_until s' = x_disabled_until s"

lemma pace_eq:
  "pace o' d n s = (Inr (), s\<lparr>x_slept := x_slept s + fst (pace_before_write (w_secs d) (w_now d) o' n (x_next_pace_at s)),
     x_next_pace_at := snd (pace_before_write (w_secs d) (w_now d) o' n (x_next_pace_at s))\<rparr>)"
  by (simp add: pace_def split: prod.splits)

lemmas write_steps = seal_def encrypt_def pace_eq step_seq_def put_def write_all_def io_bind_def io_then_def Let_def

definition taken :: "bytes \<Rightarrow> Rx \<Rightarrow> Rx" where
  "taken rest r = r\<lparr>y_conn := (y_conn r)\<lparr>rx := rest\<rparr>\<rparr>"

lemma taken_simps [simp]: "y_keys (taken t r) = y_keys r" "y_seq (taken t r) = y_seq r"
  "rx (y_conn (taken t r)) = t" "tx (y_conn (taken t r)) = tx (y_conn r)"
  "taken u (taken t r) = taken u r"
  by (simp_all add: taken_def)

lemma get_exact:
  "rx (y_conn r) = w @ rest \<Longrightarrow> length w = n \<Longrightarrow> get (read_exact n) r = (Inr w, taken rest r)"
  by (simp add: get_def read_exact_append taken_def)

lemma get_u32:
  "rx (y_conn r) = to_be_u32 w @ rest \<Longrightarrow> get read_u32 r = (Inr w, taken rest r)"
  by (simp add: get_def read_u32_append taken_def)

text \<open>Reading a record that was written from a state in sync.\<close>

definition record_read :: "prims \<Rightarrow> FrameOptions \<Rightarrow> Tx \<Rightarrow> bytes \<Rightarrow> Frame \<Rightarrow> bool" where
  "record_read p o' s w f \<longleftrightarrow> (\<forall>r rest. sync s r \<longrightarrow> rx (y_conn r) = w @ rest \<longrightarrow>
     read_one p o' r = io_then (renew_rx p (f_ty f)) (io_return f) ((taken rest r)\<lparr>y_seq := y_seq r + 1\<rparr>))"

lemma write_read_normal:
  assumes "prims_ok p" "\<not> is_stealth o'" "length (f_payload f) \<le> NORMAL_PAYLOAD_CAPACITY"
  shows "\<exists>w s'. write_one p o' d f s = (Inr (w_elapsed d), s') \<and> wrote s w s' \<and> record_read p o' s w f"
proof -
  let ?plain = "frame_type_u8 (f_ty f) # f_payload f"
  obtain c where c: "aead_encrypt p (k_tx (x_keys s)) (session_nonce (x_seq s) (k_nonce_tag (x_keys s))) ?plain = Some c"
    "length c = length ?plain + 16"
    "aead_decrypt p (k_tx (x_keys s)) (session_nonce (x_seq s) (k_nonce_tag (x_keys s))) c = Some ?plain"
    by (rule prims_aead [OF assms(1), of ?plain]) (use assms(3) in \<open>simp add: frame_lens u32_max_def\<close>)
  have len: "length c \<le> 262144" "0 < length c" using c(2) assms(3) by (simp_all add: frame_lens)
  define w where "w = to_be_u32 (of_nat (length c) XOR length_mask p (k_tx_len_mask (x_keys s)) (x_seq s)) @ c"
  have "\<exists>s'. write_one p o' d f s = (Inr (w_elapsed d), s') \<and> wrote s w s'"
    using assms(2,3) c(1) len
    by (simp add: write_one_def write_normal_one_def write_steps wrote_def w_def NORMAL_MAX_FRAME_def)
  moreover have "record_read p o' s w f"
  proof -
    define m where "m = length_mask p (k_tx_len_mask (x_keys s)) (x_seq s)"
    define n where "n = length c"
    have n: "unat ((of_nat n XOR m) XOR m) = n" "0 < n" "n \<le> 262144"
      using len by (simp_all add: n_def xor.assoc unat_of_nat_u32 u32_max_def)
    show ?thesis
      unfolding record_read_def
    proof (intro allI impI)
      fix r rest assume "sync s r" and rx: "rx (y_conn r) = w @ rest"
      then have k: "k_rx (y_keys r) = k_tx (x_keys s)" "k_nonce_tag (y_keys r) = k_nonce_tag (x_keys s)"
        "y_seq r = x_seq s" "length_mask p (k_rx_len_mask (y_keys r)) (y_seq r) = m"
        by (simp_all add: sync_def mirrored_def m_def)
      have "get read_u32 r = (Inr (of_nat n XOR m), taken (c @ rest) r)"
        using rx by (intro get_u32) (simp add: w_def m_def n_def)
      moreover have "get (read_exact n) (taken (c @ rest) r) = (Inr c, taken rest r)"
        using get_exact [of "taken (c @ rest) r" c rest n] by (simp add: n_def)
      ultimately show "read_one p o' r = io_then (renew_rx p (f_ty f)) (io_return f)
          ((taken rest r)\<lparr>y_seq := y_seq r + 1\<rparr>)"
        using n k c(3) assms(2)
        by (simp add: read_one_def read_normal_one_def io_bind_def open_record_def decrypt_def
            NORMAL_MAX_FRAME_def Let_def frame_type_round frame_eta)
    qed
  qed
  ultimately show ?thesis by blast
qed

lemma write_read_stealth:
  assumes "prims_ok p" "is_stealth o'" "validate_stealth o' = Inr ()" "write_draw_ok d"
    and "length (f_payload f) \<le> o_stealth_frame_size o' - 19"
  shows "\<exists>w s'. write_one p o' d f s = (Inr (w_elapsed d), s') \<and> wrote s w s' \<and> record_read p o' s w f"
proof -
  define n where "n = o_stealth_frame_size o'"
  define m where "m = length (f_payload f)"
  have n: "stealth_payload_capacity o' = Inr (n - 19)" "19 < n" "n \<le> 65536" "m \<le> n - 19"
    using stealth_capacity [OF assms(3)] assms(5) by (simp_all add: n_def m_def)
  define pad where "pad = drop (3 + m) (w_fill d (n - 16))"
  define plain where "plain = frame_type_u8 (f_ty f) # to_be_u16 (of_nat m) @ f_payload f @ pad"
  have plain: "length plain = n - 16" "hd plain = frame_type_u8 (f_ty f)" "subslice 1 3 plain = to_be_u16 (of_nat m)"
    "take m (drop 3 plain) = f_payload f"
    using assms(4) n(2-4) by (simp_all add: plain_def pad_def write_draw_ok_def m_def subslice_def)
  obtain c where c: "aead_encrypt p (k_tx (x_keys s)) (session_nonce (x_seq s) (k_nonce_tag (x_keys s))) plain = Some c"
    "length c = length plain + 16"
    "aead_decrypt p (k_tx (x_keys s)) (session_nonce (x_seq s) (k_nonce_tag (x_keys s))) c = Some plain"
    by (rule prims_aead [OF assms(1), of plain]) (use plain(1) n(3) in \<open>simp add: u32_max_def\<close>)
  have len: "length c = n" using c(2) plain(1) n(2) by simp
  have "\<exists>s'. write_one p o' d f s = (Inr (w_elapsed d), s') \<and> wrote s c s'"
    using assms(2) n c(1) len
    by (simp add: write_one_def write_stealth_one_def write_steps wrote_def AEAD_TAG_LEN_def STEALTH_HEADER_LEN_def
        plain_def pad_def flip: n_def m_def)
  moreover have "record_read p o' s c f"
    unfolding record_read_def
  proof (intro allI impI)
    fix r rest assume sync: "sync s r" and rx: "rx (y_conn r) = c @ rest"
    have "unat (of_nat m :: u16) = m" using n(2-4) by (simp add: unat_of_nat_u16 u16_max_def)
    moreover have "get (read_exact n) r = (Inr c, taken rest r)" using rx len by (rule get_exact)
    moreover have "\<not> n - 16 < 3 + m" "\<not> n - 16 < 3" using n(2,4) by simp_all
    ultimately show "read_one p o' r = io_then (renew_rx p (f_ty f)) (io_return f)
        ((taken rest r)\<lparr>y_seq := y_seq r + 1\<rparr>)"
      using sync plain n c(3) assms(2,3)
      by (simp add: sync_def mirrored_def read_one_def read_stealth_one_def io_bind_def open_record_def decrypt_def
          STEALTH_HEADER_LEN_def Let_def frame_type_round frame_eta flip: n_def)
  qed
  ultimately show ?thesis by blast
qed

lemma write_read:
  assumes "prims_ok p" "options_ok o'" "write_draw_ok d" "length (f_payload f) \<le> capacity o'"
  obtains w s' where "write_one p o' d f s = (Inr (w_elapsed d), s')" "wrote s w s'" "record_read p o' s w f"
  using assms write_read_normal [of p o' f d s] write_read_stealth [of p o' d f s]
  by (cases "is_stealth o'") (auto simp: options_ok_def capacity_def)

section \<open>One send, one receive\<close>

text \<open>The half of the keys that one direction uses.\<close>

definition tx_half :: "SessionKeys \<Rightarrow> bytes \<times> bytes \<times> bytes \<times> bytes \<times> u64 \<times> bytes" where
  "tx_half k = (k_tx k, k_tx_key k, k_tx_len_mask k, k_nonce_tag k, k_tx_generation k, k_tx_update_label k)"

definition rx_half :: "SessionKeys \<Rightarrow> bytes \<times> bytes \<times> bytes \<times> bytes \<times> u64 \<times> bytes" where
  "rx_half k = (k_rx k, k_rx_key k, k_rx_len_mask k, k_nonce_tag k, k_rx_generation k, k_rx_update_label k)"

lemma mirrored_halves: "mirrored a b \<longleftrightarrow> tx_half a = rx_half b"
  by (auto simp: mirrored_def tx_half_def rx_half_def)

lemma update_tx_half: "rx_half (snd (update_tx p k)) = rx_half k"
  by (simp add: update_tx_def rx_half_def split: sum.splits prod.splits)

lemma update_rx_half: "tx_half (snd (update_rx p k)) = tx_half k"
  by (simp add: update_rx_def tx_half_def split: sum.splits prod.splits)

text \<open>
  \<open>skipped\<close>: reading the bytes \<open>w\<close>, a receiver in sync with \<open>s\<close> goes on as one in sync with \<open>s'\<close>;
  \<open>delivered\<close>: it returns the frame.
\<close>

definition skipped :: "prims \<Rightarrow> FrameOptions \<Rightarrow> Tx \<Rightarrow> bytes \<Rightarrow> Tx \<Rightarrow> bool" where
  "skipped p o' s w s' \<longleftrightarrow> (\<forall>r rest. sync s r \<longrightarrow> rx (y_conn r) = w @ rest \<longrightarrow>
     (\<exists>r'. recv p o' r = recv p o' r' \<and> sync s' r' \<and> y_conn r' = (y_conn r)\<lparr>rx := rest\<rparr> \<and>
       tx_half (y_keys r') = tx_half (y_keys r)))"

definition delivered :: "prims \<Rightarrow> FrameOptions \<Rightarrow> Tx \<Rightarrow> bytes \<Rightarrow> Frame \<Rightarrow> Tx \<Rightarrow> bool" where
  "delivered p o' s w f s' \<longleftrightarrow> (\<forall>r rest. sync s r \<longrightarrow> rx (y_conn r) = w @ rest \<longrightarrow>
     (\<exists>r'. recv p o' r = (Inr f, r') \<and> sync s' r' \<and> y_conn r' = (y_conn r)\<lparr>rx := rest\<rparr> \<and>
       tx_half (y_keys r') = tx_half (y_keys r)))"

lemma skipped_none: "x_keys s' = x_keys s \<Longrightarrow> x_seq s' = x_seq s \<Longrightarrow> skipped p o' s [] s'"
  by (auto simp: skipped_def sync_def)

lemma skipped_then:
  assumes "skipped p o' s w s'" "skipped p o' s' w' s''"
  shows "skipped p o' s (w @ w') s''"
  unfolding skipped_def
proof (intro allI impI)
  fix r rest assume r: "sync s r" "rx (y_conn r) = (w @ w') @ rest"
  with assms(1) obtain r1 where r1: "recv p o' r = recv p o' r1" "sync s' r1" "y_conn r1 = (y_conn r)\<lparr>rx := w' @ rest\<rparr>"
    "tx_half (y_keys r1) = tx_half (y_keys r)"
    by (metis append_assoc skipped_def)
  then have "rx (y_conn r1) = w' @ rest" by simp
  with assms(2) r1(2) obtain r2 where "recv p o' r1 = recv p o' r2" "sync s'' r2" "y_conn r2 = (y_conn r1)\<lparr>rx := rest\<rparr>"
    "tx_half (y_keys r2) = tx_half (y_keys r1)"
    by (metis skipped_def)
  with r1 show "\<exists>r'. recv p o' r = recv p o' r' \<and> sync s'' r' \<and> y_conn r' = (y_conn r)\<lparr>rx := rest\<rparr> \<and>
       tx_half (y_keys r') = tx_half (y_keys r)"
    by (intro exI [of _ r2]) simp
qed

lemma skipped_delivered:
  assumes "skipped p o' s w s'" "delivered p o' s' w' f s''"
  shows "delivered p o' s (w @ w') f s''"
  unfolding delivered_def
proof (intro allI impI)
  fix r rest assume r: "sync s r" "rx (y_conn r) = (w @ w') @ rest"
  with assms(1) obtain r1 where r1: "recv p o' r = recv p o' r1" "sync s' r1" "y_conn r1 = (y_conn r)\<lparr>rx := w' @ rest\<rparr>"
    "tx_half (y_keys r1) = tx_half (y_keys r)"
    by (metis append_assoc skipped_def)
  then have "rx (y_conn r1) = w' @ rest" by simp
  with assms(2) r1(2) obtain r2 where "recv p o' r1 = (Inr f, r2)" "sync s'' r2" "y_conn r2 = (y_conn r1)\<lparr>rx := rest\<rparr>"
    "tx_half (y_keys r2) = tx_half (y_keys r1)"
    by (metis delivered_def)
  with r1 show "\<exists>r'. recv p o' r = (Inr f, r') \<and> sync s'' r' \<and> y_conn r' = (y_conn r)\<lparr>rx := rest\<rparr> \<and>
       tx_half (y_keys r') = tx_half (y_keys r)"
    by (intro exI [of _ r2]) simp
qed

text \<open>Backpressure only moves the instant until which padding is off.\<close>

lemma backpressure_eq:
  "\<exists>v. observe_write_backpressure o' d e s = (Inr (), s\<lparr>x_disabled_until := v\<rparr>)"
  by (cases "observe_backpressure o' (w_after d) e")
    (auto simp: observe_write_backpressure_def intro: exI [of _ "x_disabled_until s"])

lemma frame_delivered:
  assumes "record_read p o' s w f" "wrote s w s'" "f_ty f \<noteq> Padding" "f_ty f \<noteq> KeyUpdate"
    and "x_keys s'' = x_keys s'" "x_seq s'' = x_seq s'"
  shows "delivered p o' s w f s''"
  unfolding delivered_def
proof (intro allI impI)
  fix r rest assume "sync s r" "rx (y_conn r) = w @ rest"
  with assms show "\<exists>r'. recv p o' r = (Inr f, r') \<and> sync s'' r' \<and> y_conn r' = (y_conn r)\<lparr>rx := rest\<rparr> \<and>
       tx_half (y_keys r') = tx_half (y_keys r)"
    by (intro exI [of _ "(taken rest r)\<lparr>y_seq := y_seq r + 1\<rparr>"])
      (simp add: record_read_def recv.simps [of p o' r] io_then_def io_bind_def renew_rx_def sync_def wrote_def taken_def)
qed

lemma padding_skipped:
  assumes "record_read p o' s w f" "wrote s w s'" "f_ty f = Padding"
    and "x_keys s'' = x_keys s'" "x_seq s'' = x_seq s'"
  shows "skipped p o' s w s''"
  unfolding skipped_def
proof (intro allI impI)
  fix r rest assume "sync s r" "rx (y_conn r) = w @ rest"
  with assms show "\<exists>r'. recv p o' r = recv p o' r' \<and> sync s'' r' \<and> y_conn r' = (y_conn r)\<lparr>rx := rest\<rparr> \<and>
       tx_half (y_keys r') = tx_half (y_keys r)"
    by (intro exI [of _ "(taken rest r)\<lparr>y_seq := y_seq r + 1\<rparr>"])
      (simp add: record_read_def recv.simps [of p o' r] io_then_def io_bind_def renew_rx_def sync_def wrote_def taken_def)
qed

lemma key_update_skipped:
  assumes "record_read p o' s w f" "wrote s w s1" "f_ty f = KeyUpdate"
    and "update_tx p (x_keys s1) = (Inr (), k)" "x_keys s'' = k" "x_seq s'' = 0"
  shows "skipped p o' s w s''"
  unfolding skipped_def
proof (intro allI impI)
  fix r rest assume r: "sync s r" "rx (y_conn r) = w @ rest"
  with assms(2,4) obtain k' where k': "update_rx p (y_keys r) = (Inr (), k')" "mirrored k k'"
    using update_mirrored [of "x_keys s" "y_keys r" p k] by (auto simp: sync_def wrote_def)
  with assms r update_rx_half [of p "y_keys r"]
  show "\<exists>r'. recv p o' r = recv p o' r' \<and> sync s'' r' \<and> y_conn r' = (y_conn r)\<lparr>rx := rest\<rparr> \<and>
       tx_half (y_keys r') = tx_half (y_keys r)"
    by (intro exI [of _ "(taken rest r)\<lparr>y_keys := k', y_seq := 0\<rparr>"])
      (simp add: record_read_def recv.simps [of p o' r] io_then_def io_bind_def renew_rx_def sync_def taken_def)
qed

text \<open>What sending does to the sender besides its sequence number: bytes go out, the receiving half stays.\<close>

definition grew :: "Tx \<Rightarrow> bytes \<Rightarrow> Tx \<Rightarrow> bool" where
  "grew s w s' \<longleftrightarrow> rx (x_conn s') = rx (x_conn s) \<and> tx (x_conn s') = tx (x_conn s) @ w \<and>
     rx_half (x_keys s') = rx_half (x_keys s) \<and>
     unat (k_tx_generation (x_keys s)) \<le> unat (k_tx_generation (x_keys s'))"

lemma grew_trans: "grew s w s' \<Longrightarrow> grew s' w' s'' \<Longrightarrow> grew s (w @ w') s''"
  by (simp add: grew_def)

lemma update_tx_ok:
  assumes "unat (k_tx_generation k) < u64_max"
  obtains k' where "update_tx p k = (Inr (), k')" "rx_half k' = rx_half k"
    "unat (k_tx_generation k') = unat (k_tx_generation k) + 1"
proof -
  let ?g = "k_tx_generation k"
  have "unat (?g + 1) = unat ?g + 1"
    using assms by (simp add: unat_word_ariths u64_max_def)
  with assms show thesis
    using that update_tx_half [of p k]
    by (auto simp: update_tx_def next_key_generation_def split: prod.splits)
qed

lemma key_update_phase:
  assumes "prims_ok p" "options_ok o'" "send_draw_ok d" "unat (k_tx_generation (x_keys s)) < u64_max"
  obtains s' w where "write_key_update p o' d ty s = (Inr (), s')" "grew s w s'" "skipped p o' s w s'"
    "unat (k_tx_generation (x_keys s')) \<le> unat (k_tx_generation (x_keys s)) + 1"
proof (cases "should_key_update o' (x_seq s) ty")
  case False
  then show thesis
    by (intro that [of s "[]"]) (simp_all add: write_key_update_def grew_def skipped_none)
next
  case True
  let ?f = "\<lparr>f_ty = KeyUpdate, f_payload = []\<rparr>"
  obtain w s1 where w: "write_one p o' (s_update d) ?f s = (Inr (w_elapsed (s_update d)), s1)" "wrote s w s1"
    "record_read p o' s w ?f"
    by (rule write_read [OF assms(1,2), of "s_update d" ?f s]) (use assms(3) in \<open>simp_all add: send_draw_ok_def\<close>)
  obtain v where v: "observe_write_backpressure o' (s_update d) (w_elapsed (s_update d)) s1 =
      (Inr (), s1\<lparr>x_disabled_until := v\<rparr>)" using backpressure_eq by blast
  obtain n where n: "count_key_update o' (s1\<lparr>x_disabled_until := v\<rparr>) = (Inr (), s1\<lparr>x_disabled_until := v, x_key_updates := n\<rparr>)"
    by (cases "o_metrics o'") (auto simp: count_key_update_def intro: that [of "x_key_updates s1"])
  obtain k where k: "update_tx p (x_keys s1) = (Inr (), k)" "rx_half k = rx_half (x_keys s1)"
    "unat (k_tx_generation k) = unat (k_tx_generation (x_keys s1)) + 1"
    by (rule update_tx_ok [of "x_keys s1" p]) (use assms(4) w(2) in \<open>simp_all add: wrote_def\<close>)
  let ?s = "s1\<lparr>x_disabled_until := v, x_key_updates := n, x_keys := k, x_seq := 0\<rparr>"
  show thesis
  proof (rule that)
    show "write_key_update p o' d ty s = (Inr (), ?s)"
      using True w(1) v n k(1) by (simp add: write_key_update_def io_bind_def io_then_def renew_tx_def)
    show "grew s w ?s" using w(2) k(2,3) by (simp add: grew_def wrote_def)
    show "skipped p o' s w ?s" by (rule key_update_skipped [OF w(3,2) _ k(1)]) simp_all
    show "unat (k_tx_generation (x_keys ?s)) \<le> unat (k_tx_generation (x_keys s)) + 1"
      using w(2) k(3) by (simp add: wrote_def)
  qed
qed

lemma gen_range_bounds: "lo \<le> hi \<Longrightarrow> lo \<le> gen_range lo hi n \<and> gen_range lo hi n \<le> hi"
proof -
  assume "lo \<le> hi"
  moreover have "n mod (hi - lo + 1) < hi - lo + 1" by simp
  ultimately show ?thesis unfolding gen_range_def by linarith
qed

lemma padding_phase:
  assumes "prims_ok p" "options_ok o'" "send_draw_ok d"
  obtains s' w where "maybe_write_padding p o' d s = (Inr (), s')" "grew s w s'" "skipped p o' s w s'"
    "x_keys s' = x_keys s"
proof (cases "should_send_padding o' (x_disabled_until s) (s_gate_now d) (s_gate d)")
  case False
  then show thesis
    by (intro that [of s "[]"]) (simp_all add: maybe_write_padding_def grew_def skipped_none)
next
  case True
  let ?n = "gen_range 1 (o_max_padding o') (s_pad_len d)"
  let ?f = "\<lparr>f_ty = Padding, f_payload = random_padding (s_pad_fill d) ?n\<rparr>"
  have open': "\<not> is_stealth o'" "1 \<le> o_max_padding o'"
    using True by (auto simp: should_send_padding_def split: if_splits)
  have "length (f_payload ?f) \<le> capacity o'"
    using assms(2,3) open' gen_range_bounds [OF open'(2), of "s_pad_len d"]
    by (simp add: random_padding_def send_draw_ok_def capacity_def options_ok_def)
  then obtain w s1 where w: "write_one p o' (s_padding d) ?f s = (Inr (w_elapsed (s_padding d)), s1)" "wrote s w s1"
    "record_read p o' s w ?f"
    by (rule write_read [OF assms(1,2), of "s_padding d" ?f s, rotated]) (use assms(3) in \<open>simp_all add: send_draw_ok_def\<close>)
  obtain v where v: "observe_write_backpressure o' (s_padding d) (w_elapsed (s_padding d)) s1 =
      (Inr (), s1\<lparr>x_disabled_until := v\<rparr>)" using backpressure_eq by blast
  show thesis
  proof (rule that)
    show "maybe_write_padding p o' d s = (Inr (), s1\<lparr>x_disabled_until := v\<rparr>)"
      using True w(1) v by (simp add: maybe_write_padding_def io_bind_def Let_def)
    show "grew s w (s1\<lparr>x_disabled_until := v\<rparr>)" using w(2) by (simp add: grew_def wrote_def)
    show "skipped p o' s w (s1\<lparr>x_disabled_until := v\<rparr>)" by (rule padding_skipped [OF w(3,2)]) simp_all
    show "x_keys (s1\<lparr>x_disabled_until := v\<rparr>) = x_keys s" using w(2) by (simp add: wrote_def)
  qed
qed

lemma send_delivers:
  assumes "prims_ok p" "options_ok o'" "send_draw_ok d" "unat (k_tx_generation (x_keys s)) < u64_max"
    and "length (f_payload f) \<le> capacity o'" "f_ty f \<noteq> Padding" "f_ty f \<noteq> KeyUpdate"
  obtains s' w where "send_with_optional_padding p o' d f s = (Inr (), s')" "grew s w s'" "delivered p o' s w f s'"
    "unat (k_tx_generation (x_keys s')) \<le> unat (k_tx_generation (x_keys s)) + 1"
proof -
  obtain s1 w1 where 1: "write_key_update p o' d (f_ty f) s = (Inr (), s1)" "grew s w1 s1" "skipped p o' s w1 s1"
    "unat (k_tx_generation (x_keys s1)) \<le> unat (k_tx_generation (x_keys s)) + 1"
    by (rule key_update_phase [OF assms(1-4)])
  obtain s2 w2 where 2: "(if \<not> is_stealth o' \<and> f_ty f \<noteq> Padding \<and> f_ty f \<noteq> KeyUpdate
      then maybe_write_padding p o' d else io_return ()) s1 = (Inr (), s2)" "grew s1 w2 s2" "skipped p o' s1 w2 s2"
    "x_keys s2 = x_keys s1"
  proof (cases "is_stealth o'")
    case True
    then show thesis by (intro that [of s1 "[]"]) (simp_all add: grew_def skipped_none)
  next
    case False
    show thesis
      by (rule padding_phase [OF assms(1-3), of s1]) (use False assms(6,7) that in simp)
  qed
  obtain w3 s3 where 3: "write_one p o' (s_frame d) f s2 = (Inr (w_elapsed (s_frame d)), s3)" "wrote s2 w3 s3"
    "record_read p o' s2 w3 f"
    by (rule write_read [OF assms(1,2), of "s_frame d" f s2]) (use assms(3,5) in \<open>simp_all add: send_draw_ok_def\<close>)
  obtain v where v: "observe_write_backpressure o' (s_frame d) (w_elapsed (s_frame d)) s3 =
      (Inr (), s3\<lparr>x_disabled_until := v\<rparr>)" using backpressure_eq by blast
  let ?s = "s3\<lparr>x_disabled_until := v\<rparr>"
  show thesis
  proof (rule that)
    show "send_with_optional_padding p o' d f s = (Inr (), ?s)"
      using 1(1) 2(1) 3(1) v by (simp add: send_with_optional_padding_def io_then_def io_bind_def)
    have "grew s2 w3 ?s" using 3(2) by (simp add: grew_def wrote_def)
    then show "grew s (w1 @ w2 @ w3) ?s" using 1(2) 2(2) by (intro grew_trans)
    have "delivered p o' s2 w3 f ?s" by (rule frame_delivered [OF 3(3,2) assms(6,7)]) simp_all
    then show "delivered p o' s (w1 @ w2 @ w3) f ?s" using 1(3) 2(3) by (intro skipped_delivered)
    show "unat (k_tx_generation (x_keys ?s)) \<le> unat (k_tx_generation (x_keys s)) + 1"
      using 1(4) 2(4) 3(2) by (simp add: wrote_def)
  qed
qed

section \<open>Frames in flight\<close>

lemma sync_cong:
  "tx_half (x_keys s) = tx_half (x_keys t) \<Longrightarrow> x_seq s = x_seq t \<Longrightarrow> sync s r = sync t r"
  by (simp add: sync_def mirrored_halves)

text \<open>The bytes \<open>ws\<close> take a receiver from the state of \<open>s\<close> to that of \<open>t\<close>, returning the frames \<open>q\<close>.\<close>

inductive flight :: "prims \<Rightarrow> FrameOptions \<Rightarrow> Tx \<Rightarrow> bytes \<Rightarrow> Frame list \<Rightarrow> Tx \<Rightarrow> bool" for p o' where
  landed: "tx_half (x_keys s) = tx_half (x_keys t) \<Longrightarrow> x_seq s = x_seq t \<Longrightarrow> flight p o' s [] [] t"
| flying: "delivered p o' s w f s' \<Longrightarrow> flight p o' s' ws q t \<Longrightarrow> flight p o' s (w @ ws) (f # q) t"

inductive_cases flight_NilE: "flight p o' s ws [] t"
inductive_cases flight_ConsE: "flight p o' s ws (f # q) t"

lemma delivered_cong:
  "delivered p o' s w f s' \<Longrightarrow> tx_half (x_keys s) = tx_half (x_keys s1) \<Longrightarrow> x_seq s = x_seq s1 \<Longrightarrow> delivered p o' s1 w f s'"
  unfolding delivered_def using sync_cong by metis

lemma flight_snoc:
  "flight p o' s ws q t \<Longrightarrow> tx_half (x_keys t) = tx_half (x_keys t1) \<Longrightarrow> x_seq t = x_seq t1 \<Longrightarrow>
     delivered p o' t1 w f t' \<Longrightarrow> tx_half (x_keys t') = tx_half (x_keys u) \<Longrightarrow> x_seq t' = x_seq u \<Longrightarrow>
     flight p o' s (ws @ w) (q @ [f]) u"
proof (induction rule: flight.induct)
  case (landed s t)
  then have "delivered p o' s w f t'" by (metis delivered_cong)
  from flying [OF this flight.landed [OF landed.prems(4,5)]] show ?case by simp
next
  case (flying s w f s' ws q t)
  then show ?case by (auto intro: flight.flying)
qed

section \<open>Two codecs over a pipe\<close>

text \<open>
  Two codecs joined by a pipe in each direction. A send puts its bytes into the other side's
  input; a receive with nothing in the input waits. The specification is a pair of queues.
\<close>

datatype side = A | B

datatype act = Send side send_draw Frame | Recv side

record duplex =
  end_of :: "side \<Rightarrow> FrameCodec"
  got :: "side \<Rightarrow> Frame list"

definition other :: "side \<Rightarrow> side" where
  "other i = (case i of A \<Rightarrow> B | B \<Rightarrow> A)"

definition emptied :: "FrameCodec \<Rightarrow> FrameCodec" where
  "emptied c = c\<lparr>c_stream := (c_stream c)\<lparr>tx := []\<rparr>\<rparr>"

definition fed :: "bytes \<Rightarrow> FrameCodec \<Rightarrow> FrameCodec" where
  "fed w c = c\<lparr>c_stream := (c_stream c)\<lparr>rx := rx (c_stream c) @ w\<rparr>\<rparr>"

fun duplex_step :: "prims \<Rightarrow> act \<Rightarrow> duplex \<Rightarrow> duplex option" where
  "duplex_step p (Send i d f) x =
     (case codec_send p d f (end_of x i) of
        (Inl e, c) \<Rightarrow> None
      | (Inr _, c) \<Rightarrow> Some (x\<lparr>end_of := (end_of x)
          (i := emptied c, other i := fed (tx (c_stream c)) (end_of x (other i)))\<rparr>))"
| "duplex_step p (Recv i) x =
     (if rx (c_stream (end_of x i)) = [] then Some x
      else (case codec_recv p (end_of x i) of
              (Inl e, c) \<Rightarrow> None
            | (Inr f, c) \<Rightarrow> Some (x\<lparr>end_of := (end_of x)(i := c), got := (got x)(i := got x i @ [f])\<rparr>)))"

fun duplex_run :: "prims \<Rightarrow> act list \<Rightarrow> duplex \<Rightarrow> duplex option" where
  "duplex_run p [] x = Some x"
| "duplex_run p (a # as) x = (case duplex_step p a x of None \<Rightarrow> None | Some y \<Rightarrow> duplex_run p as y)"

record queues =
  queued :: "side \<Rightarrow> Frame list"
  taken_by :: "side \<Rightarrow> Frame list"

text \<open>\<open>queued i\<close> is on its way to \<open>i\<close>.\<close>

fun queue_step :: "act \<Rightarrow> queues \<Rightarrow> queues" where
  "queue_step (Send i d f) x = x\<lparr>queued := (queued x)(other i := queued x (other i) @ [f])\<rparr>"
| "queue_step (Recv i) x =
     (case queued x i of
        [] \<Rightarrow> x
      | f # q \<Rightarrow> x\<lparr>queued := (queued x)(i := q), taken_by := (taken_by x)(i := taken_by x i @ [f])\<rparr>)"

definition act_ok :: "FrameOptions \<Rightarrow> act \<Rightarrow> bool" where
  "act_ok o' a \<longleftrightarrow>
     (case a of
        Send i d f \<Rightarrow> send_draw_ok d \<and> length (f_payload f) \<le> capacity o' \<and> f_ty f \<noteq> Padding \<and> f_ty f \<noteq> KeyUpdate
      | Recv i \<Rightarrow> True)"

text \<open>One direction of the simulation: what \<open>i\<close> will receive is exactly what is queued for it.\<close>

definition direction :: "prims \<Rightarrow> FrameOptions \<Rightarrow> FrameCodec \<Rightarrow> FrameCodec \<Rightarrow> Frame list \<Rightarrow> bool" where
  "direction p o' from to q \<longleftrightarrow>
     (\<exists>s. flight p o' s (rx (c_stream to)) q (codec_tx from) \<and> sync s (codec_rx to))"

definition simulates :: "prims \<Rightarrow> FrameOptions \<Rightarrow> nat \<Rightarrow> duplex \<Rightarrow> queues \<Rightarrow> bool" where
  "simulates p o' n x y \<longleftrightarrow> got x = taken_by y \<and>
     (\<forall>i. direction p o' (end_of x (other i)) (end_of x i) (queued y i) \<and> tx (c_stream (end_of x i)) = [] \<and>
          c_options (end_of x i) = o' \<and> unat (k_tx_generation (c_keys (end_of x i))) \<le> n)"

lemma other_simps [simp]: "other (other i) = i" "other i \<noteq> i" "i \<noteq> other i"
  by (cases i; simp add: other_def)+

lemma side_cases: "j = i \<or> j = other i"
  by (cases i; cases j) (simp_all add: other_def)

lemma delivered_nonempty: "delivered p o' s w f t \<Longrightarrow> sync s r \<Longrightarrow> rx (y_conn r) = w \<Longrightarrow> w \<noteq> []"
proof
  assume d: "delivered p o' s w f t" and r: "sync s r" "rx (y_conn r) = w" and w: "w = []"
  from d [unfolded delivered_def, rule_format, of r "[]"] r obtain r' where "recv p o' r = (Inr f, r')" by auto
  moreover have "\<exists>e t. read_one p o' r = (Inl e, t)"
  proof (cases "read_one p o' r")
    case (Pair a t)
    then show ?thesis using read_one_shorter [of p o' r _ t] r(2) w by (cases a) auto
  qed
  ultimately show False by (auto simp: recv.simps [of p o' r])
qed

lemma delivered_cong':
  "delivered p o' s w f s' \<Longrightarrow> tx_half (x_keys s') = tx_half (x_keys t) \<Longrightarrow> x_seq s' = x_seq t \<Longrightarrow> delivered p o' s w f t"
  unfolding delivered_def using sync_cong [of s' t] by simp

lemma codec_send_ok:
  assumes "prims_ok p" "options_ok (c_options c)" "send_draw_ok d" "unat (k_tx_generation (c_keys c)) < u64_max"
    and "length (f_payload f) \<le> capacity (c_options c)" "f_ty f \<noteq> Padding" "f_ty f \<noteq> KeyUpdate"
  obtains c' w where "codec_send p d f c = (Inr (), c')" "delivered p (c_options c) (codec_tx c) w f (codec_tx c')"
    "tx (c_stream c') = tx (c_stream c) @ w" "rx (c_stream c') = rx (c_stream c)"
    "rx_half (c_keys c') = rx_half (c_keys c)" "c_rx_seq c' = c_rx_seq c" "c_options c' = c_options c"
    "unat (k_tx_generation (c_keys c')) \<le> unat (k_tx_generation (c_keys c)) + 1"
proof -
  have gen: "unat (k_tx_generation (x_keys (codec_tx c))) < u64_max" using assms(4) by (simp add: codec_tx_def)
  obtain s' w where s': "send_with_optional_padding p (c_options c) d f (codec_tx c) = (Inr (), s')"
    "grew (codec_tx c) w s'" "delivered p (c_options c) (codec_tx c) w f s'"
    "unat (k_tx_generation (x_keys s')) \<le> unat (k_tx_generation (x_keys (codec_tx c))) + 1"
    by (rule send_delivers [OF assms(1-3) gen assms(5-7)])
  define c' where "c' = c\<lparr>c_stream := x_conn s', c_keys := x_keys s', c_tx_seq := x_seq s',
     c_padding_disabled_until := x_disabled_until s', c_next_pace_at := x_next_pace_at s'\<rparr>"
  have "codec_send p d f c = (Inr (), c')" using s'(1) by (simp add: codec_send_def c'_def)
  moreover have "delivered p (c_options c) (codec_tx c) w f (codec_tx c')"
    by (rule delivered_cong' [OF s'(3)]) (simp_all add: codec_tx_def c'_def)
  ultimately show thesis
    using s'(2,4) by (intro that [of c' w]) (simp_all add: c'_def grew_def codec_tx_def)
qed

lemma codec_recv_ok:
  assumes "direction p (c_options c) a c (f # q)"
  obtains c' where "codec_recv p c = (Inr f, c')" "direction p (c_options c) a c' q"
    "tx_half (c_keys c') = tx_half (c_keys c)" "c_tx_seq c' = c_tx_seq c" "tx (c_stream c') = tx (c_stream c)"
    "c_options c' = c_options c" "rx (c_stream c) \<noteq> []"
proof -
  from assms obtain s where fl: "flight p (c_options c) s (rx (c_stream c)) (f # q) (codec_tx a)"
    and sy: "sync s (codec_rx c)" by (auto simp: direction_def)
  from fl obtain w ws s' where w: "rx (c_stream c) = w @ ws" "delivered p (c_options c) s w f s'"
    "flight p (c_options c) s' ws q (codec_tx a)" by (rule flight_ConsE) blast
  have "rx (y_conn (codec_rx c)) = w @ ws" using w(1) by (simp add: codec_rx_def)
  from w(2) [unfolded delivered_def, rule_format, OF sy this]
  obtain r where r: "recv p (c_options c) (codec_rx c) = (Inr f, r)" "sync s' r"
    "y_conn r = (y_conn (codec_rx c))\<lparr>rx := ws\<rparr>" "tx_half (y_keys r) = tx_half (y_keys (codec_rx c))" by blast
  define c' where "c' = c\<lparr>c_stream := y_conn r, c_keys := y_keys r, c_rx_seq := y_seq r\<rparr>"
  have "codec_rx c' = r" by (simp add: codec_rx_def c'_def)
  moreover have "rx (c_stream c') = ws" using r(3) by (simp add: c'_def)
  ultimately have "direction p (c_options c) a c' q" using w(3) r(2) by (auto simp: direction_def)
  moreover have "sync s ((codec_rx c)\<lparr>y_conn := \<lparr>rx = w, tx = []\<rparr>\<rparr>)" using sy by (simp add: sync_def)
  with w(2) have "w \<noteq> []" by (rule delivered_nonempty) simp
  ultimately show thesis
    using r w(1) by (intro that [of c']) (simp_all add: c'_def codec_recv_def codec_rx_def)
qed

lemma flight_end:
  "flight p o' s ws q t \<Longrightarrow> tx_half (x_keys t) = tx_half (x_keys u) \<Longrightarrow> x_seq t = x_seq u \<Longrightarrow> flight p o' s ws q u"
  by (induction rule: flight.induct) (auto intro: flight.intros)

lemma direction_from:
  "direction p o' a c q \<Longrightarrow> tx_half (c_keys a') = tx_half (c_keys a) \<Longrightarrow> c_tx_seq a' = c_tx_seq a \<Longrightarrow> direction p o' a' c q"
proof -
  assume eq: "tx_half (c_keys a') = tx_half (c_keys a)" "c_tx_seq a' = c_tx_seq a" and "direction p o' a c q"
  then obtain s where s: "flight p o' s (rx (c_stream c)) q (codec_tx a)" "sync s (codec_rx c)"
    by (auto simp: direction_def)
  have "flight p o' s (rx (c_stream c)) q (codec_tx a')"
    by (rule flight_end [OF s(1)]) (use eq in \<open>simp_all add: codec_tx_def\<close>)
  with s(2) show ?thesis by (auto simp: direction_def)
qed

lemma direction_to:
  "direction p o' a c q \<Longrightarrow> rx_half (c_keys c') = rx_half (c_keys c) \<Longrightarrow> c_rx_seq c' = c_rx_seq c \<Longrightarrow>
     rx (c_stream c') = rx (c_stream c) \<Longrightarrow> direction p o' a c' q"
  by (auto simp: direction_def sync_def mirrored_halves codec_rx_def)

lemma direction_sent:
  assumes "direction p o' a c q" "delivered p o' (codec_tx a) w f (codec_tx a')"
  shows "direction p o' (emptied a') (fed w c) (q @ [f])"
proof -
  from assms(1) obtain s where s: "flight p o' s (rx (c_stream c)) q (codec_tx a)" "sync s (codec_rx c)"
    by (auto simp: direction_def)
  have "flight p o' s (rx (c_stream c) @ w) (q @ [f]) (codec_tx (emptied a'))"
    by (rule flight_snoc [OF s(1) _ _ assms(2)]) (simp_all add: codec_tx_def emptied_def)
  with s(2) show ?thesis by (auto simp: direction_def fed_def codec_rx_def sync_def)
qed

lemma simulatesI:
  assumes "got x = taken_by y" "direction p o' (end_of x (other i)) (end_of x i) (queued y i)"
    "direction p o' (end_of x i) (end_of x (other i)) (queued y (other i))"
    and "tx (c_stream (end_of x i)) = []" "tx (c_stream (end_of x (other i))) = []"
    and "c_options (end_of x i) = o'" "c_options (end_of x (other i)) = o'"
    and "unat (k_tx_generation (c_keys (end_of x i))) \<le> n" "unat (k_tx_generation (c_keys (end_of x (other i)))) \<le> n"
  shows "simulates p o' n x y"
  unfolding simulates_def
proof (intro conjI allI)
  fix j
  from side_cases [of j i] have "j = i \<or> j = other i" .
  with assms show "direction p o' (end_of x (other j)) (end_of x j) (queued y j)"
    "tx (c_stream (end_of x j)) = []" "c_options (end_of x j) = o'"
    "unat (k_tx_generation (c_keys (end_of x j))) \<le> n" by auto
qed (rule assms(1))

lemma simulates_step:
  assumes "prims_ok p" "options_ok o'" "simulates p o' n x y" "act_ok o' a" "n < u64_max"
  obtains x' where "duplex_step p a x = Some x'" "simulates p o' (Suc n) x' (queue_step a y)"
proof -
  have dir: "direction p o' (end_of x (other j)) (end_of x j) (queued y j)" "tx (c_stream (end_of x j)) = []"
    "c_options (end_of x j) = o'" "unat (k_tx_generation (c_keys (end_of x j))) \<le> n"
    and got: "got x = taken_by y" for j
    using assms(3) by (auto simp: simulates_def)
  show thesis
  proof (cases a)
    case (Send i d f)
    let ?c = "end_of x i" and ?j = "other i"
    have f: "send_draw_ok d" "length (f_payload f) \<le> capacity (c_options ?c)" "f_ty f \<noteq> Padding" "f_ty f \<noteq> KeyUpdate"
      using assms(4) dir(3) by (simp_all add: Send act_ok_def)
    obtain c' w where c': "codec_send p d f ?c = (Inr (), c')" "delivered p (c_options ?c) (codec_tx ?c) w f (codec_tx c')"
      "tx (c_stream c') = tx (c_stream ?c) @ w" "rx (c_stream c') = rx (c_stream ?c)"
      "rx_half (c_keys c') = rx_half (c_keys ?c)" "c_rx_seq c' = c_rx_seq ?c" "c_options c' = c_options ?c"
      "unat (k_tx_generation (c_keys c')) \<le> unat (k_tx_generation (c_keys ?c)) + 1"
      by (rule codec_send_ok [OF assms(1), of ?c d f]) (use assms(2,5) dir(3,4) [of i] f in simp_all)
    let ?x = "x\<lparr>end_of := (end_of x)(i := emptied c', ?j := fed w (end_of x ?j))\<rparr>"
    have "duplex_step p a x = Some ?x" using c'(1,3) dir(2) [of i] by (simp add: Send)
    moreover have "direction p o' (emptied c') (fed w (end_of x ?j)) (queued y ?j @ [f])"
      using direction_sent [of p o' ?c "end_of x ?j" "queued y ?j" w f c'] dir(1) [of ?j] dir(3) c'(2) by simp
    moreover have "direction p o' (fed w (end_of x ?j)) (emptied c') (queued y i)"
    proof (rule direction_to [OF direction_from])
      show "direction p o' (end_of x ?j) ?c (queued y i)" by (rule dir(1))
    qed (use c' in \<open>simp_all add: fed_def emptied_def\<close>)
    ultimately show thesis
      using got dir(2-4) [of ?j] dir(3,4) [of i] c'(7,8)
      by (intro that [of ?x] simulatesI [where i = i])
        (simp_all add: Send, simp_all add: fed_def emptied_def)
  next
    case (Recv i)
    let ?c = "end_of x i"
    show thesis
    proof (cases "queued y i")
      case Nil
      then have "rx (c_stream ?c) = []" using dir(1) [of i] by (auto simp: direction_def elim: flight_NilE)
      with Nil assms(3) show thesis
        by (intro that [of x]) (auto simp: Recv simulates_def le_SucI)
    next
      case (Cons f q)
      obtain c' where c': "codec_recv p ?c = (Inr f, c')" "direction p (c_options ?c) (end_of x (other i)) c' q"
        "tx_half (c_keys c') = tx_half (c_keys ?c)" "c_tx_seq c' = c_tx_seq ?c" "tx (c_stream c') = tx (c_stream ?c)"
        "c_options c' = c_options ?c" "rx (c_stream ?c) \<noteq> []"
        by (rule codec_recv_ok [of p ?c "end_of x (other i)" f q]) (use dir(1) [of i] dir(3) Cons in simp)
      let ?x = "x\<lparr>end_of := (end_of x)(i := c'), got := (got x)(i := got x i @ [f])\<rparr>"
      have "duplex_step p a x = Some ?x" using c'(1,7) by (simp add: Recv)
      moreover have "direction p o' c' (end_of x (other i)) (queued y (other i))"
        by (rule direction_from [where a = ?c]) (use dir(1) [of "other i"] c' in simp_all)
      moreover have "k_tx_generation (c_keys c') = k_tx_generation (c_keys ?c)"
        using c'(3) by (simp add: tx_half_def)
      ultimately show thesis
        using got dir(2-4) [of "other i"] dir(2-4) [of i] c'(2,5,6) Cons
        by (intro that [of ?x] simulatesI [where i = i]) (simp_all add: Recv)
    qed
  qed
qed

definition duplex_new :: "SessionKeys \<Rightarrow> SessionKeys \<Rightarrow> FrameOptions \<Rightarrow> duplex" where
  "duplex_new ka kb o' = \<lparr>end_of = (\<lambda>i. codec_new \<lparr>rx = [], tx = []\<rparr> (case i of A \<Rightarrow> ka | B \<Rightarrow> kb) o'), got = (\<lambda>_. [])\<rparr>"

definition queues_new :: queues where
  "queues_new = \<lparr>queued = (\<lambda>_. []), taken_by = (\<lambda>_. [])\<rparr>"

lemma direction_new:
  assumes "mirrored ka kb"
  shows "direction p o' (codec_new c ka o') (codec_new \<lparr>rx = [], tx = t\<rparr> kb o') []"
  unfolding direction_def
  by (rule exI [of _ "codec_tx (codec_new c ka o')"])
    (use assms in \<open>simp add: flight.landed codec_new_def codec_tx_def codec_rx_def sync_def\<close>)

lemma simulates_new:
  assumes "mirrored ka kb" "mirrored kb ka" "k_tx_generation ka = 0" "k_tx_generation kb = 0"
  shows "simulates p o' 0 (duplex_new ka kb o') queues_new"
  by (rule simulatesI [where i = A])
    (use assms in \<open>simp_all add: duplex_new_def queues_new_def direction_new other_def\<close>, simp_all add: codec_new_def)

lemma simulates_run:
  assumes "prims_ok p" "options_ok o'" "simulates p o' n x y" "\<forall>a \<in> set acts. act_ok o' a" "n + length acts < u64_max"
  shows "\<exists>x'. duplex_run p acts x = Some x' \<and> simulates p o' (n + length acts) x' (fold queue_step acts y)"
  using assms(3-5)
proof (induction acts arbitrary: n x y)
  case (Cons a acts)
  obtain x1 where "duplex_step p a x = Some x1" "simulates p o' (Suc n) x1 (queue_step a y)"
    by (rule simulates_step [OF assms(1,2) Cons.prems(1), of a]) (use Cons.prems in simp_all)
  with Cons.IH [of "Suc n" x1 "queue_step a y"] Cons.prems show ?case by simp
qed simp

section \<open>Chunks and copying\<close>

lemma chunk_bounds:
  assumes "normalized_chunk_bounds o' = (mn, mx)"
  shows "1 \<le> mn \<and> mn \<le> mx \<and> mx \<le> NORMAL_PAYLOAD_CAPACITY \<and> (options_ok o' \<longrightarrow> mx \<le> capacity o')"
proof (cases "is_stealth o'")
  case True
  show ?thesis
  proof (cases "validate_stealth o'")
    case (Inl e)
    with True assms show ?thesis
      by (auto simp: normalized_chunk_bounds_def stealth_payload_capacity_def unwrap_or_def options_ok_def frame_lens)
  next
    case (Inr u)
    with True assms stealth_capacity [of o'] show ?thesis
      by (auto simp: normalized_chunk_bounds_def unwrap_or_def capacity_def frame_lens Let_def)
  qed
next
  case False
  then show ?thesis
    using assms
    by (auto simp: normalized_chunk_bounds_def Let_def clamp_def capacity_def frame_lens split: prod.splits if_splits)
qed

lemma next_chunk_bounds: "1 \<le> next_chunk_size o' n \<and> (options_ok o' \<longrightarrow> next_chunk_size o' n \<le> capacity o')"
proof -
  obtain mn mx where b: "normalized_chunk_bounds o' = (mn, mx)" by force
  with chunk_bounds [OF b] gen_range_bounds [of mn mx n] show ?thesis
    by (auto simp: next_chunk_size_def)
qed

lemma read_some_facts:
  assumes "1 \<le> n"
  shows "length (read_some short n input) \<le> n" "read_some short n input @ drop (length (read_some short n input)) input = input"
    "read_some short n input = [] \<longleftrightarrow> input = []"
proof -
  define k where "k = gen_range 1 (max 1 (min n (length input))) short"
  have k: "1 \<le> k" "k \<le> max 1 (min n (length input))"
    using gen_range_bounds [of 1 "max 1 (min n (length input))" short] by (simp_all add: k_def)
  have kn: "k \<le> n" using k assms by linarith
  then have r: "read_some short n input = take k input"
    by (simp only: read_some_def take_take min_absorb1 flip: k_def)
  show "length (read_some short n input) \<le> n" "read_some short n input = [] \<longleftrightarrow> input = []"
    using k(1) kn by (auto simp: r)
  show "read_some short n input @ drop (length (read_some short n input)) input = input"
    by (auto simp: r min_def)
qed

abbreviation data_frame :: "bytes \<Rightarrow> Frame" where
  "data_frame c \<equiv> \<lparr>f_ty = Data, f_payload = c\<rparr>"

abbreviation close_frame :: Frame where
  "close_frame \<equiv> \<lparr>f_ty = Close, f_payload = []\<rparr>"

lemma copy_flight:
  assumes "prims_ok p" "\<forall>k. send_draw_ok (cd_send (draws k))"
    and "options_ok (c_options c)" "unat (k_tx_generation (c_keys c)) + length input < u64_max"
  shows "\<exists>c' ws chunks. copy_encrypted p draws k n input c = (Inr (n + of_nat (length input)), c') \<and>
    flight p (c_options c) (codec_tx c) ws (map data_frame chunks @ [close_frame]) (codec_tx c') \<and>
    tx (c_stream c') = tx (c_stream c) @ ws \<and> concat chunks = input \<and>
    (\<forall>x \<in> set chunks. x \<noteq> [] \<and> length x \<le> capacity (c_options c))"
  using assms(3,4)
proof (induction "length input" arbitrary: k n input c rule: less_induct)
  case less
  let ?o = "c_options c" and ?d = "cd_send (draws k)"
  define sz where "sz = next_chunk_size ?o (cd_chunk (draws k))"
  define g where "g = read_some (cd_short (draws k)) sz input"
  have sz: "1 \<le> sz" "sz \<le> capacity ?o" using next_chunk_bounds less.prems(1) by (auto simp: sz_def)
  note g = read_some_facts [OF sz(1), of "cd_short (draws k)" input, folded g_def]
  have gen: "unat (k_tx_generation (c_keys c)) < u64_max" using less.prems(2) by simp
  note run = copy_encrypted.simps [of p draws k n input c, folded sz_def, unfolded Let_def, folded g_def]
  show ?case
  proof (cases "input = []")
    case True
    obtain c' w where c': "codec_send p ?d close_frame c = (Inr (), c')" "delivered p ?o (codec_tx c) w close_frame (codec_tx c')"
      "tx (c_stream c') = tx (c_stream c) @ w"
      by (rule codec_send_ok [OF assms(1) less.prems(1), of ?d close_frame]) (use assms(2) gen in simp_all)
    from flight.flying [OF c'(2) flight.landed [OF refl refl]] have "flight p ?o (codec_tx c) w [close_frame] (codec_tx c')" by simp
    with True g(3) c' run show ?thesis
      by (intro exI [of _ c'] exI [of _ w] exI [of _ "[]"]) (simp add: io_then_def io_bind_def)
  next
    case False
    then have ne: "g \<noteq> []" using g(3) by simp
    have len: "length g + length (drop (length g) input) = length input"
      using g(2) by (metis length_append)
    obtain c1 w where c1: "codec_send p ?d (data_frame g) c = (Inr (), c1)" "delivered p ?o (codec_tx c) w (data_frame g) (codec_tx c1)"
      "tx (c_stream c1) = tx (c_stream c) @ w" "c_options c1 = ?o"
      "unat (k_tx_generation (c_keys c1)) \<le> unat (k_tx_generation (c_keys c)) + 1"
      by (rule codec_send_ok [OF assms(1) less.prems(1), of ?d "data_frame g"]) (use assms(2) gen g(1) sz in simp_all)
    have "\<exists>c' ws chunks. copy_encrypted p draws (Suc k) (n + of_nat (length g)) (drop (length g) input) c1 =
        (Inr (n + of_nat (length g) + of_nat (length (drop (length g) input))), c') \<and>
      flight p (c_options c1) (codec_tx c1) ws (map data_frame chunks @ [close_frame]) (codec_tx c') \<and>
      tx (c_stream c') = tx (c_stream c1) @ ws \<and> concat chunks = drop (length g) input \<and>
      (\<forall>x \<in> set chunks. x \<noteq> [] \<and> length x \<le> capacity (c_options c1))"
      by (rule less.hyps) (use ne len less.prems c1(4,5) in \<open>auto simp: Suc_le_eq simp flip: length_greater_0_conv\<close>)
    then obtain c' ws chunks where
      r: "copy_encrypted p draws (Suc k) (n + of_nat (length g)) (drop (length g) input) c1 =
        (Inr (n + of_nat (length g) + of_nat (length (drop (length g) input))), c')"
      and fl: "flight p ?o (codec_tx c1) ws (map data_frame chunks @ [close_frame]) (codec_tx c')"
      and rest: "tx (c_stream c') = tx (c_stream c1) @ ws" "concat chunks = drop (length g) input"
        "\<forall>x \<in> set chunks. x \<noteq> [] \<and> length x \<le> capacity ?o" unfolding c1(4) by blast
    from flight.flying [OF c1(2) fl]
    have "flight p ?o (codec_tx c) (w @ ws) (map data_frame (g # chunks) @ [close_frame]) (codec_tx c')" by simp
    moreover have "copy_encrypted p draws k n input c = (Inr (n + of_nat (length input)), c')"
      using run ne c1(1) r by (simp add: add.assoc flip: of_nat_add) (use len in simp)
    moreover have "concat (g # chunks) = input" using rest(2) g(2) by simp
    moreover have "\<forall>x \<in> set (g # chunks). x \<noteq> [] \<and> length x \<le> capacity ?o" using rest(3) ne g(1) sz(2) by auto
    ultimately show ?thesis using c1(3) rest(1)
      by (intro exI [of _ c'] exI [of _ "w @ ws"] exI [of _ "g # chunks"]) simp
  qed
qed

text \<open>Receiving a number of frames one after the other.\<close>

fun recv_many :: "prims \<Rightarrow> nat \<Rightarrow> (FrameCodec, Frame list) io" where
  "recv_many p 0 = io_return []"
| "recv_many p (Suc n) = io_bind (codec_recv p) (\<lambda>f. io_bind (recv_many p n) (\<lambda>fs. io_return (f # fs)))"

lemma recv_many_direction:
  "direction p (c_options c) a c q \<Longrightarrow>
     \<exists>c'. recv_many p (length q) c = (Inr q, c') \<and> direction p (c_options c) a c' []"
proof (induction q arbitrary: c)
  case (Cons f q)
  obtain c1 where c1: "codec_recv p c = (Inr f, c1)" "direction p (c_options c) a c1 q" "c_options c1 = c_options c"
    by (rule codec_recv_ok [OF Cons.prems])
  with Cons.IH [of c1] obtain c' where "recv_many p (length q) c1 = (Inr q, c')" "direction p (c_options c) a c' []" by auto
  with c1(1) show ?case by (auto simp: io_bind_def)
qed simp

section \<open>Nonces\<close>

text \<open>Every write, whether it succeeds or not, either leaves the cipher alone or steps the number it used.\<close>

definition cipher_step :: "Tx \<Rightarrow> Tx \<Rightarrow> bool" where
  "cipher_step s s' \<longleftrightarrow> x_keys s' = x_keys s \<and>
     (x_sealed s' = x_sealed s \<and> x_seq s' = x_seq s \<or>
      x_sealed s' = x_sealed s @ [(k_tx_generation (x_keys s), x_seq s)] \<and> x_seq s' = x_seq s + 1)"



definition nonce_inv :: "Tx \<Rightarrow> bool" where
  "nonce_inv s \<longleftrightarrow> distinct (x_sealed s) \<and> unat (x_seq s) \<le> length (x_sealed s) \<and>
     (\<forall>(g, q) \<in> set (x_sealed s). g < k_tx_generation (x_keys s) \<or> g = k_tx_generation (x_keys s) \<and> q < x_seq s)"


lemma backpressure_nonce: "cipher_step s (snd (observe_write_backpressure o' d e s))"
  using backpressure_eq [of o' d e s] by (auto simp: cipher_step_def)


text \<open>Steps that keep the invariant and use the cipher at most a given number of times.\<close>

definition nonce_safe :: "nat \<Rightarrow> (Tx, 'a) io \<Rightarrow> bool" where
  "nonce_safe n m \<longleftrightarrow> (\<forall>s. nonce_inv s \<longrightarrow> length (x_sealed s) + n \<le> u64_max \<longrightarrow>
     nonce_inv (snd (m s)) \<and> length (x_sealed (snd (m s))) \<le> length (x_sealed s) + n)"







lemma nonce_safe_return: "nonce_safe n (io_return x)"
  by (simp add: nonce_safe_def)




section \<open>What a record that is read was\<close>

lemma open_was_sealed:
  assumes "prims_ok p" "open_record p c r = (Inr x, t)"
  shows "aead_encrypt p (k_rx (y_keys r)) (session_nonce (y_seq r) (k_nonce_tag (y_keys r))) x = Some c \<and>
    length c = length x + 16 \<and> t = r\<lparr>y_seq := y_seq r + 1\<rparr>"
  using open_record_InrD [OF assms(2)] assms(1)
  by (auto simp: decrypt_def prims_ok_def split: option.splits)

lemma get_keeps: "get m s = (Inr a, t) \<Longrightarrow> m (y_conn s) = (Inr a, y_conn t) \<and> y_keys t = y_keys s \<and> y_seq t = y_seq s"
  by (auto simp: get_def split: prod.splits)

lemma read_was_written_normal:
  assumes "prims_ok p" "\<not> is_stealth o'" "read_one p o' r = (Inr f, r')" "sync s r"
  shows "\<exists>w s'. rx (y_conn r) = w @ rx (y_conn r') \<and> write_one p o' d f s = (Inr (w_elapsed d), s') \<and> wrote s w s'"
proof -
  define m where "m = length_mask p (k_rx_len_mask (y_keys r)) (y_seq r)"
  from assms(2,3) obtain v t1 c t2 x t3 ty where
    v: "get read_u32 r = (Inr v, t1)" and n: "unat (v XOR m) \<le> 262144"
    and c: "get (read_exact (unat (v XOR m))) t1 = (Inr c, t2)" and x: "open_record p c t2 = (Inr x, t3)" "x \<noteq> []"
    and ty: "frame_type_try_from (hd x) = Inr ty" "renew_rx p ty t3 = (Inr (), r')" "f = \<lparr>f_ty = ty, f_payload = tl x\<rparr>"
    by (auto simp: read_one_def read_normal_one_def Let_def io_then_def NORMAL_MAX_FRAME_def m_def
        elim!: io_bind_result_cases split: if_splits)
  have bytes: "rx (y_conn r) = to_be_u32 v @ c @ rx (y_conn r')" "length c = unat (v XOR m)"
    "y_keys t2 = y_keys r" "y_seq t2 = y_seq r"
    using get_keeps [OF v] get_keeps [OF c] read_u32_InrD [of "y_conn r" v "y_conn t1"]
      read_exact_InrD [of _ "y_conn t1" c "y_conn t2"] open_record_conn [of p c t2] renew_rx_conn [of p ty t3] x(1) ty(2)
    by auto
  have plain: "x = frame_type_u8 (f_ty f) # f_payload f"
    using frame_type_unround [OF ty(1)] ty(3) x(2) by (cases x) auto
  have enc: "aead_encrypt p (k_tx (x_keys s)) (session_nonce (x_seq s) (k_nonce_tag (x_keys s))) x = Some c"
    "length c = length x + 16" "length_mask p (k_tx_len_mask (x_keys s)) (x_seq s) = m"
    using open_was_sealed [OF assms(1) x(1)] bytes(3,4) assms(4) by (simp_all add: sync_def mirrored_def m_def)
  have len: "length (f_payload f) \<le> NORMAL_PAYLOAD_CAPACITY" "length c \<le> 262144"
    using enc(2) bytes(2) n plain by (simp_all add: frame_lens)
  have "of_nat (length c) XOR m = v"
    using bytes(2) by (simp add: xor.assoc)
  then have "\<exists>s'. write_one p o' d f s = (Inr (w_elapsed d), s') \<and> wrote s (to_be_u32 v @ c) s'"
    using assms(2) len enc(1,3) plain
    by (simp add: write_one_def write_normal_one_def write_steps wrote_def NORMAL_MAX_FRAME_def)
  with bytes(1) show ?thesis by auto
qed

lemma read_was_written_stealth:
  assumes "prims_ok p" "is_stealth o'" "read_one p o' r = (Inr f, r')" "sync s r"
  shows "\<exists>w s' d. write_draw_ok d \<and> rx (y_conn r) = w @ rx (y_conn r') \<and>
    write_one p o' d f s = (Inr (w_elapsed d), s') \<and> wrote s w s'"
proof -
  define n where "n = o_stealth_frame_size o'"
  from assms(2,3) obtain c t2 x t3 ty m cap where
    v: "validate_stealth o' = Inr ()"
    and c: "get (read_exact n) r = (Inr c, t2)" and x: "open_record p c t2 = (Inr x, t3)" "3 \<le> length x"
    and m: "m = unat (from_be_u16 (subslice 1 3 x))" "stealth_payload_capacity o' = Inr cap" "m \<le> cap" "3 + m \<le> length x"
    and ty: "frame_type_try_from (hd x) = Inr ty" "renew_rx p ty t3 = (Inr (), r')"
      "f = \<lparr>f_ty = ty, f_payload = take m (drop 3 x)\<rparr>"
    by (auto simp: read_one_def read_stealth_one_def Let_def io_then_def STEALTH_HEADER_LEN_def n_def
        elim!: io_bind_result_cases split: if_splits)
  have n: "stealth_payload_capacity o' = Inr (n - 19)" "19 < n" "m \<le> n - 19"
    using stealth_capacity [OF v] m(2,3) by (simp_all add: n_def)
  have bytes: "rx (y_conn r) = c @ rx (y_conn r')" "length c = n" "y_keys t2 = y_keys r" "y_seq t2 = y_seq r"
    using get_keeps [OF c] read_exact_InrD [of _ "y_conn r" c "y_conn t2"] open_record_conn [of p c t2]
      renew_rx_conn [of p ty t3] x(1) ty(2) by auto
  have enc: "aead_encrypt p (k_tx (x_keys s)) (session_nonce (x_seq s) (k_nonce_tag (x_keys s))) x = Some c"
    "length x = n - 16"
    using open_was_sealed [OF assms(1) x(1)] bytes(2-4) assms(4) by (simp_all add: sync_def mirrored_def)
  have len: "length (f_payload f) = m" using ty(3) m(4) by simp
  have hdr: "subslice 1 3 x = to_be_u16 (of_nat m)"
    using to_from_be_u16 [of "subslice 1 3 x"] x(2) by (simp add: m(1))
  have plain: "x = frame_type_u8 (f_ty f) # to_be_u16 (of_nat m) @ f_payload f @ drop (3 + m) x"
  proof -
    obtain b y where b: "x = b # y" using x(2) by (cases x) auto
    have "y = take 2 y @ take m (drop 2 y) @ drop (m + 2) y"
      by (metis append_take_drop_id drop_drop)
    moreover have "take 2 y = to_be_u16 (of_nat m)" using hdr by (simp add: b subslice_def)
    moreover have "drop (3 + m) x = drop (m + 2) y" by (simp add: b eval_nat_numeral)
    moreover have "f_ty f = ty" "f_payload f = take m (drop 2 y)" "frame_type_u8 ty = b"
      using frame_type_unround [OF ty(1)] ty(3) by (simp_all add: b)
    ultimately show ?thesis by (metis b)
  qed
  define d where "d = \<lparr>w_jitter = (0, 0), w_fill = (\<lambda>k. if k = n - 16 then x else replicate k 0),
     w_secs = (\<lambda>_ _. 0), w_now = 0, w_elapsed = 0, w_after = 0\<rparr>"
  have fill: "write_draw_ok d" "w_fill d (n - 16) = x" using enc(2) by (simp_all add: write_draw_ok_def d_def)
  have "\<exists>s'. write_one p o' d f s = (Inr (w_elapsed d), s') \<and> wrote s c s'"
    using assms(2) n(1,3) bytes(2) enc(1) len fill(2) plain
    by (simp add: write_one_def write_stealth_one_def write_steps wrote_def AEAD_TAG_LEN_def STEALTH_HEADER_LEN_def
        flip: n_def)
  with bytes(1) fill(1) show ?thesis by blast
qed

section \<open>Sends without a key update\<close>

lemma send_no_update:
  assumes "prims_ok p" "options_ok o'" "send_draw_ok d" "\<not> is_stealth o'" "\<not> should_key_update o' (x_seq s) (f_ty f)"
    and "length (f_payload f) \<le> capacity o'" "f_ty f \<noteq> Padding" "f_ty f \<noteq> KeyUpdate"
  shows "\<exists>s'. send_with_optional_padding p o' d f s = (Inr (), s') \<and> x_keys s' = x_keys s \<and>
    x_seq s' = x_seq s + (if should_send_padding o' (x_disabled_until s) (s_gate_now d) (s_gate d) then 2 else 1)"
proof -
  let ?pad = "should_send_padding o' (x_disabled_until s) (s_gate_now d) (s_gate d)"
  have "\<exists>s1. maybe_write_padding p o' d s = (Inr (), s1) \<and> x_keys s1 = x_keys s \<and> x_seq s1 = x_seq s + (if ?pad then 1 else 0)"
  proof (cases ?pad)
    case True
    let ?f = "\<lparr>f_ty = Padding, f_payload = random_padding (s_pad_fill d) (gen_range 1 (o_max_padding o') (s_pad_len d))\<rparr>"
    have "1 \<le> o_max_padding o'" using True by (auto simp: should_send_padding_def split: if_splits)
    then have "length (f_payload ?f) \<le> capacity o'"
      using assms(2-4) gen_range_bounds [of 1 "o_max_padding o'" "s_pad_len d"]
      by (simp add: random_padding_def send_draw_ok_def capacity_def options_ok_def)
    then obtain w s1 where w: "write_one p o' (s_padding d) ?f s = (Inr (w_elapsed (s_padding d)), s1)" "wrote s w s1"
      by (rule write_read [OF assms(1,2), of "s_padding d" ?f s, rotated]) (use assms(3) in \<open>simp_all add: send_draw_ok_def\<close>)
    with True backpressure_eq [of o' "s_padding d" "w_elapsed (s_padding d)" s1] show ?thesis
      by (auto simp: maybe_write_padding_def io_bind_def Let_def wrote_def)
  qed (simp add: maybe_write_padding_def)
  then obtain s1 where s1: "maybe_write_padding p o' d s = (Inr (), s1)" "x_keys s1 = x_keys s"
    "x_seq s1 = x_seq s + (if ?pad then 1 else 0)" by blast
  obtain w s2 where w: "write_one p o' (s_frame d) f s1 = (Inr (w_elapsed (s_frame d)), s2)" "wrote s1 w s2"
    by (rule write_read [OF assms(1,2), of "s_frame d" f s1]) (use assms(3,6) in \<open>simp_all add: send_draw_ok_def\<close>)
  with s1 assms(4,5,7,8) backpressure_eq [of o' "s_frame d" "w_elapsed (s_frame d)" s2] show ?thesis
    by (auto simp: send_with_optional_padding_def write_key_update_def io_then_def io_bind_def wrote_def)
qed

section \<open>A small instance\<close>

definition demo_keys :: "string \<Rightarrow> SessionKeys" where
  "demo_keys role = derive_keys demo_prims [] [] [] (ascii role)"

definition demo_write :: write_draw where
  "demo_write = \<lparr>w_jitter = (0, 0), w_fill = (\<lambda>n. replicate n 0), w_secs = (\<lambda>_ _. 0), w_now = 0, w_elapsed = 0, w_after = 0\<rparr>"

definition demo_send :: "bool \<Rightarrow> send_draw" where
  "demo_send pad = \<lparr>s_update = demo_write, s_padding = demo_write, s_frame = demo_write, s_gate_now = 0,
     s_gate = pad, s_pad_len = 3, s_pad_fill = (\<lambda>n. replicate n 0)\<rparr>"

lemma demo_send_ok: "send_draw_ok (demo_send b)"
  by (simp add: send_draw_ok_def write_draw_ok_def demo_send_def demo_write_def)

lemma demo_keys_ok:
  "mirrored (demo_keys ''client'') (demo_keys ''server'')" "mirrored (demo_keys ''server'') (demo_keys ''client'')"
  "k_tx_generation (demo_keys r) = 0"
  by (simp_all add: demo_keys_def derive_keys_mirrored) (simp add: derive_keys_def Let_def)

lemma default_options: "options_ok frame_options_default" "\<not> is_stealth frame_options_default"
  "capacity frame_options_default = 262127"
  by (simp_all add: options_ok_def is_stealth_def profile_is_stealth_def frame_options_default_def capacity_def frame_lens)

section \<open>Properties\<close>

text \<open>
  C3: two codecs with mirrored keys are a pair of first-in first-out queues. Whatever the
  interleaving of sends and receives on the two sides, whatever padding is drawn and however often
  the keys are updated, no step fails, and each side has received exactly what the two queues
  would have handed to it.
\<close>

theorem duplex_refines_queues:
  assumes "prims_ok p" "options_ok o'" "mirrored ka kb" "mirrored kb ka" "k_tx_generation ka = 0" "k_tx_generation kb = 0"
    and "\<forall>a \<in> set acts. act_ok o' a" "length acts < u64_max"
  shows "\<exists>x. duplex_run p acts (duplex_new ka kb o') = Some x \<and> got x = taken_by (fold queue_step acts queues_new)"
  using simulates_run [OF assms(1,2) simulates_new [OF assms(3-6)] assms(7)] assms(8) by (auto simp: simulates_def)

theorem duplex_refines_queues_witness:
  "\<exists>x. duplex_run demo_prims
      [Send A (demo_send True) (data_frame [1, 2]), Send B (demo_send False) (data_frame [3]),
       Recv B, Recv A, Recv A, Send A (demo_send False) close_frame, Recv B]
      (duplex_new (demo_keys ''client'') (demo_keys ''server'') frame_options_default) = Some x \<and>
    got x A = [data_frame [3]] \<and> got x B = [data_frame [1, 2], close_frame]"
  using duplex_refines_queues [OF demo_prims_ok default_options(1) demo_keys_ok(1,2,3,3),
      of "[Send A (demo_send True) (data_frame [1, 2]), Send B (demo_send False) (data_frame [3]),
       Recv B, Recv A, Recv A, Send A (demo_send False) close_frame, Recv B]"]
  by (auto simp: act_ok_def demo_send_ok default_options(3) u64_max_def queues_new_def other_def)

text \<open>
  The copy loop carries its whole input. It returns, for every size of the reads and of the
  chunks, the number of bytes of its input (as a \<^verbatim>\<open>u64\<close>), and the codec at the other end receives data frames,
  none empty or above what a frame holds, whose concatenation is the input, then a close frame, and
  nothing more.
\<close>

lemma copy_encrypted_complete:
  assumes "prims_ok p" "options_ok o'" "mirrored ka kb" "k_tx_generation ka = 0"
    and "\<forall>k. send_draw_ok (cd_send (draws k))" "length input < u64_max"
  shows "\<exists>a b chunks. copy_encrypted p draws 0 0 input (codec_new \<lparr>rx = [], tx = []\<rparr> ka o') = (Inr (of_nat (length input)), a) \<and>
    recv_many p (Suc (length chunks)) (codec_new \<lparr>rx = tx (c_stream a), tx = []\<rparr> kb o') =
      (Inr (map data_frame chunks @ [close_frame]), b) \<and>
    rx (c_stream b) = [] \<and> concat chunks = input \<and> (\<forall>c \<in> set chunks. c \<noteq> [] \<and> length c \<le> capacity o')"
proof -
  let ?a = "codec_new \<lparr>rx = [], tx = []\<rparr> ka o'"
  have o': "c_options ?a = o'" "k_tx_generation (c_keys ?a) = 0" "tx (c_stream ?a) = []"
    using assms(4) by (simp_all add: codec_new_def)
  obtain a ws chunks where a: "copy_encrypted p draws 0 0 input ?a = (Inr (of_nat (length input)), a)"
    and fl: "flight p o' (codec_tx ?a) ws (map data_frame chunks @ [close_frame]) (codec_tx a)"
    and ws: "tx (c_stream a) = ws" "concat chunks = input" "\<forall>c \<in> set chunks. c \<noteq> [] \<and> length c \<le> capacity o'"
    using copy_flight [OF assms(1,5), of ?a input 0 0] assms(2,6) o' by auto
  let ?b = "codec_new \<lparr>rx = ws, tx = []\<rparr> kb o'"
  have "sync (codec_tx ?a) (codec_rx ?b)"
    using assms(3) by (simp add: sync_def codec_tx_def codec_rx_def codec_new_def)
  with fl have "direction p (c_options ?b) a ?b (map data_frame chunks @ [close_frame])"
    by (auto simp: direction_def codec_new_def)
  from recv_many_direction [OF this] obtain b where
    "recv_many p (Suc (length chunks)) ?b = (Inr (map data_frame chunks @ [close_frame]), b)"
    "direction p (c_options ?b) a b []" by auto
  moreover from this(2) have "rx (c_stream b) = []" by (auto simp: direction_def elim: flight_NilE)
  ultimately show ?thesis using a ws by blast
qed

lemma copy_encrypted_complete_witness:
  "\<exists>a b chunks. copy_encrypted demo_prims (\<lambda>k. \<lparr>cd_chunk = k, cd_short = 1, cd_send = demo_send True\<rparr>) 0 0 [7, 8, 9]
      (codec_new \<lparr>rx = [], tx = []\<rparr> (demo_keys ''client'') frame_options_default) = (Inr 3, a) \<and>
    recv_many demo_prims (Suc (length chunks))
      (codec_new \<lparr>rx = tx (c_stream a), tx = []\<rparr> (demo_keys ''server'') frame_options_default) =
      (Inr (map data_frame chunks @ [close_frame]), b) \<and> concat chunks = [7, 8, 9]"
proof -
  have "\<forall>k. send_draw_ok (cd_send ((\<lambda>k. \<lparr>cd_chunk = k, cd_short = 1, cd_send = demo_send True\<rparr>) k))"
    by (simp add: demo_send_ok)
  from copy_encrypted_complete [OF demo_prims_ok default_options(1) demo_keys_ok(1,3) this, of "[7, 8, 9]"]
  show ?thesis by (simp add: u64_max_def) blast
qed



text \<open>
  C30: the reader takes only what a writer wrote. If it returns a frame, the bytes it consumed are
  exactly the record that a writer in the mirrored state, at the same sequence number, writes for
  that frame.
\<close>

theorem record_read_was_written:
  assumes "prims_ok p" "read_one p o' r = (Inr f, r')" "mirrored (x_keys s) (y_keys r)" "x_seq s = y_seq r"
  shows "\<exists>w s' d. write_draw_ok d \<and> rx (y_conn r) = w @ rx (y_conn r') \<and>
    write_one p o' d f s = (Inr (w_elapsed d), s') \<and> tx (x_conn s') = tx (x_conn s) @ w"
proof (cases "is_stealth o'")
  case True
  with read_was_written_stealth [OF assms(1) True assms(2), of s] assms(3,4) show ?thesis
    unfolding sync_def wrote_def by metis
next
  case False
  have "write_draw_ok demo_write" by (simp add: write_draw_ok_def demo_write_def)
  with read_was_written_normal [OF assms(1) False assms(2), of s demo_write] assms(3,4) show ?thesis
    unfolding sync_def wrote_def by metis
qed

theorem record_read_was_written_witness:
  "\<exists>bs r' w s' d. read_one demo_prims frame_options_default
      (codec_rx (codec_new \<lparr>rx = bs, tx = []\<rparr> (demo_keys ''server'') frame_options_default)) = (Inr (data_frame [1, 2]), r') \<and>
    bs = w @ rx (y_conn r') \<and>
    write_one demo_prims frame_options_default d (data_frame [1, 2])
      (codec_tx (codec_new \<lparr>rx = [], tx = []\<rparr> (demo_keys ''client'') frame_options_default)) = (Inr (w_elapsed d), s') \<and>
    tx (x_conn s') = w"
proof -
  let ?o = frame_options_default
  let ?s = "codec_tx (codec_new \<lparr>rx = [], tx = []\<rparr> (demo_keys ''client'') ?o)"
  obtain bs where bs: "record_read demo_prims ?o ?s bs (data_frame [1, 2])"
    by (rule write_read [OF demo_prims_ok default_options(1), of demo_write "data_frame [1, 2]" ?s])
      (simp_all add: demo_write_def write_draw_ok_def default_options(3))
  let ?r = "codec_rx (codec_new \<lparr>rx = bs, tx = []\<rparr> (demo_keys ''server'') ?o)"
  have m: "mirrored (x_keys ?s) (y_keys ?r)" "x_seq ?s = y_seq ?r" "rx (y_conn ?r) = bs" "tx (x_conn ?s) = []"
    by (simp_all add: codec_tx_def codec_rx_def codec_new_def demo_keys_ok)
  then have "\<exists>r'. read_one demo_prims ?o ?r = (Inr (data_frame [1, 2]), r')"
    using bs [unfolded record_read_def, rule_format, of ?r "[]"] by (simp add: sync_def io_then_def io_bind_def renew_rx_def)
  then obtain r' where r': "read_one demo_prims ?o ?r = (Inr (data_frame [1, 2]), r')" by blast
  from record_read_was_written [OF demo_prims_ok r' m(1,2)] obtain w s' d where
    "rx (y_conn ?r) = w @ rx (y_conn r')" "write_one demo_prims ?o d (data_frame [1, 2]) ?s = (Inr (w_elapsed d), s')"
    "tx (x_conn s') = tx (x_conn ?s) @ w" by blast
  with r' show ?thesis unfolding m(3,4) append_Nil by blast
qed

text \<open>
  C31: chunk sizes fit. For all options, the bounds are in order, at least one byte and at most what
  a plain frame holds, and in a valid stealth configuration exactly what a stealth frame holds; the chunk size drawn
  lies between them.
\<close>

theorem chunk_bounds_fit:
  "case normalized_chunk_bounds o' of (mn, mx) \<Rightarrow>
     1 \<le> mn \<and> mn \<le> mx \<and> mx \<le> NORMAL_PAYLOAD_CAPACITY \<and>
     (if is_stealth o' \<and> validate_stealth o' = Inr () then mn = o_stealth_frame_size o' - 19 else True) \<and>
     mn \<le> next_chunk_size o' draw \<and> next_chunk_size o' draw \<le> mx"
proof -
  obtain mn mx where b: "normalized_chunk_bounds o' = (mn, mx)" by force
  have "mn = o_stealth_frame_size o' - 19" if "is_stealth o'" "validate_stealth o' = Inr ()"
    using that b stealth_capacity [of o'] by (auto simp: normalized_chunk_bounds_def unwrap_or_def Let_def)
  with chunk_bounds [OF b] gen_range_bounds [of mn mx draw] b show ?thesis
    by (auto simp: next_chunk_size_def)
qed

text \<open>
  C32: a padding frame can step over a key update. With a period of \<open>n\<close>, a writer that has written
  \<open>n - 1\<close> frames and draws padding before the next one is past \<open>n\<close> afterwards: neither that send nor the
  next one updates the key, which has then encrypted more than \<open>n\<close> frames.
\<close>

theorem padding_steps_over_key_update:
  assumes "prims_ok p" "options_ok o'" "\<not> is_stealth o'" "send_draw_ok d" "send_draw_ok d'"
    and "unat (x_seq s) + 1 = unat (o_key_update_frames o')" "1 < unat (o_key_update_frames o')"
      "unat (o_key_update_frames o') + 3 \<le> u64_max"
    and "should_send_padding o' (x_disabled_until s) (s_gate_now d) (s_gate d)"
    and "f_ty f = Data" "length (f_payload f) \<le> NORMAL_PAYLOAD_CAPACITY"
    and "f_ty f' = Data" "length (f_payload f') \<le> NORMAL_PAYLOAD_CAPACITY"
  shows "\<exists>s' s''. send_with_optional_padding p o' d f s = (Inr (), s') \<and>
    send_with_optional_padding p o' d' f' s' = (Inr (), s'') \<and>
    x_keys s'' = x_keys s \<and> unat (x_seq s'') > unat (o_key_update_frames o') + 1"
proof -
  let ?n = "o_key_update_frames o'"
  have cap: "capacity o' = NORMAL_PAYLOAD_CAPACITY" using assms(3) by (simp add: capacity_def)
  have "unat (x_seq s) mod unat ?n \<noteq> 0" using assms(6,7) by (metis add_diff_cancel_right' less_add_one mod_less
        zero_less_diff neq0_conv)
  then have no: "\<not> should_key_update o' (x_seq s) (f_ty f)"
    by (auto simp: should_key_update_def unat_mod simp flip: unat_eq_0)
  obtain s' where s': "send_with_optional_padding p o' d f s = (Inr (), s')" "x_keys s' = x_keys s"
    "x_seq s' = x_seq s + 2"
    using send_no_update [OF assms(1,2,4,3) no] assms(9-11) cap by auto
  have u: "unat (x_seq s') = unat ?n + 1"
    using assms(6,8) by (simp add: s'(3) unat_word_ariths u64_max_def)
  then have "unat (x_seq s') mod unat ?n \<noteq> 0" using assms(7) by (simp add: mod_Suc)
  then have no': "\<not> should_key_update o' (x_seq s') (f_ty f')"
    by (auto simp: should_key_update_def unat_mod simp flip: unat_eq_0)
  obtain s'' where s'': "send_with_optional_padding p o' d' f' s' = (Inr (), s'')" "x_keys s'' = x_keys s'"
    "x_seq s'' = x_seq s' + 1 \<or> x_seq s'' = x_seq s' + 2"
    using send_no_update [OF assms(1,2,5,3) no'] assms(12,13) cap by (auto split: if_splits)
  have "unat (x_seq s'') > unat ?n + 1"
    using s''(3) u assms(8) by (auto simp: unat_word_ariths u64_max_def)
  with s' s'' show ?thesis by auto
qed

theorem padding_steps_over_key_update_witness:
  "\<exists>s' s''. send_with_optional_padding demo_prims frame_options_default (demo_send True) (data_frame [1])
      ((codec_tx (codec_new \<lparr>rx = [], tx = []\<rparr> (demo_keys ''client'') frame_options_default))\<lparr>x_seq := 16383\<rparr>) = (Inr (), s') \<and>
    send_with_optional_padding demo_prims frame_options_default (demo_send False) (data_frame [2]) s' = (Inr (), s'') \<and>
    x_keys s'' = demo_keys ''client'' \<and> unat (x_seq s'') > 16385"
proof -
  let ?s = "(codec_tx (codec_new \<lparr>rx = [], tx = []\<rparr> (demo_keys ''client'') frame_options_default))\<lparr>x_seq := 16383\<rparr>"
  have "should_send_padding frame_options_default (x_disabled_until ?s) (s_gate_now (demo_send True)) (s_gate (demo_send True))"
    using default_options(2)
    by (simp add: should_send_padding_def codec_tx_def codec_new_def demo_send_def) (simp add: frame_options_default_def)
  moreover have "o_key_update_frames frame_options_default = 16384" by (simp add: frame_options_default_def)
  ultimately show ?thesis
    using padding_steps_over_key_update [OF demo_prims_ok default_options(1,2) demo_send_ok [of True] demo_send_ok [of False],
        of ?s "data_frame [1]" "data_frame [2]"]
    by (simp add: u64_max_def NORMAL_PAYLOAD_CAPACITY_def frame_lens)
      (simp add: codec_tx_def codec_new_def)
qed

end
