(* ===== verification/Esp_Transport.thy ===== *)
theory Esp_Transport
  imports Esp_Framing_Props
begin

text \<open>
  The pumps of \<^verbatim>\<open>transport/mod.rs\<close>: the plain and the stealth upload, the download, the delays of the
  stealth shaper and the metered copy between two streams. What an iteration of a loop takes from
  its surroundings (which branch of a \<^verbatim>\<open>select!\<close> is ready, how much a read returns, random draws) is an
  element of a list, so a loop is a recursion on that list and \<open>None\<close> means that it still runs.
  The tokens of \<^verbatim>\<open>StealthPaddingBudget\<close> are floating-point numbers; whether a positive budget has
  enough of them is a draw.
\<close>

section \<open>Definitions\<close>

definition STEALTH_WARMUP_MIN_FRAMES :: nat where
  "STEALTH_WARMUP_MIN_FRAMES = 2"

definition STEALTH_WARMUP_MAX_FRAMES :: nat where
  "STEALTH_WARMUP_MAX_FRAMES = 5"

definition STEALTH_IDLE_DECAY_FRAMES :: nat where
  "STEALTH_IDLE_DECAY_FRAMES = 8"

definition sat_add_u64 :: "nat \<Rightarrow> nat \<Rightarrow> nat" where
  "sat_add_u64 a b = min (a + b) u64_max"

definition sat_mul_u64 :: "nat \<Rightarrow> nat \<Rightarrow> nat" where
  "sat_mul_u64 a b = min (a * b) u64_max"

text \<open>The figures a pump logs when it ends.\<close>

record PumpStats =
  data_frames :: nat
  padding_frames :: nat
  pumped_bytes :: nat

definition stats_new :: PumpStats where
  "stats_new = \<lparr>data_frames = 0, padding_frames = 0, pumped_bytes = 0\<rparr>"

definition count_data :: "nat \<Rightarrow> PumpStats \<Rightarrow> PumpStats" where
  "count_data n st = st\<lparr>data_frames := sat_add_u64 (data_frames st) 1, pumped_bytes := sat_add_u64 (pumped_bytes st) n\<rparr>"

definition count_padding :: "PumpStats \<Rightarrow> PumpStats" where
  "count_padding st = st\<lparr>padding_frames := sat_add_u64 (padding_frames st) 1\<rparr>"

definition throughput_bps :: "u64 \<Rightarrow> nat \<Rightarrow> u64" where
  "throughput_bps n nanos =
     (if nanos = 0 then 0
      else of_nat (min (min (unat n * 8) (2 ^ 128 - 1) * 1000000000) (2 ^ 128 - 1) div nanos))"

subsection \<open>The plain upload\<close>

text \<open>\<open>up_beat\<close>: the heartbeat's timer is ready before the read.\<close>

record up_draw =
  up_beat :: bool
  up_chunk :: nat
  up_short :: nat
  up_send :: send_draw

abbreviation padding_frame :: Frame where
  "padding_frame \<equiv> \<lparr>f_ty = Padding, f_payload = []\<rparr>"

fun upload_loop ::
  "prims \<Rightarrow> up_draw list \<Rightarrow> bytes \<Rightarrow> PumpStats \<Rightarrow> FrameWriter \<Rightarrow> (PumpStats result \<times> FrameWriter) option"
where
  "upload_loop p [] input st w = None"
| "upload_loop p (d # ds) input st w =
     (let chunk_size = next_chunk_size (fw_options w) (up_chunk d) in
      if o_heartbeat_secs (fw_options w) \<noteq> 0 \<and> up_beat d then
        (case writer_send p (up_send d) padding_frame w of
           (Inl e, w) \<Rightarrow> Some (Inl e, w)
         | (Inr _, w) \<Rightarrow> upload_loop p ds input (count_padding st) w)
      else
        let chunk = read_some (up_short d) chunk_size input in
        if chunk = [] then
          (case writer_send p (up_send d) \<lparr>f_ty = Close, f_payload = []\<rparr> w of
             (Inl e, w) \<Rightarrow> Some (Inl e, w)
           | (Inr _, w) \<Rightarrow> Some (Inr st, w))
        else
          (case writer_send p (up_send d) \<lparr>f_ty = Data, f_payload = chunk\<rparr> w of
             (Inl e, w) \<Rightarrow> Some (Inl e, w)
           | (Inr _, w) \<Rightarrow> upload_loop p ds (drop (length chunk) input) (count_data (length chunk) st) w))"

subsection \<open>The stealth upload\<close>

text \<open>The range of the shaped delay: in web mode it widens as idle frames accumulate.\<close>

definition shaped_range :: "FrameOptions \<Rightarrow> nat \<Rightarrow> nat \<times> nat" where
  "shaped_range o' idle_frames =
     (let min_delay = max (o_stealth_min_delay_ms o') 1;
          max_delay = max (o_stealth_max_delay_ms o') min_delay;
          idle_max = max (o_stealth_idle_max_delay_ms o') max_delay;
          n = idle_frames div STEALTH_IDLE_DECAY_FRAMES;
          multiplier = (if n = 0 then 1 else if n = 1 then 2 else if n = 2 then 5 else 10);
          (lower, upper) =
            (case o_stealth_shaper_mode o' of
               SWeb \<Rightarrow> (min (sat_mul_u64 min_delay multiplier) idle_max, min (sat_mul_u64 max_delay multiplier) idle_max)
             | SStream \<Rightarrow> (min_delay, max_delay)
             | SCustom \<Rightarrow> (min_delay, max_delay))
      in (lower, max upper lower))"

definition stealth_shaped_tick_delay :: "FrameOptions \<Rightarrow> nat \<Rightarrow> nat \<Rightarrow> nat \<Rightarrow> nat" where
  "stealth_shaped_tick_delay o' idle_frames draw sampled =
     (let (lower, upper) = shaped_range o' idle_frames in
      if lower = upper then lower
      else
        (case o_stealth_idle_noise o' of
           NoiseOff \<Rightarrow> (lower + upper) mod 2 ^ 64 div 2
         | Uniform \<Rightarrow> gen_range lower upper draw
         | Poisson \<Rightarrow> clamp sampled lower upper))"

definition stealth_tick_delay :: "FrameOptions \<Rightarrow> nat \<Rightarrow> nat \<Rightarrow> nat \<Rightarrow> nat" where
  "stealth_tick_delay o' idle_frames draw sampled =
     (if o_stealth_shaper_enabled o' then stealth_shaped_tick_delay o' idle_frames draw sampled
      else
        let base = max (o_stealth_tick_ms o') 1;
            n = idle_frames div STEALTH_IDLE_DECAY_FRAMES;
            multiplier = (if n = 0 then 1 else if n = 1 then 4 else if n = 2 then 10 else 20);
            target = min (sat_mul_u64 base multiplier) 1000;
            lower = max (sat_mul_u64 target 3 div 4) 1;
            upper = max (sat_mul_u64 target 5 div 4) lower
        in gen_range lower upper draw)"

definition stealth_pre_write_delay :: "FrameOptions \<Rightarrow> nat \<Rightarrow> nat" where
  "stealth_pre_write_delay o' draw =
     (let base = (if o_stealth_shaper_enabled o' then o_stealth_min_delay_ms o' else o_stealth_tick_ms o');
          upper = clamp (base div 5) 1 10
      in gen_range 0 upper draw)"

definition padding_allowed :: "FrameOptions \<Rightarrow> bool \<Rightarrow> bool" where
  "padding_allowed o' tokens =
     (if \<not> o_stealth_shaper_enabled o' then True
      else if o_stealth_padding_budget_bps o' = 0 then False
      else tokens)"

record warm_draw =
  wd_tokens :: bool
  wd_send :: send_draw

text \<open>The warm-up: one element per round of the \<^verbatim>\<open>for\<close> loop.\<close>

fun warmup :: "prims \<Rightarrow> FrameOptions \<Rightarrow> warm_draw list \<Rightarrow> nat \<Rightarrow> PumpStats \<Rightarrow> FrameWriter \<Rightarrow> (nat \<times> PumpStats) result \<times> FrameWriter" where
  "warmup p o' [] idle_frames st w = (Inr (idle_frames, st), w)"
| "warmup p o' (d # ds) idle_frames st w =
     (if \<not> padding_allowed o' (wd_tokens d) then warmup p o' ds (sat_add_u64 idle_frames 1) st w
      else
        (case writer_send p (wd_send d) padding_frame w of
           (Inl e, w) \<Rightarrow> (Inl e, w)
         | (Inr _, w) \<Rightarrow> warmup p o' ds (idle_frames + 1) (count_padding st) w))"

text \<open>How many rounds there are is drawn first.\<close>

definition warm_rounds :: "nat \<times> (nat \<Rightarrow> warm_draw) \<Rightarrow> warm_draw list" where
  "warm_rounds warm =
     map (snd warm) [0..<gen_range STEALTH_WARMUP_MIN_FRAMES STEALTH_WARMUP_MAX_FRAMES (fst warm)]"

record StealthPump =
  sp_pending :: bytes
  sp_app_closed :: bool
  sp_idle_frames :: nat
  sp_stats :: PumpStats

text \<open>
  One round of the \<^verbatim>\<open>select!\<close> loop: the read is ready with some bytes or with none at the end of the
  input, or the tick is. A read is not polled once the input has ended or the queue is full.
\<close>

datatype stealth_event = AppRead nat | Tick bool send_draw

fun stealth_loop ::
  "prims \<Rightarrow> nat \<Rightarrow> stealth_event list \<Rightarrow> bytes \<Rightarrow> StealthPump \<Rightarrow> FrameWriter \<Rightarrow> (PumpStats result \<times> FrameWriter) option"
where
  "stealth_loop p cap [] input s w = None"
| "stealth_loop p cap (AppRead short # es) input s w =
     (if sp_app_closed s \<or> \<not> length (sp_pending s) < cap * 8 then stealth_loop p cap es input s w
      else
        let chunk = read_some short cap input in
        if chunk = [] then stealth_loop p cap es input (s\<lparr>sp_app_closed := True\<rparr>) w
        else stealth_loop p cap es (drop (length chunk) input) (s\<lparr>sp_pending := sp_pending s @ chunk\<rparr>) w)"
| "stealth_loop p cap (Tick tokens d # es) input s w =
     (if sp_pending s \<noteq> [] then
        let len = min (length (sp_pending s)) cap;
            payload = take len (sp_pending s)
        in (case writer_send p d \<lparr>f_ty = Data, f_payload = payload\<rparr> w of
              (Inl e, w) \<Rightarrow> Some (Inl e, w)
            | (Inr _, w) \<Rightarrow>
                stealth_loop p cap es input
                  (s\<lparr>sp_pending := drop len (sp_pending s), sp_idle_frames := 0,
                     sp_stats := count_data len (sp_stats s)\<rparr>) w)
      else if sp_app_closed s then
        (case writer_send p d \<lparr>f_ty = Close, f_payload = []\<rparr> w of
           (Inl e, w) \<Rightarrow> Some (Inl e, w)
         | (Inr _, w) \<Rightarrow> Some (Inr (sp_stats s), w))
      else if padding_allowed (fw_options w) tokens then
        (case writer_send p d padding_frame w of
           (Inl e, w) \<Rightarrow> Some (Inl e, w)
         | (Inr _, w) \<Rightarrow>
             stealth_loop p cap es input
               (s\<lparr>sp_idle_frames := sat_add_u64 (sp_idle_frames s) 1, sp_stats := count_padding (sp_stats s)\<rparr>) w)
      else stealth_loop p cap es input (s\<lparr>sp_idle_frames := sat_add_u64 (sp_idle_frames s) 1\<rparr>) w)"

definition upload_stealth_frames ::
  "prims \<Rightarrow> FrameOptions \<Rightarrow> nat \<times> (nat \<Rightarrow> warm_draw) \<Rightarrow> stealth_event list \<Rightarrow> bytes \<Rightarrow> SessionKeys \<Rightarrow> conn
    \<Rightarrow> (PumpStats result \<times> FrameWriter) option"
where
  "upload_stealth_frames p o' warm es input keys net =
     (let w = writer_new net keys o' in
      case stealth_payload_capacity o' of
        Inl e \<Rightarrow> Some (Inl e, w)
      | Inr cap \<Rightarrow>
          (case warmup p o' (warm_rounds warm) 0 stats_new w of
             (Inl e, w) \<Rightarrow> Some (Inl e, w)
           | (Inr (idle_frames, st), w) \<Rightarrow>
               stealth_loop p cap es input
                 \<lparr>sp_pending = [], sp_app_closed = False, sp_idle_frames = idle_frames, sp_stats = st\<rparr> w))"

definition upload_frames ::
  "prims \<Rightarrow> FrameOptions \<Rightarrow> up_draw list \<Rightarrow> nat \<times> (nat \<Rightarrow> warm_draw) \<Rightarrow> stealth_event list \<Rightarrow> bytes \<Rightarrow> SessionKeys \<Rightarrow> conn
    \<Rightarrow> (PumpStats result \<times> FrameWriter) option"
where
  "upload_frames p o' ds warm es input keys net =
     (if is_stealth o' then upload_stealth_frames p o' warm es input keys net
      else upload_loop p ds input stats_new (writer_new net keys o'))"

subsection \<open>The download\<close>

text \<open>The application's half: the bytes written to it and whether it was shut down.\<close>

record AppSink =
  app_bytes :: bytes
  app_shut :: bool

lemma recv_shorter: "recv p o' s = (Inr f, t) \<Longrightarrow> length (rx (y_conn t)) < length (rx (y_conn s))"
proof (induction p o' s rule: recv.induct)
  case (1 p o' s)
  obtain r u where ru: "read_one p o' s = (r, u)" by force
  show ?case
  proof (cases r)
    case (Inl e)
    with ru 1(2) show ?thesis by (simp add: recv.simps [of p o' s])
  next
    case (Inr g)
    with ru have less: "length (rx (y_conn u)) < length (rx (y_conn s))" by (auto dest: read_one_shorter)
    with ru Inr 1 show ?thesis
      by (auto simp: recv.simps [of p o' s] split: if_splits dest: less_trans)
  qed
qed

function download_loop ::
  "prims \<Rightarrow> PumpStats \<Rightarrow> FrameReader \<Rightarrow> AppSink \<Rightarrow> PumpStats result \<times> FrameReader \<times> AppSink"
where
  "download_loop p st r app =
     (case reader_recv p r of
        (Inl e, r') \<Rightarrow> (Inl e, r', app)
      | (Inr f, r') \<Rightarrow>
          if f_ty f = Data then
            download_loop p (count_data (length (f_payload f)) st) r' (app\<lparr>app_bytes := app_bytes app @ f_payload f\<rparr>)
          else if f_ty f = Close then (Inr st, r', app\<lparr>app_shut := True\<rparr>)
          else download_loop p st r' app)"
  by pat_completeness auto
termination
  by (relation "measure (\<lambda>(_, _, r, _). length (rx (y_conn (fr_rx r))))")
    (auto simp: reader_recv_def split: prod.splits dest!: recv_shorter [OF sym] recv_shorter)

declare download_loop.simps [simp del]

definition download_frames :: "prims \<Rightarrow> FrameOptions \<Rightarrow> SessionKeys \<Rightarrow> conn \<Rightarrow> PumpStats result \<times> FrameReader \<times> AppSink" where
  "download_frames p o' keys net =
     download_loop p stats_new (reader_new net keys o') \<lparr>app_bytes = [], app_shut = False\<rparr>"

text \<open>
  \<^verbatim>\<open>spawn_frame_transport\<close>: the application's stream is pumped into the network and the network into it,
  each by a task of its own, on copies of the session's keys.
\<close>

definition spawn_frame_transport ::
  "prims \<Rightarrow> FrameOptions \<Rightarrow> up_draw list \<Rightarrow> nat \<times> (nat \<Rightarrow> warm_draw) \<Rightarrow> stealth_event list \<Rightarrow> SessionKeys \<Rightarrow> bytes \<Rightarrow> bytes
    \<Rightarrow> (PumpStats result \<times> FrameWriter) option \<times> (PumpStats result \<times> FrameReader \<times> AppSink)"
where
  "spawn_frame_transport p o' ds warm es keys app_in net_in =
     (upload_frames p o' ds warm es app_in keys \<lparr>rx = [], tx = []\<rparr>,
      download_frames p o' keys \<lparr>rx = net_in, tx = []\<rparr>)"

subsection \<open>The metered copy\<close>

text \<open>
  One round of the loop of \<^verbatim>\<open>metered_idle_copy_bidirectional\<close> is an event: the side whose read completed
  first, what it gave, and after how many bytes the following write fails, if it does. The meter is the parameter \<open>account\<close>.
  \<open>r_read\<close> and \<open>r_written\<close> are the bytes read from and written to each side.
\<close>

definition COPY_BUFFER_SIZE :: nat where
  "COPY_BUFFER_SIZE = 256 * 1024"

datatype side = SideA | SideB

definition opposite :: "side \<Rightarrow> side" where
  "opposite x = (case x of SideA \<Rightarrow> SideB | SideB \<Rightarrow> SideA)"

datatype read_outcome = ReadData bytes | ReadEof | ReadIdle | ReadFailed

record copy_event =
  ce_side :: side
  ce_read :: read_outcome
  ce_write_fails :: "nat option"

definition copy_event_ok :: "copy_event \<Rightarrow> bool" where
  "copy_event_ok e \<longleftrightarrow>
     (case ce_read e of ReadData bs \<Rightarrow> bs \<noteq> [] \<and> length bs \<le> COPY_BUFFER_SIZE | _ \<Rightarrow> True)"

record 'm Relay =
  r_done :: "side \<Rightarrow> bool"
  r_total :: "side \<Rightarrow> u64"
  r_read :: "side \<Rightarrow> bytes"
  r_written :: "side \<Rightarrow> bytes"
  r_shut :: "side \<Rightarrow> bool"
  r_meter :: 'm

definition relay_new :: "'m \<Rightarrow> 'm Relay" where
  "relay_new m = \<lparr>r_done = (\<lambda>_. False), r_total = (\<lambda>_. 0), r_read = (\<lambda>_. []), r_written = (\<lambda>_. []),
     r_shut = (\<lambda>_. False), r_meter = m\<rparr>"

definition relay_error :: "side \<Rightarrow> error" where
  "relay_error x = (case x of SideA \<Rightarrow> Bail ''read relay input stream'' | SideB \<Rightarrow> Bail ''read relay egress stream'')"

text \<open>\<open>Some\<close> result ends the loop.\<close>

definition relay_step ::
  "(nat \<Rightarrow> 'm \<Rightarrow> unit result \<times> 'm) \<Rightarrow> copy_event \<Rightarrow> 'm Relay \<Rightarrow> (u64 \<times> u64) result option \<times> 'm Relay"
where
  "relay_step account e s =
     (let x = ce_side e; y = opposite x in
      if r_done s x then (None, s)
      else
        (case ce_read e of
           ReadFailed \<Rightarrow> (Some (Inl (relay_error x)), s)
         | ReadData bs \<Rightarrow>
             (let s = s\<lparr>r_read := (r_read s)(x := r_read s x @ bs)\<rparr> in
              case account (length bs) (r_meter s) of
                (Inl err, m) \<Rightarrow> (Some (Inl err), s\<lparr>r_meter := m\<rparr>)
              | (Inr _, m) \<Rightarrow>
                  let s = s\<lparr>r_meter := m, r_total := (r_total s)(x := r_total s x + of_nat (length bs))\<rparr> in
                  (case ce_write_fails e of
                     None \<Rightarrow> (None, s\<lparr>r_written := (r_written s)(y := r_written s y @ bs)\<rparr>)
                   | Some k \<Rightarrow>
                       (Some (Inl (Bail ''write_all'')), s\<lparr>r_written := (r_written s)(y := r_written s y @ take k bs)\<rparr>)))
         | _ \<Rightarrow>
             if r_done s y then (Some (Inr (r_total s SideA, r_total s SideB)), s)
             else (None, s\<lparr>r_done := (r_done s)(x := True), r_shut := (r_shut s)(y := True)\<rparr>)))"

fun metered_idle_copy_bidirectional ::
  "(nat \<Rightarrow> 'm \<Rightarrow> unit result \<times> 'm) \<Rightarrow> copy_event list \<Rightarrow> 'm Relay \<Rightarrow> (u64 \<times> u64) result option \<times> 'm Relay"
where
  "metered_idle_copy_bidirectional account [] s = (None, s)"
| "metered_idle_copy_bidirectional account (e # es) s =
     (case relay_step account e s of
        (None, s') \<Rightarrow> metered_idle_copy_bidirectional account es s'
      | (Some r, s') \<Rightarrow> (Some r, s'))"

definition noop_account :: "nat \<Rightarrow> unit \<Rightarrow> unit result \<times> unit" where
  "noop_account n m = (Inr (), m)"

definition idle_copy_bidirectional :: "copy_event list \<Rightarrow> (u64 \<times> u64) result option \<times> unit Relay" where
  "idle_copy_bidirectional es = metered_idle_copy_bidirectional noop_account es (relay_new ())"

end
