(* ===== verification/Esp_Transport_Props.thy ===== *)
theory Esp_Transport_Props
  imports Esp_Transport "HOL-Library.Extended_Nat" "HOL-Library.Sublist"
begin

text \<open>
  What the pumps achieve: the upload of one end and the download of the other carry the whole input of
  the application, in order, in plain and in stealth mode; the delays of the stealth shaper stay
  within their bounds; the copy between two streams relays what it reads and meters it first.
\<close>

section \<open>What a pump carries\<close>

text \<open>The bytes \<open>w\<close> on the wire make the download hand \<open>bs\<close> to the application.\<close>

definition carries :: "prims \<Rightarrow> FrameOptions \<Rightarrow> Tx \<Rightarrow> bytes \<Rightarrow> bytes \<Rightarrow> Tx \<Rightarrow> bool" where
  "carries p o' s w bs t \<longleftrightarrow> (\<forall>r rest st app. sync s r \<longrightarrow> rx (y_conn r) = w @ rest \<longrightarrow> pumped_bytes st \<le> u64_max \<longrightarrow>
     (\<exists>r' st'. download_loop p st \<lparr>fr_rx = r, fr_options = o'\<rparr> app =
        download_loop p st' \<lparr>fr_rx = r', fr_options = o'\<rparr> (app\<lparr>app_bytes := app_bytes app @ bs\<rparr>) \<and>
        pumped_bytes st' = sat_add_u64 (pumped_bytes st) (length bs) \<and>
        sync t r' \<and> rx (y_conn r') = rest))"

definition finishes :: "prims \<Rightarrow> FrameOptions \<Rightarrow> Tx \<Rightarrow> bytes \<Rightarrow> bytes \<Rightarrow> bool" where
  "finishes p o' s w bs \<longleftrightarrow> (\<forall>r rest st app. sync s r \<longrightarrow> rx (y_conn r) = w @ rest \<longrightarrow> pumped_bytes st \<le> u64_max \<longrightarrow>
     (\<exists>r' st'. download_loop p st \<lparr>fr_rx = r, fr_options = o'\<rparr> app =
        (Inr st', \<lparr>fr_rx = r', fr_options = o'\<rparr>, app\<lparr>app_bytes := app_bytes app @ bs, app_shut := True\<rparr>) \<and>
        pumped_bytes st' = sat_add_u64 (pumped_bytes st) (length bs) \<and> rx (y_conn r') = rest))"

lemma sat_add_u64_assoc: "sat_add_u64 (sat_add_u64 a b) c = sat_add_u64 a (b + c)"
  by (simp add: sat_add_u64_def)

lemma sat_add_u64_le: "sat_add_u64 a b \<le> u64_max"
  by (simp add: sat_add_u64_def)

lemma carries_finishes:
  assumes "carries p o' s w bs t" "finishes p o' t w' bs'"
  shows "finishes p o' s (w @ w') (bs @ bs')"
  unfolding finishes_def
proof (intro allI impI)
  fix r rest and st :: PumpStats and app :: AppSink
  assume a: "sync s r" "rx (y_conn r) = (w @ w') @ rest" "pumped_bytes st \<le> u64_max"
  obtain r1 st1 where 1: "download_loop p st \<lparr>fr_rx = r, fr_options = o'\<rparr> app =
        download_loop p st1 \<lparr>fr_rx = r1, fr_options = o'\<rparr> (app\<lparr>app_bytes := app_bytes app @ bs\<rparr>)"
      "pumped_bytes st1 = sat_add_u64 (pumped_bytes st) (length bs)" "sync t r1" "rx (y_conn r1) = w' @ rest"
    using assms(1) a unfolding carries_def by (metis append_assoc)
  have "pumped_bytes st1 \<le> u64_max" unfolding 1(2) by (rule sat_add_u64_le)
  with assms(2) 1(3,4) obtain r2 st2 where
    "download_loop p st1 \<lparr>fr_rx = r1, fr_options = o'\<rparr> (app\<lparr>app_bytes := app_bytes app @ bs\<rparr>) =
        (Inr st2, \<lparr>fr_rx = r2, fr_options = o'\<rparr>,
         (app\<lparr>app_bytes := app_bytes app @ bs\<rparr>)\<lparr>app_bytes := app_bytes (app\<lparr>app_bytes := app_bytes app @ bs\<rparr>) @ bs', app_shut := True\<rparr>)"
    "pumped_bytes st2 = sat_add_u64 (pumped_bytes st1) (length bs')" "rx (y_conn r2) = rest"
    unfolding finishes_def by blast
  with 1(1,2) show "\<exists>r' st'. download_loop p st \<lparr>fr_rx = r, fr_options = o'\<rparr> app =
        (Inr st', \<lparr>fr_rx = r', fr_options = o'\<rparr>, app\<lparr>app_bytes := app_bytes app @ bs @ bs', app_shut := True\<rparr>) \<and>
        pumped_bytes st' = sat_add_u64 (pumped_bytes st) (length (bs @ bs')) \<and> rx (y_conn r') = rest"
    by (intro exI [of _ r2] exI [of _ st2]) (simp add: sat_add_u64_assoc)
qed

lemma data_carries:
  assumes "delivered p o' s w f t" "f_ty f = Data"
  shows "carries p o' s w (f_payload f) t"
  unfolding carries_def
proof (intro allI impI)
  fix r rest and st :: PumpStats and app :: AppSink
  assume "sync s r" "rx (y_conn r) = w @ rest"
  with assms(1) obtain r' where r': "recv p o' r = (Inr f, r')" "sync t r'" "y_conn r' = (y_conn r)\<lparr>rx := rest\<rparr>"
    unfolding delivered_def by blast
  then show "\<exists>r' st'. download_loop p st \<lparr>fr_rx = r, fr_options = o'\<rparr> app =
        download_loop p st' \<lparr>fr_rx = r', fr_options = o'\<rparr> (app\<lparr>app_bytes := app_bytes app @ f_payload f\<rparr>) \<and>
        pumped_bytes st' = sat_add_u64 (pumped_bytes st) (length (f_payload f)) \<and> sync t r' \<and> rx (y_conn r') = rest"
    using assms(2)
    by (intro exI [of _ r'] exI [of _ "count_data (length (f_payload f)) st"])
      (simp add: download_loop.simps [of p st "\<lparr>fr_rx = r, fr_options = o'\<rparr>"] reader_recv_def count_data_def)
qed

lemma close_finishes:
  assumes "delivered p o' s w f t" "f_ty f = Close"
  shows "finishes p o' s w []"
  unfolding finishes_def
proof (intro allI impI)
  fix r rest and st :: PumpStats and app :: AppSink
  assume a: "sync s r" "rx (y_conn r) = w @ rest" "pumped_bytes st \<le> u64_max"
  with assms(1) obtain r' where r': "recv p o' r = (Inr f, r')" "y_conn r' = (y_conn r)\<lparr>rx := rest\<rparr>"
    unfolding delivered_def by blast
  then show "\<exists>r' st'. download_loop p st \<lparr>fr_rx = r, fr_options = o'\<rparr> app =
        (Inr st', \<lparr>fr_rx = r', fr_options = o'\<rparr>, app\<lparr>app_bytes := app_bytes app @ [], app_shut := True\<rparr>) \<and>
        pumped_bytes st' = sat_add_u64 (pumped_bytes st) (length []) \<and> rx (y_conn r') = rest"
    using assms(2) a(3)
    by (intro exI [of _ r'] exI [of _ st])
      (simp add: download_loop.simps [of p st "\<lparr>fr_rx = r, fr_options = o'\<rparr>"] reader_recv_def sat_add_u64_def)
qed

lemma skipped_carries:
  assumes "skipped p o' s w t"
  shows "carries p o' s w [] t"
  unfolding carries_def
proof (intro allI impI)
  fix r rest and st :: PumpStats and app :: AppSink
  assume a: "sync s r" "rx (y_conn r) = w @ rest" "pumped_bytes st \<le> u64_max"
  with assms obtain r' where r': "recv p o' r = recv p o' r'" "sync t r'" "y_conn r' = (y_conn r)\<lparr>rx := rest\<rparr>"
    unfolding skipped_def by blast
  have "reader_recv p \<lparr>fr_rx = r, fr_options = o'\<rparr> = reader_recv p \<lparr>fr_rx = r', fr_options = o'\<rparr>"
    by (simp add: reader_recv_def r'(1) split: prod.splits)
  then have "download_loop p st \<lparr>fr_rx = r, fr_options = o'\<rparr> app = download_loop p st \<lparr>fr_rx = r', fr_options = o'\<rparr> app"
    by (simp only: download_loop.simps [of p st "\<lparr>fr_rx = _, fr_options = o'\<rparr>" app])
  with r'(2,3) a(3) show "\<exists>r' st'. download_loop p st \<lparr>fr_rx = r, fr_options = o'\<rparr> app =
        download_loop p st' \<lparr>fr_rx = r', fr_options = o'\<rparr> (app\<lparr>app_bytes := app_bytes app @ []\<rparr>) \<and>
        pumped_bytes st' = sat_add_u64 (pumped_bytes st) (length []) \<and> sync t r' \<and> rx (y_conn r') = rest"
    by (intro exI [of _ r'] exI [of _ st]) (simp add: sat_add_u64_def)
qed

lemma send_padding_skipped:
  assumes "prims_ok p" "options_ok o'" "send_draw_ok d"
  obtains s' w where "send_with_optional_padding p o' d padding_frame s = (Inr (), s')" "grew s w s'" "skipped p o' s w s'"
    "k_tx_generation (x_keys s') = k_tx_generation (x_keys s)"
proof -
  obtain w s1 where 1: "write_one p o' (s_frame d) padding_frame s = (Inr (w_elapsed (s_frame d)), s1)"
    "wrote s w s1" "record_read p o' s w padding_frame"
    by (rule write_read [OF assms(1,2), of "s_frame d" padding_frame s]) (use assms(3) in \<open>simp_all add: send_draw_ok_def\<close>)
  obtain s' where 2: "observe_write_backpressure o' (s_frame d) (w_elapsed (s_frame d)) s1 = (Inr (), s')"
    "x_keys s' = x_keys s1" "x_seq s' = x_seq s1" "x_conn s' = x_conn s1"
    by (cases "observe_backpressure o' (w_after (s_frame d)) (w_elapsed (s_frame d))")
      (auto simp: observe_write_backpressure_def)
  show ?thesis
  proof (rule that)
    show "send_with_optional_padding p o' d padding_frame s = (Inr (), s')"
      using 1(1) 2(1)
      by (simp add: send_with_optional_padding_def write_key_update_def should_key_update_def io_then_def io_bind_def io_return_def)
    show "skipped p o' s w s'" using padding_skipped [OF 1(3,2)] 2(2,3) by simp
    show "grew s w s'" "k_tx_generation (x_keys s') = k_tx_generation (x_keys s)"
      using 1(2) 2(2-) by (simp_all add: grew_def wrote_def)
  qed
qed

text \<open>What sending a frame of a pump does.\<close>

definition sends :: "prims \<Rightarrow> send_draw \<Rightarrow> Frame \<Rightarrow> FrameWriter \<Rightarrow> bytes \<Rightarrow> FrameWriter \<Rightarrow> bool" where
  "sends p d f w ws w' \<longleftrightarrow> writer_send p d f w = (Inr (), w') \<and> fw_options w' = fw_options w \<and>
     tx (x_conn (fw_tx w')) = tx (x_conn (fw_tx w)) @ ws \<and>
     unat (k_tx_generation (x_keys (fw_tx w'))) \<le> Suc (unat (k_tx_generation (x_keys (fw_tx w)))) \<and>
     (if f_ty f = Close then finishes p (fw_options w) (fw_tx w) ws []
      else carries p (fw_options w) (fw_tx w) ws (f_payload f) (fw_tx w'))"

lemma pump_sends:
  assumes "prims_ok p" "options_ok (fw_options w)" "send_draw_ok d"
    and "unat (k_tx_generation (x_keys (fw_tx w))) < u64_max"
    and "f_ty f = Data \<and> length (f_payload f) \<le> capacity (fw_options w) \<or> f = close_frame \<or> f = padding_frame"
  obtains ws w' where "sends p d f w ws w'"
proof (cases "f = padding_frame")
  case True
  obtain s' ws where s': "send_with_optional_padding p (fw_options w) d padding_frame (fw_tx w) = (Inr (), s')"
    "grew (fw_tx w) ws s'" "skipped p (fw_options w) (fw_tx w) ws s'"
    "k_tx_generation (x_keys s') = k_tx_generation (x_keys (fw_tx w))"
    by (rule send_padding_skipped [OF assms(1-3), of "fw_tx w"])
  show ?thesis
    by (rule that [of ws "w\<lparr>fw_tx := s'\<rparr>"])
      (use s' in \<open>simp add: sends_def True writer_send_def grew_def skipped_carries\<close>)
next
  case False
  with assms(5) have f: "length (f_payload f) \<le> capacity (fw_options w)" "f_ty f \<noteq> Padding" "f_ty f \<noteq> KeyUpdate"
    "f_ty f \<noteq> Close \<longrightarrow> f_ty f = Data" by auto
  obtain s' ws where s': "send_with_optional_padding p (fw_options w) d f (fw_tx w) = (Inr (), s')"
    "grew (fw_tx w) ws s'" "delivered p (fw_options w) (fw_tx w) ws f s'"
    "unat (k_tx_generation (x_keys s')) \<le> unat (k_tx_generation (x_keys (fw_tx w))) + 1"
    by (rule send_delivers [OF assms(1-4) f(1-3)])
  show ?thesis
    by (rule that [of ws "w\<lparr>fw_tx := s'\<rparr>"])
      (use s' f(4) in \<open>auto simp: sends_def writer_send_def grew_def intro: data_carries close_finishes\<close>)
qed

section \<open>The uploads\<close>

text \<open>A pump that ends has put on the wire what makes the download hand over \<open>bs\<close> and finish.\<close>

definition uploads :: "prims \<Rightarrow> bytes \<Rightarrow> PumpStats \<Rightarrow> FrameWriter \<Rightarrow> (PumpStats result \<times> FrameWriter) option \<Rightarrow> bool" where
  "uploads p bs st w res \<longleftrightarrow>
     (case res of
        None \<Rightarrow> True
      | Some (Inl e, w') \<Rightarrow> False
      | Some (Inr st', w') \<Rightarrow>
          \<exists>ws. tx (x_conn (fw_tx w')) = tx (x_conn (fw_tx w)) @ ws \<and> finishes p (fw_options w) (fw_tx w) ws bs \<and>
            pumped_bytes st' = sat_add_u64 (pumped_bytes st) (length bs))"

lemma uploads_sent:
  assumes "sends p d f w ws w'" "uploads p bs st' w' res" "f_ty f \<noteq> Close"
    and "pumped_bytes st' = sat_add_u64 (pumped_bytes st) (length (f_payload f))"
  shows "uploads p (f_payload f @ bs) st w res"
  using assms carries_finishes [of p "fw_options w" "fw_tx w" ws "f_payload f" "fw_tx w'"]
  by (fastforce simp: uploads_def sends_def sat_add_u64_assoc split: option.splits sum.splits)

lemma uploads_closed:
  assumes "sends p d close_frame w ws w'" "pumped_bytes st \<le> u64_max"
  shows "uploads p [] st w (Some (Inr st, w'))"
  using assms by (auto simp: uploads_def sends_def sat_add_u64_def)

lemma plain_chunk:
  assumes "\<not> is_stealth o'"
  shows "1 \<le> next_chunk_size o' k" "next_chunk_size o' k \<le> capacity o'"
proof -
  obtain mn mx where b: "normalized_chunk_bounds o' = (mn, mx)" by force
  with chunk_bounds [OF b] gen_range_bounds [of mn mx k] assms
  show "1 \<le> next_chunk_size o' k" "next_chunk_size o' k \<le> capacity o'"
    by (auto simp: next_chunk_size_def capacity_def)
qed

lemma upload_loop_carries:
  assumes "prims_ok p" "options_ok (fw_options w)" "\<not> is_stealth (fw_options w)" "\<forall>d \<in> set ds. send_draw_ok (up_send d)"
    and "unat (k_tx_generation (x_keys (fw_tx w))) + length ds \<le> u64_max" "pumped_bytes st \<le> u64_max"
  shows "uploads p input st w (upload_loop p ds input st w) \<and>
    (length input < length (filter (\<lambda>d. \<not> up_beat d) ds) \<longrightarrow> upload_loop p ds input st w \<noteq> None)"
  using assms(2-)
proof (induction ds arbitrary: input st w)
  case Nil
  then show ?case by (simp add: uploads_def)
next
  case (Cons d ds)
  from Cons.prems have d: "send_draw_ok (up_send d)" "\<forall>d \<in> set ds. send_draw_ok (up_send d)"
    "unat (k_tx_generation (x_keys (fw_tx w))) < u64_max" by auto
  note sent = pump_sends [OF assms(1) Cons.prems(1) d(1,3)]
  define sz where "sz = next_chunk_size (fw_options w) (up_chunk d)"
  have sz: "1 \<le> sz" "sz \<le> capacity (fw_options w)"
    unfolding sz_def by (rule plain_chunk [OF Cons.prems(2)])+
  define g where "g = read_some (up_short d) sz input"
  note g = read_some_facts [OF sz(1), of "up_short d" input, folded g_def]
  have IH: "uploads p i st' w' (upload_loop p ds i st' w') \<and>
      (length i < length (filter (\<lambda>d. \<not> up_beat d) ds) \<longrightarrow> upload_loop p ds i st' w' \<noteq> None)"
    if "sends p e f w ws w'" "pumped_bytes st' \<le> u64_max" for i st' w' e f ws
    by (rule Cons.IH) (use that Cons.prems d(2) in \<open>auto simp: sends_def\<close>)
  consider (beat) "o_heartbeat_secs (fw_options w) \<noteq> 0 \<and> up_beat d"
    | (eof) "\<not> (o_heartbeat_secs (fw_options w) \<noteq> 0 \<and> up_beat d)" "g = []"
    | (data) "\<not> (o_heartbeat_secs (fw_options w) \<noteq> 0 \<and> up_beat d)" "g \<noteq> []" by blast
  then show ?case
  proof cases
    case beat
    obtain ws w' where s: "sends p (up_send d) padding_frame w ws w'" by (rule sent [of padding_frame]) auto
    then have eq: "upload_loop p (d # ds) input st w = upload_loop p ds input (count_padding st) w'"
      using beat by (simp add: sends_def)
    have pb: "pumped_bytes (count_padding st) = pumped_bytes st" by (simp add: count_padding_def)
    have le: "pumped_bytes (count_padding st) \<le> u64_max" using Cons.prems(5) pb by simp
    have "uploads p (f_payload padding_frame @ input) st w (upload_loop p ds input (count_padding st) w')"
      by (rule uploads_sent [OF s IH [OF s le, THEN conjunct1]]) (use Cons.prems(5) pb in \<open>simp_all add: sat_add_u64_def\<close>)
    with IH [OF s le, of input] beat show ?thesis unfolding eq by simp
  next
    case eof
    obtain ws w' where s: "sends p (up_send d) close_frame w ws w'" by (rule sent [of close_frame]) auto
    then have eq: "upload_loop p (d # ds) input st w = Some (Inr st, w')"
      using eof(1) eof(2) [unfolded g_def sz_def] by (auto simp: sends_def Let_def)
    from uploads_closed [OF s Cons.prems(5)] g(3) eof(2) show ?thesis unfolding eq by simp
  next
    case data
    let ?f = "\<lparr>f_ty = Data, f_payload = g\<rparr>"
    obtain ws w' where s: "sends p (up_send d) ?f w ws w'" by (rule sent [of ?f]) (use g(1) sz(2) in auto)
    let ?st = "count_data (length g) st"
    have eq: "upload_loop p (d # ds) input st w = upload_loop p ds (drop (length g) input) ?st w'"
      using s data unfolding g_def sz_def by (auto simp: sends_def Let_def)
    have pb: "pumped_bytes ?st = sat_add_u64 (pumped_bytes st) (length g)" by (simp add: count_data_def)
    have le: "pumped_bytes ?st \<le> u64_max" unfolding pb by (rule sat_add_u64_le)
    have "uploads p (f_payload ?f @ drop (length g) input) st w (upload_loop p (d # ds) input st w)"
      unfolding eq by (rule uploads_sent [OF s IH [OF s le, THEN conjunct1]]) (simp_all add: pb)
    moreover have "length (drop (length g) input) < length input" using data(2) g(3) by auto
    ultimately show ?thesis using g(2) IH [OF s le, THEN conjunct2, of "drop (length g) input"] unfolding eq
      by (auto split: if_splits)
  qed
qed

section \<open>The stealth upload\<close>

text \<open>The ticks that have a read since the tick before.\<close>

fun rounds :: "bool \<Rightarrow> stealth_event list \<Rightarrow> nat" where
  "rounds b [] = 0"
| "rounds b (AppRead _ # es) = rounds True es"
| "rounds b (Tick _ _ # es) = (if b then Suc (rounds False es) else rounds False es)"

definition event_ok :: "stealth_event \<Rightarrow> bool" where
  "event_ok e \<longleftrightarrow> (case e of AppRead _ \<Rightarrow> True | Tick _ d \<Rightarrow> send_draw_ok d)"

definition stealth_work :: "StealthPump \<Rightarrow> bytes \<Rightarrow> nat" where
  "stealth_work s input = 2 * length input + length (sp_pending s) + (if sp_app_closed s then 0 else 1)"

definition pump_inv :: "bool \<Rightarrow> StealthPump \<Rightarrow> bytes \<Rightarrow> bool" where
  "pump_inv b s input \<longleftrightarrow> (sp_app_closed s \<longrightarrow> input = []) \<and> pumped_bytes (sp_stats s) \<le> u64_max \<and>
     (b \<longrightarrow> sp_pending s \<noteq> [] \<or> sp_app_closed s)"

lemma pump_inv_weaken: "pump_inv True s input \<Longrightarrow> pump_inv b s input"
  by (simp add: pump_inv_def)

text \<open>One event either ends the loop or leaves the rest to a pump with less to do.\<close>

definition advances ::
  "prims \<Rightarrow> bool \<Rightarrow> bytes \<Rightarrow> StealthPump \<Rightarrow> FrameWriter \<Rightarrow> bool \<Rightarrow> bytes \<Rightarrow> StealthPump \<Rightarrow> FrameWriter \<Rightarrow> bool"
where
  "advances p tick input s w b' input' s' w' \<longleftrightarrow>
     pump_inv b' s' input' \<and> fw_options w' = fw_options w \<and>
     unat (k_tx_generation (x_keys (fw_tx w'))) \<le> Suc (unat (k_tx_generation (x_keys (fw_tx w)))) \<and>
     (\<forall>res. uploads p (sp_pending s' @ input') (sp_stats s') w' res \<longrightarrow> uploads p (sp_pending s @ input) (sp_stats s) w res) \<and>
     stealth_work s' input' + (if tick then 1 else 0) \<le> stealth_work s input"

lemma read_advances:
  assumes "1 \<le> cap" "pump_inv b s input"
  obtains input' s' where "stealth_loop p cap (AppRead short # es) input s w = stealth_loop p cap es input' s' w"
    "advances p False input s w True input' s' w"
proof -
  define g where "g = read_some short cap input"
  note g = read_some_facts [OF assms(1), of short input, folded g_def]
  consider (off) "sp_app_closed s \<or> \<not> length (sp_pending s) < cap * 8"
    | (eof) "\<not> sp_app_closed s" "length (sp_pending s) < cap * 8" "g = []"
    | (data) "\<not> sp_app_closed s" "length (sp_pending s) < cap * 8" "g \<noteq> []" by blast
  then show ?thesis
  proof cases
    case off
    show ?thesis
      by (rule that [of input s]) (use off assms in \<open>auto simp: advances_def pump_inv_def\<close>)
  next
    case eof
    show ?thesis
      by (rule that [of input "s\<lparr>sp_app_closed := True\<rparr>"])
        (use eof g(3) assms in \<open>auto simp: advances_def pump_inv_def stealth_work_def g_def\<close>)
  next
    case data
    have "length (drop (length g) input) + length g = length input"
      using arg_cong [OF g(2), of length] by simp
    then show ?thesis
      by (intro that [of "drop (length g) input" "s\<lparr>sp_pending := sp_pending s @ g\<rparr>"])
        (use data g(2) assms in \<open>auto simp: advances_def pump_inv_def stealth_work_def Let_def simp flip: g_def\<close>)
  qed
qed

lemma tick_advances:
  assumes "prims_ok p" "options_ok (fw_options w)" "1 \<le> cap" "cap \<le> capacity (fw_options w)" "pump_inv b s input"
    and "send_draw_ok d" "unat (k_tx_generation (x_keys (fw_tx w))) < u64_max"
  shows "(\<exists>input' s' w'. stealth_loop p cap (Tick tokens d # es) input s w = stealth_loop p cap es input' s' w' \<and>
      advances p b input s w False input' s' w') \<or>
    (\<exists>w'. stealth_loop p cap (Tick tokens d # es) input s w = Some (Inr (sp_stats s), w') \<and>
      uploads p (sp_pending s @ input) (sp_stats s) w (Some (Inr (sp_stats s), w')))"
proof -
  note sent = pump_sends [OF assms(1,2,6,7)]
  have pb: "pumped_bytes (sp_stats s) \<le> u64_max" using assms(5) by (simp add: pump_inv_def)
  consider (data) "sp_pending s \<noteq> []" | (eof) "sp_pending s = []" "sp_app_closed s"
    | (pad) "sp_pending s = []" "\<not> sp_app_closed s" "padding_allowed (fw_options w) tokens"
    | (idle) "sp_pending s = []" "\<not> sp_app_closed s" "\<not> padding_allowed (fw_options w) tokens" by blast
  then show ?thesis
  proof cases
    case data
    define n where "n = min (length (sp_pending s)) cap"
    let ?f = "\<lparr>f_ty = Data, f_payload = take n (sp_pending s)\<rparr>"
    obtain ws w' where s: "sends p d ?f w ws w'"
      by (rule sent [of ?f]) (use assms(4) in \<open>auto simp: n_def\<close>)
    let ?s = "s\<lparr>sp_pending := drop n (sp_pending s), sp_idle_frames := 0, sp_stats := count_data n (sp_stats s)\<rparr>"
    have n: "length (take n (sp_pending s)) = n" "0 < n" "n \<le> length (sp_pending s)"
      using data assms(3) by (auto simp: n_def)
    have eq: "stealth_loop p cap (Tick tokens d # es) input s w = stealth_loop p cap es input ?s w'"
      using s data by (simp add: sends_def Let_def flip: n_def)
    have "uploads p (sp_pending s @ input) (sp_stats s) w res"
      if "uploads p (drop n (sp_pending s) @ input) (count_data n (sp_stats s)) w' res" for res
      using uploads_sent [OF s that, of "sp_stats s"] n by (simp add: count_data_def flip: append_assoc)
    moreover have "pumped_bytes (count_data n (sp_stats s)) \<le> u64_max" by (simp add: count_data_def sat_add_u64_le)
    ultimately have "advances p b input s w False input ?s w'"
      using s n assms(5) by (auto simp: advances_def sends_def pump_inv_def stealth_work_def)
    with eq show ?thesis by blast
  next
    case eof
    obtain ws w' where s: "sends p d close_frame w ws w'" by (rule sent [of close_frame]) auto
    have "stealth_loop p cap (Tick tokens d # es) input s w = Some (Inr (sp_stats s), w')"
      using s eof by (simp add: sends_def)
    moreover have "uploads p (sp_pending s @ input) (sp_stats s) w (Some (Inr (sp_stats s), w'))"
      using uploads_closed [OF s pb] eof assms(5) by (simp add: pump_inv_def)
    ultimately show ?thesis by blast
  next
    case pad
    obtain ws w' where s: "sends p d padding_frame w ws w'" by (rule sent [of padding_frame]) auto
    let ?s = "s\<lparr>sp_idle_frames := sat_add_u64 (sp_idle_frames s) 1, sp_stats := count_padding (sp_stats s)\<rparr>"
    have eq: "stealth_loop p cap (Tick tokens d # es) input s w = stealth_loop p cap es input ?s w'"
      using s pad by (simp add: sends_def)
    have "uploads p (sp_pending s @ input) (sp_stats s) w res"
      if "uploads p (sp_pending s @ input) (count_padding (sp_stats s)) w' res" for res
      using uploads_sent [OF s that, of "sp_stats s"] pb by (simp add: count_padding_def sat_add_u64_def)
    then have "advances p b input s w False input ?s w'"
      using s pb pad assms(5) by (simp add: advances_def sends_def pump_inv_def stealth_work_def count_padding_def)
    with eq show ?thesis by blast
  next
    case idle
    then have "advances p b input s w False input (s\<lparr>sp_idle_frames := sat_add_u64 (sp_idle_frames s) 1\<rparr>) w"
      using assms(5) by (simp add: advances_def pump_inv_def stealth_work_def)
    with idle show ?thesis by fastforce
  qed
qed

lemma stealth_loop_carries:
  assumes "prims_ok p" "options_ok (fw_options w)" "1 \<le> cap" "cap \<le> capacity (fw_options w)"
    and "\<forall>e \<in> set es. event_ok e" "unat (k_tx_generation (x_keys (fw_tx w))) + length es \<le> u64_max" "pump_inv b s input"
  shows "uploads p (sp_pending s @ input) (sp_stats s) w (stealth_loop p cap es input s w) \<and>
    (stealth_work s input < rounds b es \<longrightarrow> stealth_loop p cap es input s w \<noteq> None)"
  using assms(2,4-)
proof (induction es arbitrary: b input s w)
  case Nil
  then show ?case by (simp add: uploads_def)
next
  case (Cons e es)
  have IH: "uploads p (sp_pending s' @ input') (sp_stats s') w' (stealth_loop p cap es input' s' w') \<and>
      (stealth_work s' input' < rounds b' es \<longrightarrow> stealth_loop p cap es input' s' w' \<noteq> None)"
    if "advances p t input s w b' input' s' w'" for t b' input' s' w'
    by (rule Cons.IH) (use that Cons.prems in \<open>auto simp: advances_def\<close>)
  show ?case
  proof (cases e)
    case (AppRead short)
    obtain input' s' where a: "stealth_loop p cap (e # es) input s w = stealth_loop p cap es input' s' w"
      "advances p False input s w True input' s' w"
      unfolding AppRead by (rule read_advances [OF assms(3) Cons.prems(5)])
    with IH [OF a(2)] AppRead show ?thesis by (auto simp: advances_def)
  next
    case (Tick tokens d)
    from Cons.prems Tick have d: "send_draw_ok d" "unat (k_tx_generation (x_keys (fw_tx w))) < u64_max"
      by (auto simp: event_ok_def)
    from tick_advances [OF assms(1) Cons.prems(1) assms(3) Cons.prems(2,5) d, of tokens es] show ?thesis
    proof (elim disjE exE conjE)
      fix input' s' w'
      assume a: "stealth_loop p cap (Tick tokens d # es) input s w = stealth_loop p cap es input' s' w'"
        "advances p b input s w False input' s' w'"
      with IH [OF a(2)] Tick show ?thesis by (auto simp: advances_def)
    next
      fix w'
      assume "stealth_loop p cap (Tick tokens d # es) input s w = Some (Inr (sp_stats s), w')"
        "uploads p (sp_pending s @ input) (sp_stats s) w (Some (Inr (sp_stats s), w'))"
      with Tick show ?thesis by simp
    qed
  qed
qed

lemma warmup_carries:
  assumes "prims_ok p" "options_ok (fw_options w)" "\<forall>d \<in> set ds. send_draw_ok (wd_send d)"
    and "unat (k_tx_generation (x_keys (fw_tx w))) + length ds \<le> u64_max" "pumped_bytes st \<le> u64_max"
  shows "\<exists>i' st' w'. warmup p o' ds i st w = (Inr (i', st'), w') \<and> fw_options w' = fw_options w \<and>
    unat (k_tx_generation (x_keys (fw_tx w'))) \<le> unat (k_tx_generation (x_keys (fw_tx w))) + length ds \<and>
    pumped_bytes st' = pumped_bytes st \<and> (\<forall>bs res. uploads p bs st' w' res \<longrightarrow> uploads p bs st w res)"
  using assms(2-)
proof (induction ds arbitrary: i st w)
  case Nil
  then show ?case by simp
next
  case (Cons d ds)
  show ?case
  proof (cases "padding_allowed o' (wd_tokens d)")
    case False
    with Cons.IH [of w st "sat_add_u64 i 1"] Cons.prems show ?thesis by fastforce
  next
    case True
    have d: "send_draw_ok (wd_send d)" "unat (k_tx_generation (x_keys (fw_tx w))) < u64_max"
      using Cons.prems(2,3) by auto
    obtain ws w1 where s: "sends p (wd_send d) padding_frame w ws w1"
      by (rule pump_sends [OF assms(1) Cons.prems(1) d, of padding_frame]) auto
    have pb: "pumped_bytes (count_padding st) = pumped_bytes st" by (simp add: count_padding_def)
    have up: "uploads p bs st w res" if "uploads p bs (count_padding st) w1 res" for bs res
      using uploads_sent [OF s that, of st] Cons.prems(4) pb by (simp add: sat_add_u64_def)
    have "\<exists>i' st' w'. warmup p o' ds (i + 1) (count_padding st) w1 = (Inr (i', st'), w') \<and> fw_options w' = fw_options w1 \<and>
      unat (k_tx_generation (x_keys (fw_tx w'))) \<le> unat (k_tx_generation (x_keys (fw_tx w1))) + length ds \<and>
      pumped_bytes st' = pumped_bytes (count_padding st) \<and>
      (\<forall>bs res. uploads p bs st' w' res \<longrightarrow> uploads p bs (count_padding st) w1 res)"
      by (rule Cons.IH) (use s Cons.prems pb in \<open>auto simp: sends_def\<close>)
    then show ?thesis using s True up pb by (fastforce simp: sends_def)
  qed
qed

section \<open>End to end\<close>

definition upload_draws_ok :: "up_draw list \<Rightarrow> nat \<times> (nat \<Rightarrow> warm_draw) \<Rightarrow> stealth_event list \<Rightarrow> bool" where
  "upload_draws_ok ds warm es \<longleftrightarrow> (\<forall>d \<in> set ds. send_draw_ok (up_send d)) \<and> (\<forall>k. send_draw_ok (wd_send (snd warm k))) \<and>
     (\<forall>e \<in> set es. event_ok e) \<and> length ds + length es + 5 \<le> u64_max"

text \<open>Enough rounds for a pump to end.\<close>

definition upload_rounds :: "FrameOptions \<Rightarrow> up_draw list \<Rightarrow> stealth_event list \<Rightarrow> nat" where
  "upload_rounds o' ds es =
     (if is_stealth o' then (rounds False es - 1) div 2 else length (filter (\<lambda>d. \<not> up_beat d) ds))"

lemma warm_rounds_facts:
  "length (warm_rounds warm) \<le> 5" "\<forall>k. send_draw_ok (wd_send (snd warm k)) \<Longrightarrow> \<forall>d \<in> set (warm_rounds warm). send_draw_ok (wd_send d)"
  using gen_range_bounds [of 2 5 "fst warm"]
  by (auto simp: warm_rounds_def STEALTH_WARMUP_MIN_FRAMES_def STEALTH_WARMUP_MAX_FRAMES_def)

lemma upload_frames_carries:
  assumes "prims_ok p" "options_ok o'" "k_tx_generation keys = 0" "upload_draws_ok ds warm es"
  shows "uploads p input stats_new (writer_new net keys o') (upload_frames p o' ds warm es input keys net) \<and>
    (length input < upload_rounds o' ds es \<longrightarrow> upload_frames p o' ds warm es input keys net \<noteq> None)"
proof -
  let ?w = "writer_new net keys o'"
  have w: "fw_options ?w = o'" "k_tx_generation (x_keys (fw_tx ?w)) = 0" "pumped_bytes stats_new \<le> u64_max"
    using assms(3) by (simp_all add: writer_new_def stats_new_def)
  show ?thesis
  proof (cases "is_stealth o'")
    case False
    with upload_loop_carries [OF assms(1), of ?w ds stats_new input] assms(2,4) w show ?thesis
      by (simp add: upload_frames_def upload_rounds_def upload_draws_ok_def)
  next
    case True
    with assms(2) have v: "validate_stealth o' = Inr ()" by (simp add: options_ok_def)
    note cap = stealth_capacity [OF v]
    let ?cap = "o_stealth_frame_size o' - 19"
    note wr = warm_rounds_facts [of warm]
    from warmup_carries [OF assms(1), of ?w "warm_rounds warm" stats_new o' 0] assms(2,4) w wr obtain i st w' where
      u: "warmup p o' (warm_rounds warm) 0 stats_new ?w = (Inr (i, st), w')" "fw_options w' = o'"
      "unat (k_tx_generation (x_keys (fw_tx w'))) \<le> 5" "pumped_bytes st \<le> u64_max"
      "\<And>bs res. uploads p bs st w' res \<Longrightarrow> uploads p bs stats_new ?w res"
      by (fastforce simp: upload_draws_ok_def)
    let ?s = "\<lparr>sp_pending = [], sp_app_closed = False, sp_idle_frames = i, sp_stats = st\<rparr>"
    have eq: "upload_frames p o' ds warm es input keys net = stealth_loop p ?cap es input ?s w'"
      using True cap u(1) by (simp add: upload_frames_def upload_stealth_frames_def Let_def)
    have "uploads p (sp_pending ?s @ input) (sp_stats ?s) w' (stealth_loop p ?cap es input ?s w') \<and>
      (stealth_work ?s input < rounds False es \<longrightarrow> stealth_loop p ?cap es input ?s w' \<noteq> None)"
      by (rule stealth_loop_carries [OF assms(1)])
        (use True cap u assms(2,4) in \<open>auto simp: capacity_def upload_draws_ok_def pump_inv_def\<close>)
    then show ?thesis unfolding eq using u(5) True by (simp add: stealth_work_def upload_rounds_def)
  qed
qed

lemma uploads_download:
  assumes "uploads p input stats_new (writer_new \<lparr>rx = [], tx = []\<rparr> ka o') (Some (Inr st, w))"
    and "mirrored ka kb" "length input \<le> u64_max"
  obtains st' r where "download_frames p o' kb \<lparr>rx = tx (x_conn (fw_tx w)), tx = []\<rparr> =
      (Inr st', r, \<lparr>app_bytes = input, app_shut = True\<rparr>)"
    "pumped_bytes st = length input" "pumped_bytes st' = length input" "rx (y_conn (fr_rx r)) = []"
proof -
  let ?r = "\<lparr>y_conn = \<lparr>rx = tx (x_conn (fw_tx w)), tx = []\<rparr>, y_keys = kb, y_seq = 0\<rparr>"
  have sync: "sync (fw_tx (writer_new \<lparr>rx = [], tx = []\<rparr> ka o')) ?r"
    using assms(2) by (simp add: sync_def writer_new_def)
  from assms(1) have fin: "finishes p o' (fw_tx (writer_new \<lparr>rx = [], tx = []\<rparr> ka o')) (tx (x_conn (fw_tx w))) input"
    and st: "pumped_bytes st = length input"
    using assms(3) by (auto simp: uploads_def writer_new_def stats_new_def sat_add_u64_def)
  obtain r' st' where "download_loop p stats_new \<lparr>fr_rx = ?r, fr_options = o'\<rparr> \<lparr>app_bytes = [], app_shut = False\<rparr> =
        (Inr st', \<lparr>fr_rx = r', fr_options = o'\<rparr>, \<lparr>app_bytes = input, app_shut = True\<rparr>)"
      "pumped_bytes st' = sat_add_u64 0 (length input)" "rx (y_conn r') = []"
    using fin [unfolded finishes_def, rule_format, of ?r "[]" stats_new "\<lparr>app_bytes = [], app_shut = False\<rparr>"] sync
    by (auto simp: stats_new_def)
  with st assms(3) show ?thesis
    by (intro that [of st' "\<lparr>fr_rx = r', fr_options = o'\<rparr>"])
      (simp_all add: download_frames_def reader_new_def sat_add_u64_def)
qed

lemma transport_one_way:
  assumes "prims_ok p" "options_ok o'" "mirrored ka kb" "k_tx_generation ka = 0" "upload_draws_ok ds warm es"
    and "length input < upload_rounds o' ds es" "length input \<le> u64_max"
  obtains st w st' r where "upload_frames p o' ds warm es input ka \<lparr>rx = [], tx = []\<rparr> = Some (Inr st, w)"
    "download_frames p o' kb \<lparr>rx = tx (x_conn (fw_tx w)), tx = []\<rparr> = (Inr st', r, \<lparr>app_bytes = input, app_shut = True\<rparr>)"
    "pumped_bytes st = length input" "pumped_bytes st' = length input" "rx (y_conn (fr_rx r)) = []"
proof -
  from upload_frames_carries [OF assms(1,2,4,5), of input "\<lparr>rx = [], tx = []\<rparr>"] assms(6) obtain res w where
    res: "upload_frames p o' ds warm es input ka \<lparr>rx = [], tx = []\<rparr> = Some (res, w)"
      "uploads p input stats_new (writer_new \<lparr>rx = [], tx = []\<rparr> ka o') (Some (res, w))" by auto
  then obtain st where up: "upload_frames p o' ds warm es input ka \<lparr>rx = [], tx = []\<rparr> = Some (Inr st, w)"
      "uploads p input stats_new (writer_new \<lparr>rx = [], tx = []\<rparr> ka o') (Some (Inr st, w))"
    by (cases res) (simp_all add: uploads_def)
  show ?thesis by (rule uploads_download [OF up(2) assms(3,7)]) (rule that [OF up(1)])
qed

text \<open>
  C33: the tunnel is transparent. Two ends with mirrored keys each pump their application's stream
  into the network and the network's into the application, in plain or in stealth mode, with
  heartbeats, padding and key updates drawn at will. Given enough rounds every pump ends without an error, and
  each application has received the whole input of the other one, in order, then the end of the
  stream; the byte counts that the pumps log are the lengths of the inputs.
\<close>

theorem transport_transparent:
  assumes "prims_ok p" "options_ok o'" "mirrored ka kb" "mirrored kb ka" "k_tx_generation ka = 0" "k_tx_generation kb = 0"
    and "upload_draws_ok dsa warma esa" "length ina < upload_rounds o' dsa esa" "length ina \<le> u64_max"
    and "upload_draws_ok dsb warmb esb" "length inb < upload_rounds o' dsb esb" "length inb \<le> u64_max"
  shows "\<exists>neta netb ua da ub db wa wb ra rb.
    spawn_frame_transport p o' dsa warma esa ka ina netb =
      (Some (Inr ua, wa), Inr da, ra, \<lparr>app_bytes = inb, app_shut = True\<rparr>) \<and>
    spawn_frame_transport p o' dsb warmb esb kb inb neta =
      (Some (Inr ub, wb), Inr db, rb, \<lparr>app_bytes = ina, app_shut = True\<rparr>) \<and>
    neta = tx (x_conn (fw_tx wa)) \<and> netb = tx (x_conn (fw_tx wb)) \<and>
    pumped_bytes ua = length ina \<and> pumped_bytes db = length ina \<and>
    pumped_bytes ub = length inb \<and> pumped_bytes da = length inb"
proof -
  obtain ua wa db rb where 1: "upload_frames p o' dsa warma esa ina ka \<lparr>rx = [], tx = []\<rparr> = Some (Inr ua, wa)"
    "download_frames p o' kb \<lparr>rx = tx (x_conn (fw_tx wa)), tx = []\<rparr> = (Inr db, rb, \<lparr>app_bytes = ina, app_shut = True\<rparr>)"
    "pumped_bytes ua = length ina" "pumped_bytes db = length ina"
    by (rule transport_one_way [OF assms(1-3,5,7-9)])
  obtain ub wb da ra where 2: "upload_frames p o' dsb warmb esb inb kb \<lparr>rx = [], tx = []\<rparr> = Some (Inr ub, wb)"
    "download_frames p o' ka \<lparr>rx = tx (x_conn (fw_tx wb)), tx = []\<rparr> = (Inr da, ra, \<lparr>app_bytes = inb, app_shut = True\<rparr>)"
    "pumped_bytes ub = length inb" "pumped_bytes da = length inb"
    by (rule transport_one_way [OF assms(1,2,4,6,10-12)])
  have "spawn_frame_transport p o' dsa warma esa ka ina (tx (x_conn (fw_tx wb))) =
      (Some (Inr ua, wa), Inr da, ra, \<lparr>app_bytes = inb, app_shut = True\<rparr>)"
    "spawn_frame_transport p o' dsb warmb esb kb inb (tx (x_conn (fw_tx wa))) =
      (Some (Inr ub, wb), Inr db, rb, \<lparr>app_bytes = ina, app_shut = True\<rparr>)"
    by (simp_all only: spawn_frame_transport_def 1 2)
  with 1(3,4) 2(3,4) show ?thesis by blast
qed

theorem transport_transparent_witness:
  "\<exists>neta netb ua da ub db wa wb ra rb.
    spawn_frame_transport demo_prims frame_options_default (replicate 5 \<lparr>up_beat = False, up_chunk = 0, up_short = 0, up_send = demo_send True\<rparr>)
      (0, \<lambda>_. \<lparr>wd_tokens = True, wd_send = demo_send False\<rparr>) [] (demo_keys ''client'') [1, 2, 3] netb =
      (Some (Inr ua, wa), Inr da, ra, \<lparr>app_bytes = [9], app_shut = True\<rparr>) \<and>
    spawn_frame_transport demo_prims frame_options_default
      (\<lparr>up_beat = True, up_chunk = 0, up_short = 0, up_send = demo_send False\<rparr> #
       replicate 2 \<lparr>up_beat = False, up_chunk = 0, up_short = 0, up_send = demo_send True\<rparr>)
      (0, \<lambda>_. \<lparr>wd_tokens = True, wd_send = demo_send False\<rparr>) [] (demo_keys ''server'') [9] neta =
      (Some (Inr ub, wb), Inr db, rb, \<lparr>app_bytes = [1, 2, 3], app_shut = True\<rparr>) \<and>
    neta = tx (x_conn (fw_tx wa)) \<and> netb = tx (x_conn (fw_tx wb)) \<and>
    pumped_bytes ua = 3 \<and> pumped_bytes db = 3 \<and> pumped_bytes ub = 1 \<and> pumped_bytes da = 1"
proof -
  let ?d = "\<lparr>up_beat = False, up_chunk = 0, up_short = 0, up_send = demo_send True\<rparr>"
  let ?b = "\<lparr>up_beat = True, up_chunk = 0, up_short = 0, up_send = demo_send False\<rparr>"
  let ?warm = "(0, \<lambda>_. \<lparr>wd_tokens = True, wd_send = demo_send False\<rparr>)"
  have ok: "upload_draws_ok (replicate 5 ?d) ?warm []" "upload_draws_ok (?b # replicate 2 ?d) ?warm []"
    by (simp_all add: upload_draws_ok_def demo_send_ok u64_max_def)
  have r: "length [1, 2, 3 :: u8] < upload_rounds frame_options_default (replicate 5 ?d) []"
    "length [9 :: u8] < upload_rounds frame_options_default (?b # replicate 2 ?d) []"
    by (simp_all add: upload_rounds_def is_stealth_def profile_is_stealth_def frame_options_default_def)
  show ?thesis
    using transport_transparent [OF demo_prims_ok default_options(1) demo_keys_ok(1,2,3,3) ok(1) r(1) _ ok(2) r(2)]
    by (simp add: u64_max_def numeral_3_eq_3)
qed

section \<open>The delays of the stealth shaper\<close>

lemma clamp_bounds: "lo \<le> hi \<Longrightarrow> lo \<le> clamp x lo hi \<and> clamp x lo hi \<le> hi"
  by (simp add: clamp_def)

lemma shaped_delay_within:
  assumes "lower \<le> upper" "upper < 2 ^ 63"
  shows "(if lower = upper then lower
     else case noise of NoiseOff \<Rightarrow> (lower + upper) mod 2 ^ 64 div 2 | Uniform \<Rightarrow> gen_range lower upper draw | Poisson \<Rightarrow> clamp sampled lower upper)
     \<in> {lower..upper}"
  using assms gen_range_bounds [OF assms(1), of draw] clamp_bounds [OF assms(1), of sampled]
  by (auto split: StealthIdleNoise.splits)

lemma shaped_range_bounds:
  assumes "1 \<le> o_stealth_min_delay_ms o'" "o_stealth_min_delay_ms o' \<le> o_stealth_max_delay_ms o'"
    and "o_stealth_max_delay_ms o' \<le> o_stealth_idle_max_delay_ms o'" "o_stealth_idle_max_delay_ms o' < 2 ^ 63"
  obtains lower upper where "shaped_range o' n = (lower, upper)" "o_stealth_min_delay_ms o' \<le> lower"
    "lower \<le> upper" "upper \<le> o_stealth_idle_max_delay_ms o'"
proof -
  let ?mn = "o_stealth_min_delay_ms o'" and ?mx = "o_stealth_max_delay_ms o'" and ?im = "o_stealth_idle_max_delay_ms o'"
  have mx: "max ?mn 1 = ?mn" "max ?mx ?mn = ?mx" "max ?im ?mx = ?im" using assms(1-3) by simp_all
  have im: "?im \<le> u64_max" using assms(4) by (simp add: u64_max_def)
  have grows: "?mn \<le> min (sat_mul_u64 ?mn m) ?im" if "1 \<le> m" for m
    using that assms(2,3) im mult_le_mono2 [OF that, of ?mn] by (auto simp: sat_mul_u64_def)
  define m :: nat where "m = (if n div STEALTH_IDLE_DECAY_FRAMES = 0 then 1 else if n div STEALTH_IDLE_DECAY_FRAMES = 1 then 2
    else if n div STEALTH_IDLE_DECAY_FRAMES = 2 then 5 else 10)"
  have m: "1 \<le> m" by (simp add: m_def)
  have eq: "shaped_range o' n = (case o_stealth_shaper_mode o' of
      SWeb \<Rightarrow> (min (sat_mul_u64 ?mn m) ?im, max (min (sat_mul_u64 ?mx m) ?im) (min (sat_mul_u64 ?mn m) ?im))
    | _ \<Rightarrow> (?mn, max ?mx ?mn))"
    by (cases "o_stealth_shaper_mode o'")
      (simp_all only: shaped_range_def Let_def mx m_def prod.case StealthShaperMode.case)
  show ?thesis
  proof (cases "o_stealth_shaper_mode o' = SWeb")
    case True
    with eq show ?thesis by (intro that) (simp_all only: StealthShaperMode.case, use grows [OF m] in simp_all)
  next
    case False
    with eq mx(2) have "shaped_range o' n = (?mn, ?mx)" by (cases "o_stealth_shaper_mode o'") simp_all
    then show ?thesis by (rule that [OF _ order_refl assms(2,3)])
  qed
qed

lemma stealth_shaped_delay_bounds:
  assumes "1 \<le> o_stealth_min_delay_ms o'" "o_stealth_min_delay_ms o' \<le> o_stealth_max_delay_ms o'"
    and "o_stealth_max_delay_ms o' \<le> o_stealth_idle_max_delay_ms o'" "o_stealth_idle_max_delay_ms o' < 2 ^ 63"
  shows "o_stealth_min_delay_ms o' \<le> stealth_shaped_tick_delay o' n draw sampled \<and>
    stealth_shaped_tick_delay o' n draw sampled \<le> o_stealth_idle_max_delay_ms o'"
proof -
  obtain lower upper where lu: "shaped_range o' n = (lower, upper)" "o_stealth_min_delay_ms o' \<le> lower"
    "lower \<le> upper" "upper \<le> o_stealth_idle_max_delay_ms o'"
    by (rule shaped_range_bounds [OF assms])
  have "upper < 2 ^ 63" using lu(4) assms(4) by (rule le_less_trans)
  from shaped_delay_within [OF lu(3) this, where noise = "o_stealth_idle_noise o'" and draw = draw and sampled = sampled] lu(2,4) show ?thesis
    by (simp add: stealth_shaped_tick_delay_def lu(1))
qed

lemma stealth_plain_delay_bounds:
  assumes "\<not> o_stealth_shaper_enabled o'"
  shows "1 \<le> stealth_tick_delay o' n draw sampled \<and> stealth_tick_delay o' n draw sampled \<le> 1250"
proof -
  define target where "target = min (sat_mul_u64 (max (o_stealth_tick_ms o') 1)
    (let n = n div STEALTH_IDLE_DECAY_FRAMES in if n = 0 then 1 else if n = 1 then 4 else if n = 2 then 10 else 20)) 1000"
  let ?lo = "max (sat_mul_u64 target 3 div 4) 1" and ?hi = "max (sat_mul_u64 target 5 div 4) (max (sat_mul_u64 target 3 div 4) 1)"
  have t: "target \<le> 1000" by (simp add: target_def)
  then have "target * 5 div 4 \<le> 1250" "target * 3 div 4 \<le> 1250" by presburger+
  with t have hi: "?hi \<le> 1250" by (simp add: sat_mul_u64_def u64_max_def)
  have "stealth_tick_delay o' n draw sampled = gen_range ?lo ?hi draw"
    by (simp only: stealth_tick_delay_def target_def Let_def assms if_False)
  moreover have "?lo \<le> ?hi" "1 \<le> ?lo" by simp_all
  ultimately show ?thesis using gen_range_bounds [of ?lo ?hi draw] hi by linarith
qed

lemma pre_write_delay_bound: "stealth_pre_write_delay o' draw \<le> 10"
proof -
  let ?hi = "clamp ((if o_stealth_shaper_enabled o' then o_stealth_min_delay_ms o' else o_stealth_tick_ms o') div 5) 1 10"
  have "?hi \<le> 10" by (simp add: clamp_def)
  with gen_range_bounds [of 0 ?hi draw] show ?thesis by (simp add: stealth_pre_write_delay_def Let_def)
qed

section \<open>The copy between two streams\<close>

text \<open>
  What the copy relies on from its meter: \<open>left m\<close> is how many more bytes the meter will admit, and
  an admitted charge comes off it.
\<close>

locale copy_meter =
  fixes account :: "nat \<Rightarrow> 'm \<Rightarrow> unit result \<times> 'm"
    and left :: "'m \<Rightarrow> enat"
    and meter_ok :: "'m \<Rightarrow> bool"
  assumes account_admits: "meter_ok m \<Longrightarrow> account n m = (Inr (), m') \<Longrightarrow> meter_ok m' \<and> enat n + left m' \<le> left m"
    and account_refuses: "meter_ok m \<Longrightarrow> account n m = (Inl e, m') \<Longrightarrow> meter_ok m' \<and> left m' \<le> left m"
begin

definition relayed :: "'m Relay \<Rightarrow> nat" where
  "relayed s = length (r_written s SideA) + length (r_written s SideB)"

lemma opposite_sum: "f (opposite x) + f x = f SideA + (f SideB :: nat)"
  by (cases x) (simp_all add: opposite_def)

lemma relayed_grows:
  "relayed (s\<lparr>r_written := (r_written s)(y := r_written s y @ bs)\<rparr>) = relayed s + length bs"
  by (cases y) (simp_all add: relayed_def)

lemma relay_step_charged:
  assumes "meter_ok (r_meter s)" "relay_step account e s = (res, s')"
  shows "meter_ok (r_meter s') \<and> enat (relayed s') + left (r_meter s') \<le> enat (relayed s) + left (r_meter s)"
proof (cases "\<exists>bs. ce_read e = ReadData bs \<and> \<not> r_done s (ce_side e)")
  case False
  with assms show ?thesis
    by (auto simp: relay_step_def relayed_def Let_def split: if_splits read_outcome.splits)
next
  case True
  then obtain bs where bs: "ce_read e = ReadData bs" "\<not> r_done s (ce_side e)" by blast
  obtain a m where am: "account (length bs) (r_meter s) = (a, m)" by force
  let ?t = "s\<lparr>r_read := (r_read s)(ce_side e := r_read s (ce_side e) @ bs), r_meter := m,
    r_total := (r_total s)(ce_side e := r_total s (ce_side e) + of_nat (length bs))\<rparr>"
  show ?thesis
  proof (cases a)
    case (Inl err)
    with bs am assms account_refuses [of "r_meter s" "length bs" err m] show ?thesis
      by (auto simp: relay_step_def relayed_def Let_def add_left_mono)
  next
    case (Inr u)
    with am assms(1) have ok: "meter_ok m" "enat (length bs) + left m \<le> left (r_meter s)"
      using account_admits [of "r_meter s" "length bs" m] by auto
    obtain k where s': "relayed s' = relayed s + k" "k \<le> length bs" "r_meter s' = m"
    proof (cases "ce_write_fails e")
      case None
      with bs am Inr assms(2) have "s' = ?t\<lparr>r_written := (r_written ?t)(opposite (ce_side e) := r_written ?t (opposite (ce_side e)) @ bs)\<rparr>"
        by (simp add: relay_step_def Let_def)
      with relayed_grows [of ?t "opposite (ce_side e)" bs] show ?thesis by (intro that [of "length bs"]) (simp_all add: relayed_def)
    next
      case (Some j)
      with bs am Inr assms(2) have "s' = ?t\<lparr>r_written := (r_written ?t)(opposite (ce_side e) := r_written ?t (opposite (ce_side e)) @ take j bs)\<rparr>"
        by (simp add: relay_step_def Let_def)
      with relayed_grows [of ?t "opposite (ce_side e)" "take j bs"] show ?thesis
        by (intro that [of "length (take j bs)"]) (simp_all add: relayed_def)
    qed
    have "enat (relayed s') + left m \<le> enat (relayed s) + (enat (length bs) + left m)"
      using s'(2) by (simp add: s'(1) add_right_mono flip: add.assoc plus_enat_simps)
    also have "\<dots> \<le> enat (relayed s) + left (r_meter s)" using ok(2) by (rule add_left_mono)
    finally show ?thesis using ok(1) s'(3) by simp
  qed
qed

lemma relay_charged:
  "meter_ok (r_meter s) \<Longrightarrow> metered_idle_copy_bidirectional account es s = (res, s') \<Longrightarrow>
     meter_ok (r_meter s') \<and> enat (relayed s') + left (r_meter s') \<le> enat (relayed s) + left (r_meter s)"
proof (induction es arbitrary: s)
  case (Cons e es)
  obtain r t where rt: "relay_step account e s = (r, t)" by force
  note step = relay_step_charged [OF Cons.prems(1) rt]
  show ?case
  proof (cases r)
    case None
    with Cons.IH [of t] Cons.prems(2) rt step show ?thesis by (auto intro: order_trans)
  next
    case (Some x)
    with Cons.prems(2) rt step show ?thesis by simp
  qed
qed simp

lemma relay_within:
  assumes "meter_ok m" "metered_idle_copy_bidirectional account es (relay_new m) = (res, s)"
  shows "enat (length (r_written s SideA) + length (r_written s SideB)) \<le> left m"
proof -
  have "enat (relayed s) + left (r_meter s) \<le> enat (relayed (relay_new m)) + left m"
    using relay_charged [of "relay_new m" es res s] assms by (simp add: relay_new_def)
  then have "enat (relayed s) \<le> left m"
    by (simp add: relayed_def relay_new_def zero_enat_def [symmetric]) (metis add_increasing2 order_refl order_trans zero_le)
  then show ?thesis by (simp add: relayed_def)
qed

end

interpretation noop_meter: copy_meter noop_account "\<lambda>_. \<infinity>" "\<lambda>_. True"
  by unfold_locales (simp_all add: noop_account_def)

text \<open>While the copy runs, each side has been sent exactly what was read from the other one.\<close>

definition copied_all :: "'m Relay \<Rightarrow> bool" where
  "copied_all s \<longleftrightarrow> (\<forall>x. r_written s (opposite x) = r_read s x \<and> r_total s x = of_nat (length (r_read s x)))"

definition copied_prefix :: "'m Relay \<Rightarrow> bool" where
  "copied_prefix s \<longleftrightarrow> (\<forall>x. prefix (r_written s (opposite x)) (r_read s x))"

lemma opposite_simps [simp]: "opposite SideA = SideB" "opposite SideB = SideA" "opposite (opposite x) = x" "opposite x \<noteq> x" "x \<noteq> opposite x"
  by (cases x; simp add: opposite_def)+

lemma opposite_eq [simp]: "opposite x = opposite y \<longleftrightarrow> x = y"
  by (metis opposite_simps(3))

lemma copied_all_prefix: "copied_all s \<Longrightarrow> copied_prefix s"
  by (simp add: copied_all_def copied_prefix_def)

lemma relay_step_copies:
  assumes "copied_all s" "relay_step account e s = (res, s')"
  shows "case res of
     None \<Rightarrow> copied_all s'
   | Some (Inr (a, b)) \<Rightarrow> copied_all s' \<and> a = r_total s' SideA \<and> b = r_total s' SideB
   | Some (Inl err) \<Rightarrow> copied_prefix s'"
proof (cases "\<exists>bs. ce_read e = ReadData bs \<and> \<not> r_done s (ce_side e)")
  case False
  with assms copied_all_prefix [OF assms(1)] show ?thesis
    by (auto simp: relay_step_def copied_all_def Let_def split: if_splits read_outcome.splits)
next
  case True
  then obtain bs where bs: "ce_read e = ReadData bs" "\<not> r_done s (ce_side e)" by blast
  obtain a m where am: "account (length bs) (r_meter s) = (a, m)" by force
  have a: "r_written s (opposite x) = r_read s x" "r_total s x = of_nat (length (r_read s x))" for x
    using assms(1) by (simp_all add: copied_all_def)
  from bs am assms(2) a show ?thesis
    by (cases a; cases "ce_write_fails e")
      (auto simp: relay_step_def Let_def copied_all_def copied_prefix_def take_is_prefix)
qed

lemma relay_copies:
  "copied_all s \<Longrightarrow> metered_idle_copy_bidirectional account es s = (res, s') \<Longrightarrow>
    (case res of
       None \<Rightarrow> copied_all s'
     | Some (Inr (a, b)) \<Rightarrow> copied_all s' \<and> a = r_total s' SideA \<and> b = r_total s' SideB
     | Some (Inl err) \<Rightarrow> copied_prefix s')"
proof (induction es arbitrary: s)
  case (Cons e es)
  obtain r t where rt: "relay_step account e s = (r, t)" by force
  note step = relay_step_copies [OF Cons.prems(1) rt]
  show ?case
  proof (cases r)
    case None
    with Cons.IH [of t] Cons.prems(2) rt step show ?thesis by simp
  next
    case (Some x)
    with Cons.prems(2) rt step show ?thesis by auto
  qed
qed simp

lemma copied_all_new: "copied_all (relay_new m)"
  by (simp add: copied_all_def relay_new_def)

definition ends :: "side \<Rightarrow> copy_event list \<Rightarrow> bool" where
  "ends x es = list_ex (\<lambda>e. ce_side e = x \<and> (case ce_read e of ReadData _ \<Rightarrow> False | _ \<Rightarrow> True)) es"

definition half_done :: "copy_event list \<Rightarrow> 'm Relay \<Rightarrow> bool" where
  "half_done es s \<longleftrightarrow> (\<forall>x. r_done s x \<or> ends x es) \<and> \<not> (r_done s SideA \<and> r_done s SideB)"

lemma half_done_iff: "\<not> (r_done s SideA \<and> r_done s SideB) \<longleftrightarrow> \<not> (r_done s x \<and> r_done s (opposite x))"
  by (cases x) auto

lemma relay_step_half_done:
  assumes "half_done (e # es) s" "relay_step account e s = (None, s')"
  shows "half_done es s'"
proof -
  let ?x = "ce_side e"
  have d: "\<not> (r_done s ?x \<and> r_done s (opposite ?x))" and en: "r_done s x \<or> ends x (e # es)" for x
    using assms(1) half_done_iff [of s ?x] unfolding half_done_def by blast+
  have "(\<forall>x. r_done s' x \<or> ends x es) \<and> \<not> (r_done s' ?x \<and> r_done s' (opposite ?x))"
  proof (cases "r_done s ?x")
    case True
    with assms(2) have "s' = s" by (simp add: relay_step_def)
    with d en True show ?thesis by (auto simp: ends_def)
  next
    case False
    show ?thesis
    proof (cases "ce_read e")
      case (ReadData bs)
      with assms(2) False have "r_done s' = r_done s"
        by (auto simp: relay_step_def Let_def split: prod.splits sum.splits option.splits)
      with d en ReadData show ?thesis by (auto simp: ends_def)
    qed (use assms(2) False d en in \<open>auto simp: relay_step_def Let_def ends_def split: if_splits\<close>, metis+)
  qed
  then show ?thesis using half_done_iff [of s' ?x] unfolding half_done_def by blast
qed

lemma relay_ends: "half_done es s \<Longrightarrow> fst (metered_idle_copy_bidirectional account es s) \<noteq> None"
proof (induction es arbitrary: s)
  case Nil
  then show ?case by (auto simp: half_done_def ends_def)
next
  case (Cons e es)
  obtain r t where rt: "relay_step account e s = (r, t)" by force
  show ?case
  proof (cases r)
    case None
    with Cons.IH [OF relay_step_half_done [OF Cons.prems]] rt show ?thesis by simp
  qed (simp add: rt)
qed

text \<open>
  C34: the copy between two streams is faithful, whatever the meter does. If it ends well, each side was
  sent exactly the bytes that were read from the other one, and the totals it returns are their
  numbers; if it ends in an error, each side was sent an initial segment of them; and it ends once
  both sides have ended or been idle for too long.
\<close>

theorem relay_faithful:
  "(case metered_idle_copy_bidirectional account es (relay_new m) of
      (Some (Inr (a, b)), s) \<Rightarrow>
        r_written s SideB = r_read s SideA \<and> r_written s SideA = r_read s SideB \<and>
        a = of_nat (length (r_read s SideA)) \<and> b = of_nat (length (r_read s SideB))
    | (Some (Inl err), s) \<Rightarrow> prefix (r_written s SideB) (r_read s SideA) \<and> prefix (r_written s SideA) (r_read s SideB)
    | (None, s) \<Rightarrow> r_written s SideB = r_read s SideA \<and> r_written s SideA = r_read s SideB) \<and>
   (ends SideA es \<and> ends SideB es \<longrightarrow> fst (metered_idle_copy_bidirectional account es (relay_new m)) \<noteq> None)"
proof -
  obtain res s where rs: "metered_idle_copy_bidirectional account es (relay_new m) = (res, s)" by force
  have "half_done es (relay_new m)" if "ends SideA es" "ends SideB es"
    using that by (auto simp: half_done_def relay_new_def) (metis side.exhaust)
  then have "ends SideA es \<and> ends SideB es \<longrightarrow> fst (metered_idle_copy_bidirectional account es (relay_new m)) \<noteq> None"
    using relay_ends by blast
  with relay_copies [OF copied_all_new rs] show ?thesis unfolding rs
    by (auto simp: copied_all_def copied_prefix_def split: option.splits sum.splits)
      (metis opposite_simps(1,2))+
qed

theorem relay_faithful_witness:
  "case idle_copy_bidirectional
     [\<lparr>ce_side = SideA, ce_read = ReadData [1, 2], ce_write_fails = None\<rparr>,
      \<lparr>ce_side = SideB, ce_read = ReadData [3], ce_write_fails = None\<rparr>,
      \<lparr>ce_side = SideA, ce_read = ReadEof, ce_write_fails = None\<rparr>,
      \<lparr>ce_side = SideB, ce_read = ReadIdle, ce_write_fails = None\<rparr>] of
     (res, s) \<Rightarrow> res = Some (Inr (2, 1)) \<and> r_written s SideB = [1, 2] \<and> r_written s SideA = [3]"
  using relay_faithful [of noop_account
     "[\<lparr>ce_side = SideA, ce_read = ReadData [1, 2], ce_write_fails = None\<rparr>,
      \<lparr>ce_side = SideB, ce_read = ReadData [3], ce_write_fails = None\<rparr>,
      \<lparr>ce_side = SideA, ce_read = ReadEof, ce_write_fails = None\<rparr>,
      \<lparr>ce_side = SideB, ce_read = ReadIdle, ce_write_fails = None\<rparr>]" "()"]
  by (simp add: idle_copy_bidirectional_def relay_step_def relay_new_def noop_account_def ends_def Let_def)

end
