(* ===== verification/Esp_Limits.thy ===== *)
theory Esp_Limits
  imports Esp_Transport_Props
begin

text \<open>
  The per-user limits of the server (\<^verbatim>\<open>limits.rs\<close>) and the relay that is metered by them
  (\<^verbatim>\<open>limited_copy_bidirectional\<close> of \<^verbatim>\<open>relay.rs\<close>). The readings of the clock that an operation makes are a
  record; the duration that the floating-point quotient of bytes and rate gives is the parameter
  \<open>secs\<close>. The registry's lock makes its operations atomic, so concurrent streams are a sequence of operations.
\<close>

section \<open>The registry\<close>

record UserLimitConfig =
  quota_bytes :: "nat option"
  quota_window :: nat
  bandwidth_bytes_per_sec :: "nat option"

definition limit_config_default :: UserLimitConfig where
  "limit_config_default = \<lparr>quota_bytes = None, quota_window = 0, bandwidth_bytes_per_sec = None\<rparr>"

record UserLimitState =
  l_config :: UserLimitConfig
  l_window_started :: nat
  l_used_bytes :: nat
  l_next_send :: nat

type_synonym UserLimitRegistry = "string \<rightharpoonup> UserLimitState"

definition registry_new :: "nat \<Rightarrow> (string \<times> UserLimitConfig) list \<Rightarrow> UserLimitRegistry" where
  "registry_new now configs =
     fold (\<lambda>(user, config) states. states(user \<mapsto>
        \<lparr>l_config = config, l_window_started = now, l_used_bytes = 0, l_next_send = now\<rparr>)) configs Map.empty"

record limit_clock =
  lc_insert :: "nat \<times> nat"
  lc_refresh :: nat
  lc_send :: nat
  lc_wake :: nat

definition state_for_user :: "limit_clock \<Rightarrow> string \<Rightarrow> UserLimitRegistry \<Rightarrow> UserLimitState" where
  "state_for_user c user states =
     (case states user of
        Some state \<Rightarrow> state
      | None \<Rightarrow> \<lparr>l_config = limit_config_default, l_window_started = fst (lc_insert c), l_used_bytes = 0,
                 l_next_send = snd (lc_insert c)\<rparr>)"

definition refresh_window :: "nat \<Rightarrow> UserLimitState \<Rightarrow> UserLimitState" where
  "refresh_window now state =
     (if quota_bytes (l_config state) \<noteq> None \<and> quota_window (l_config state) \<noteq> 0 \<and>
         now - l_window_started state \<ge> quota_window (l_config state)
      then state\<lparr>l_window_started := now, l_used_bytes := 0\<rparr>
      else state)"

definition ensure_open :: "limit_clock \<Rightarrow> string \<Rightarrow> UserLimitRegistry \<Rightarrow> unit result \<times> UserLimitRegistry" where
  "ensure_open c user states =
     (let state = refresh_window (lc_refresh c) (state_for_user c user states) in
      (case quota_bytes (l_config state) of
         Some limit \<Rightarrow> if l_used_bytes state \<ge> limit then Inl (Bail ''user quota exceeded'') else Inr ()
       | None \<Rightarrow> Inr (),
       states(user \<mapsto> state)))"

text \<open>Charging the quota: \<open>None\<close> if the bytes do not fit.\<close>

definition charge_quota :: "nat \<Rightarrow> UserLimitState \<Rightarrow> UserLimitState option" where
  "charge_quota n state =
     (case quota_bytes (l_config state) of
        None \<Rightarrow> Some state
      | Some limit \<Rightarrow>
          let next = sat_add_u64 (l_used_bytes state) n in
          if next > limit then None else Some (state\<lparr>l_used_bytes := next\<rparr>))"

text \<open>Reserving a slot in the user's bandwidth: when the sender may go on, and the new state.\<close>

definition reserve_slot :: "(nat \<Rightarrow> nat \<Rightarrow> nat) \<Rightarrow> nat \<Rightarrow> nat \<Rightarrow> UserLimitState \<Rightarrow> nat option \<times> UserLimitState" where
  "reserve_slot secs now n state =
     (case bandwidth_bytes_per_sec (l_config state) of
        None \<Rightarrow> (None, state)
      | Some rate \<Rightarrow>
          let wake = (if l_next_send state < now then now else l_next_send state)
          in (Some wake, state\<lparr>l_next_send := wake + secs n rate\<rparr>))"

text \<open>The result is how long the call sleeps.\<close>

definition account_and_throttle ::
  "(nat \<Rightarrow> nat \<Rightarrow> nat) \<Rightarrow> limit_clock \<Rightarrow> string \<Rightarrow> nat \<Rightarrow> UserLimitRegistry \<Rightarrow> nat result \<times> UserLimitRegistry"
where
  "account_and_throttle secs c user n states =
     (if n = 0 then (Inr 0, states)
      else
        let state = refresh_window (lc_refresh c) (state_for_user c user states) in
        (case charge_quota n state of
           None \<Rightarrow> (Inl (Bail ''user quota exceeded''), states(user \<mapsto> state))
         | Some state \<Rightarrow>
             (case reserve_slot secs (lc_send c) n state of
                (wake, state) \<Rightarrow>
                  (Inr (case wake of None \<Rightarrow> 0 | Some wake \<Rightarrow> wake - lc_wake c), states(user \<mapsto> state)))))"

section \<open>The metered relay\<close>

datatype limit_op = EnsureOpen limit_clock string | Account limit_clock string nat

text \<open>One operation of any stream on the shared registry.\<close>

fun limit_step :: "(nat \<Rightarrow> nat \<Rightarrow> nat) \<Rightarrow> limit_op \<Rightarrow> UserLimitRegistry \<Rightarrow> UserLimitRegistry" where
  "limit_step secs (EnsureOpen c user) states = snd (ensure_open c user states)"
| "limit_step secs (Account c user n) states = snd (account_and_throttle secs c user n states)"

text \<open>
  \<^verbatim>\<open>UserLimitMeter\<close>: before the meter's \<open>k\<close>-th call the other streams have done the operations
  \<open>fst (script k)\<close>; the call itself reads the clock \<open>snd (script k)\<close>.
\<close>

record UserLimitMeter =
  lm_limits :: UserLimitRegistry
  lm_calls :: nat

definition user_limit_account ::
  "(nat \<Rightarrow> nat \<Rightarrow> nat) \<Rightarrow> string \<Rightarrow> (nat \<Rightarrow> limit_op list \<times> limit_clock) \<Rightarrow> nat \<Rightarrow> UserLimitMeter \<Rightarrow> unit result \<times> UserLimitMeter"
where
  "user_limit_account secs user script n m =
     (case script (lm_calls m) of
        (others, c) \<Rightarrow>
          (case account_and_throttle secs c user n (fold (limit_step secs) others (lm_limits m)) of
             (r, limits) \<Rightarrow> (map_sum id (\<lambda>_. ()) r, \<lparr>lm_limits = limits, lm_calls = Suc (lm_calls m)\<rparr>)))"

definition limited_copy_bidirectional ::
  "(nat \<Rightarrow> nat \<Rightarrow> nat) \<Rightarrow> string \<Rightarrow> (nat \<Rightarrow> limit_op list \<times> limit_clock) \<Rightarrow> copy_event list \<Rightarrow> UserLimitRegistry
    \<Rightarrow> (u64 \<times> u64) result option \<times> UserLimitMeter Relay"
where
  "limited_copy_bidirectional secs user script es limits =
     metered_idle_copy_bidirectional (user_limit_account secs user script) es
       (relay_new \<lparr>lm_limits = limits, lm_calls = 0\<rparr>)"

section \<open>What is left of a quota\<close>

text \<open>
  How many bytes a user can still be charged up to the time \<open>T\<close>: what is left in the current window,
  and a whole quota for every window that can start by then. A quota of \<open>u64::MAX\<close> never refuses.
\<close>

definition state_left :: "nat \<Rightarrow> UserLimitState \<Rightarrow> enat" where
  "state_left T state =
     (case quota_bytes (l_config state) of
        None \<Rightarrow> \<infinity>
      | Some q \<Rightarrow>
          if q \<ge> u64_max then \<infinity>
          else if quota_window (l_config state) = 0 then enat (q - l_used_bytes state)
          else enat (q - l_used_bytes state + q * ((T - l_window_started state) div quota_window (l_config state))))"

definition user_left :: "nat \<Rightarrow> string \<Rightarrow> UserLimitRegistry \<Rightarrow> enat" where
  "user_left T user states = (case states user of None \<Rightarrow> \<infinity> | Some state \<Rightarrow> state_left T state)"

lemma windows_left:
  assumes "(0::nat) < W" "W \<le> now - ws" "now \<le> T"
  shows "Suc ((T - now) div W) \<le> (T - ws) div W"
proof -
  from assms have "(T - now) + W \<le> T - ws" by linarith
  then have "((T - now) + W) div W \<le> (T - ws) div W" by (rule div_le_mono)
  with assms(1) show ?thesis by simp
qed

lemma refresh_left:
  assumes "now \<le> T"
  shows "state_left T (refresh_window now s) \<le> state_left T s"
proof (cases "refresh_window now s = s")
  case False
  then obtain q where q: "quota_bytes (l_config s) = Some q" and W: "0 < quota_window (l_config s)"
      "quota_window (l_config s) \<le> now - l_window_started s"
    and eq: "refresh_window now s = s\<lparr>l_window_started := now, l_used_bytes := 0\<rparr>"
    by (auto simp: refresh_window_def split: if_splits)
  have "q * Suc ((T - now) div quota_window (l_config s)) \<le> q * ((T - l_window_started s) div quota_window (l_config s))"
    by (rule mult_le_mono2 [OF windows_left [OF W assms]])
  with q W(1) show ?thesis unfolding eq by (simp add: state_left_def)
qed simp

lemma state_for_user_left: "state_left T (state_for_user c user states) = user_left T user states"
  by (simp add: user_left_def state_for_user_def state_left_def limit_config_default_def split: option.splits)

lemma charge_left: "charge_quota n s = Some s' \<Longrightarrow> enat n + state_left T s' \<le> state_left T s"
  by (auto simp: charge_quota_def state_left_def sat_add_u64_def Let_def split: option.splits if_splits)

lemma reserve_left: "state_left T (snd (reserve_slot secs now n s)) = state_left T s"
  by (simp add: reserve_slot_def state_left_def Let_def split: option.splits)

lemma account_left:
  assumes "account_and_throttle secs c user n states = (r, states')" "lc_refresh c \<le> T"
  shows "(case r of Inr _ \<Rightarrow> enat n + user_left T user states' | Inl _ \<Rightarrow> user_left T user states') \<le> user_left T user states"
proof (cases "n = 0")
  case True
  with assms(1) show ?thesis by (auto simp: account_and_throttle_def zero_enat_def [symmetric])
next
  case False
  let ?s = "refresh_window (lc_refresh c) (state_for_user c user states)"
  have s: "state_left T ?s \<le> user_left T user states"
    using refresh_left [OF assms(2)] by (simp flip: state_for_user_left [of T c])
  show ?thesis
  proof (cases "charge_quota n ?s")
    case None
    with False assms(1) s show ?thesis by (auto simp: account_and_throttle_def user_left_def)
  next
    case (Some s')
    obtain w s'' where ws: "reserve_slot secs (lc_send c) n s' = (w, s'')" by force
    with Some False assms(1) have "r = Inr (case w of None \<Rightarrow> 0 | Some wake \<Rightarrow> wake - lc_wake c)" "states' = states(user \<mapsto> s'')"
      by (auto simp: account_and_throttle_def)
    with charge_left [OF Some, of T] reserve_left [of T secs "lc_send c" n s'] ws s show ?thesis
      by (auto simp: user_left_def intro: order_trans)
  qed
qed

lemma other_user: "user \<noteq> u \<Longrightarrow> user_left T u (snd (account_and_throttle secs c user n states)) = user_left T u states"
  "user \<noteq> u \<Longrightarrow> user_left T u (snd (ensure_open c user states)) = user_left T u states"
  by (auto simp: account_and_throttle_def ensure_open_def user_left_def Let_def split: option.splits prod.splits)

lemma ensure_open_left: "lc_refresh c \<le> T \<Longrightarrow> user_left T user (snd (ensure_open c user states)) \<le> user_left T user states"
  using refresh_left [of "lc_refresh c" T "state_for_user c user states"]
  by (simp add: ensure_open_def Let_def state_for_user_left) (simp add: user_left_def)

definition limit_op_by :: "nat \<Rightarrow> limit_op \<Rightarrow> bool" where
  "limit_op_by T x = (case x of EnsureOpen c _ \<Rightarrow> lc_refresh c \<le> T | Account c _ _ \<Rightarrow> lc_refresh c \<le> T)"

text \<open>The bytes an operation admits for a user.\<close>

fun admitted :: "(nat \<Rightarrow> nat \<Rightarrow> nat) \<Rightarrow> string \<Rightarrow> limit_op \<Rightarrow> UserLimitRegistry \<Rightarrow> nat" where
  "admitted secs u (EnsureOpen c user) states = 0"
| "admitted secs u (Account c user n) states =
     (if user = u \<and> \<not> isl (fst (account_and_throttle secs c user n states)) then n else 0)"

fun admitted_all :: "(nat \<Rightarrow> nat \<Rightarrow> nat) \<Rightarrow> string \<Rightarrow> limit_op list \<Rightarrow> UserLimitRegistry \<Rightarrow> nat" where
  "admitted_all secs u [] states = 0"
| "admitted_all secs u (x # xs) states = admitted secs u x states + admitted_all secs u xs (limit_step secs x states)"

lemma limit_step_left:
  assumes "limit_op_by T x"
  shows "enat (admitted secs u x states) + user_left T u (limit_step secs x states) \<le> user_left T u states"
proof (cases x)
  case (EnsureOpen c user)
  with assms ensure_open_left [of c T user states] other_user(2) [of user u T c states] show ?thesis
    by (cases "user = u") (auto simp: limit_op_by_def zero_enat_def [symmetric])
next
  case (Account c user n)
  obtain r states' where rs: "account_and_throttle secs c user n states = (r, states')" by force
  with assms Account account_left [OF rs, of T] other_user(1) [of user u T secs c n states] show ?thesis
    by (cases "user = u"; cases r) (auto simp: limit_op_by_def zero_enat_def [symmetric])
qed

lemma admitted_all_left:
  "\<forall>x \<in> set xs. limit_op_by T x \<Longrightarrow> enat (admitted_all secs u xs states) + user_left T u (fold (limit_step secs) xs states) \<le> user_left T u states"
proof (induction xs arbitrary: states)
  case (Cons x xs)
  let ?s = "limit_step secs x states"
  have "enat (admitted_all secs u xs ?s) + user_left T u (fold (limit_step secs) xs ?s) \<le> user_left T u ?s"
    using Cons by simp
  then have "enat (admitted secs u x states) + (enat (admitted_all secs u xs ?s) + user_left T u (fold (limit_step secs) xs ?s)) \<le> user_left T u states"
    using limit_step_left [of T x secs u states] Cons.prems by (meson add_left_mono list.set_intros(1) order_trans)
  then show ?case by (simp add: add.assoc flip: plus_enat_simps(1))
qed (simp add: zero_enat_def [symmetric])

lemma others_left: "\<forall>x \<in> set xs. limit_op_by T x \<Longrightarrow> user_left T u (fold (limit_step secs) xs states) \<le> user_left T u states"
  using admitted_all_left [of xs T secs u states] by (metis add_increasing order_refl order_trans zero_le)

definition script_by :: "nat \<Rightarrow> (nat \<Rightarrow> limit_op list \<times> limit_clock) \<Rightarrow> bool" where
  "script_by T script \<longleftrightarrow> (\<forall>k. (\<forall>x \<in> set (fst (script k)). limit_op_by T x) \<and> lc_refresh (snd (script k)) \<le> T)"

lemma user_limit_account_left:
  assumes "script_by T script" "user_limit_account secs user script n m = (r, m')"
  shows "(case r of Inr _ \<Rightarrow> enat n + user_left T user (lm_limits m') | Inl _ \<Rightarrow> user_left T user (lm_limits m')) \<le> user_left T user (lm_limits m)"
proof -
  obtain others c where sc: "script (lm_calls m) = (others, c)" by force
  with assms(1) have ok: "\<forall>x \<in> set others. limit_op_by T x" "lc_refresh c \<le> T"
    unfolding script_by_def by (metis fst_conv snd_conv)+
  obtain r' limits where rl: "account_and_throttle secs c user n (fold (limit_step secs) others (lm_limits m)) = (r', limits)" by force
  from assms(2) sc rl have "r = map_sum id (\<lambda>_. ()) r'" "lm_limits m' = limits"
    by (auto simp: user_limit_account_def)
  with account_left [OF rl ok(2)] others_left [OF ok(1), of user secs "lm_limits m"] show ?thesis
    by (cases r') auto
qed

interpretation limit_meter: copy_meter "user_limit_account secs user script" "\<lambda>m. user_left T user (lm_limits m)" "\<lambda>_. script_by T script"
  for secs user script T
  by unfold_locales (use user_limit_account_left in force)+

section \<open>Bandwidth\<close>

text \<open>When the calls of one user, in the order in which they took the lock, may go on.\<close>

fun releases :: "(nat \<Rightarrow> nat \<Rightarrow> nat) \<Rightarrow> string \<Rightarrow> (limit_clock \<times> nat) list \<Rightarrow> UserLimitRegistry \<Rightarrow> nat result list" where
  "releases secs user [] states = []"
| "releases secs user ((c, n) # calls) states =
     (case account_and_throttle secs c user n states of
        (r, states') \<Rightarrow> map_sum id (\<lambda>slept. lc_wake c + slept) r # releases secs user calls states')"

lemma account_paces:
  assumes "states user = Some s" "quota_bytes (l_config s) = None" "bandwidth_bytes_per_sec (l_config s) = Some rate" "0 < n"
  shows "\<exists>slept s'. account_and_throttle secs c user n states = (Inr slept, states(user \<mapsto> s')) \<and>
    l_config s' = l_config s \<and> l_next_send s \<le> lc_wake c + slept \<and> l_next_send s + secs n rate \<le> l_next_send s'"
  using assms
  by (auto simp: account_and_throttle_def state_for_user_def refresh_window_def charge_quota_def reserve_slot_def Let_def)

lemma releases_paced:
  assumes "states user = Some s" "quota_bytes (l_config s) = None" "bandwidth_bytes_per_sec (l_config s) = Some rate"
    and "\<forall>(c, n) \<in> set calls. 0 < n" "i < length calls"
  shows "\<exists>t. releases secs user calls states ! i = Inr t \<and> l_next_send s + (\<Sum>(c, n) \<leftarrow> take i calls. secs n rate) \<le> t"
  using assms
proof (induction calls arbitrary: states s i)
  case (Cons x calls)
  obtain c n where x: "x = (c, n)" by force
  from account_paces [of states user s rate n secs c] Cons.prems(1-4) x obtain slept s' where
    a: "account_and_throttle secs c user n states = (Inr slept, states(user \<mapsto> s'))"
    "l_config s' = l_config s" "l_next_send s \<le> lc_wake c + slept" "l_next_send s + secs n rate \<le> l_next_send s'" by auto
  show ?case
  proof (cases i)
    case 0
    with x a show ?thesis by simp
  next
    case (Suc j)
    have "\<exists>t. releases secs user calls (states(user \<mapsto> s')) ! j = Inr t \<and> l_next_send s' + (\<Sum>(c, n) \<leftarrow> take j calls. secs n rate) \<le> t"
      by (rule Cons.IH) (use Cons.prems a(2) Suc in auto)
    then obtain t where t: "releases secs user calls (states(user \<mapsto> s')) ! j = Inr t"
      "l_next_send s' + (\<Sum>(c, n) \<leftarrow> take j calls. secs n rate) \<le> t" by blast
    with a(4) have "l_next_send s + (\<Sum>(c, n) \<leftarrow> take i (x # calls). secs n rate) \<le> t" by (simp add: Suc x)
    with t(1) a(1) x Suc show ?thesis by simp
  qed
qed simp

section \<open>Properties\<close>

text \<open>
  C11: a quota holds across all streams of a user. Whatever operations the streams of all users
  do on the registry in whatever order, the bytes admitted for a user up to the time \<open>T\<close> are at most
  what was left of the quota in the current window, and one quota for each window length that fits
  between the start of that window and \<open>T\<close>.
\<close>

theorem quota_never_exceeded:
  assumes "states user = Some s" "quota_bytes (l_config s) = Some q" "q < u64_max" "0 < quota_window (l_config s)"
    and "\<forall>x \<in> set ops. limit_op_by T x"
  shows "admitted_all secs user ops states \<le>
    (q - l_used_bytes s) + q * ((T - l_window_started s) div quota_window (l_config s))"
proof -
  have "enat (admitted_all secs user ops states) \<le> user_left T user states"
    using admitted_all_left [OF assms(5), of secs user states] by (metis add_increasing2 order_refl order_trans zero_le)
  with assms(1-4) show ?thesis by (simp add: user_left_def state_left_def)
qed

definition demo_limits :: UserLimitRegistry where
  "demo_limits = registry_new 100 [(''alice'', \<lparr>quota_bytes = Some 10, quota_window = 60, bandwidth_bytes_per_sec = Some 5\<rparr>)]"

definition demo_clock :: "nat \<Rightarrow> limit_clock" where
  "demo_clock t = \<lparr>lc_insert = (t, t), lc_refresh = t, lc_send = t, lc_wake = t\<rparr>"

theorem quota_never_exceeded_witness:
  "let ops = [Account (demo_clock 101) ''alice'' 6, Account (demo_clock 102) ''alice'' 5, Account (demo_clock 103) ''bob'' 99,
     EnsureOpen (demo_clock 104) ''alice'', Account (demo_clock 105) ''alice'' 4, Account (demo_clock 161) ''alice'' 9] in
   admitted_all (\<lambda>n r. n * 1000 div r) ''alice'' ops demo_limits = 19 \<and>
   admitted_all (\<lambda>n r. n * 1000 div r) ''alice'' ops demo_limits \<le> 10 - 0 + 10 * ((161 - 100) div 60)"
  using quota_never_exceeded [of demo_limits "''alice''"
    "\<lparr>l_config = \<lparr>quota_bytes = Some 10, quota_window = 60, bandwidth_bytes_per_sec = Some 5\<rparr>, l_window_started = 100, l_used_bytes = 0, l_next_send = 100\<rparr>" 10
    "[Account (demo_clock 101) ''alice'' 6, Account (demo_clock 102) ''alice'' 5, Account (demo_clock 103) ''bob'' 99,
     EnsureOpen (demo_clock 104) ''alice'', Account (demo_clock 105) ''alice'' 4, Account (demo_clock 161) ''alice'' 9]" 161 "\<lambda>n r. n * 1000 div r"]
  by (simp add: demo_limits_def demo_clock_def registry_new_def limit_op_by_def u64_max_def Let_def account_and_throttle_def
    state_for_user_def refresh_window_def charge_quota_def reserve_slot_def sat_add_u64_def ensure_open_def limit_config_default_def)

text \<open>
  C35: the metered relay keeps within the quota. Whatever the two streams deliver and whatever other streams do on
  the registry in between, the bytes it writes to both sides together up to the time \<open>T\<close> are within the
  same bound.
\<close>

theorem limited_relay_within_quota:
  assumes "limits user = Some s" "quota_bytes (l_config s) = Some q" "q < u64_max" "0 < quota_window (l_config s)"
    and "script_by T script" "limited_copy_bidirectional secs user script es limits = (res, r)"
  shows "length (r_written r SideA) + length (r_written r SideB) \<le>
    (q - l_used_bytes s) + q * ((T - l_window_started s) div quota_window (l_config s))"
  using limit_meter.relay_within [OF assms(5) assms(6) [unfolded limited_copy_bidirectional_def]] assms(1-4)
  by (simp add: user_left_def state_left_def)

theorem limited_relay_within_quota_witness:
  "\<exists>res r. limited_copy_bidirectional (\<lambda>n r. n * 1000 div r) ''alice''
      (\<lambda>k. ([Account (demo_clock (100 + min k 7)) ''alice'' 3], demo_clock (100 + min k 7)))
      [\<lparr>ce_side = SideA, ce_read = ReadData [1, 2, 3], ce_write_fails = None\<rparr>,
       \<lparr>ce_side = SideB, ce_read = ReadData [4, 5], ce_write_fails = None\<rparr>] demo_limits = (res, r) \<and>
    res = Some (Inl (Bail ''user quota exceeded'')) \<and>
    length (r_written r SideA) + length (r_written r SideB) \<le> 10 - 0 + 10 * ((110 - 100) div 60)"
proof -
  let ?secs = "\<lambda>n r. n * 1000 div r" and ?script = "\<lambda>k. ([Account (demo_clock (100 + min k 7)) ''alice'' 3], demo_clock (100 + min k 7))"
  let ?es = "[\<lparr>ce_side = SideA, ce_read = ReadData [1, 2, 3], ce_write_fails = None\<rparr>,
       \<lparr>ce_side = SideB, ce_read = ReadData [4, 5], ce_write_fails = None\<rparr>]"
  let ?s = "\<lparr>l_config = \<lparr>quota_bytes = Some 10, quota_window = 60, bandwidth_bytes_per_sec = Some 5\<rparr>, l_window_started = 100, l_used_bytes = 0, l_next_send = 100\<rparr>"
  obtain res r where r: "limited_copy_bidirectional ?secs ''alice'' ?script ?es demo_limits = (res, r)" by force
  have "script_by 110 ?script" by (simp add: script_by_def limit_op_by_def demo_clock_def min_le_iff_disj)
  from limited_relay_within_quota [where s = ?s and q = 10, OF _ _ _ _ this r]
  have "length (r_written r SideA) + length (r_written r SideB) \<le> 10 - 0 + 10 * ((110 - 100) div 60)"
    by (simp add: demo_limits_def registry_new_def u64_max_def)
  moreover have "res = Some (Inl (Bail ''user quota exceeded''))"
    using r by (simp add: limited_copy_bidirectional_def relay_step_def relay_new_def user_limit_account_def demo_limits_def
      demo_clock_def registry_new_def Let_def account_and_throttle_def state_for_user_def refresh_window_def charge_quota_def
      reserve_slot_def sat_add_u64_def u64_max_def opposite_def)
  ultimately show ?thesis using r by blast
qed

end
