(* ===== verification/Esp_Net_Addr.thy ===== *)
theory Esp_Net_Addr
  imports Esp_Prelude "HOL-Library.Monad_Syntax"
begin

text \<open>
  The addresses of \<^verbatim>\<open>std::net\<close> that the ingress and egress components parse, print and classify. The
  parser is the one of the standard library: a reader takes the bytes that are left and returns what
  it read with the rest, or \<open>None\<close> without consuming anything. The main result is that every address
  is read back from its printed form.
\<close>

section \<open>Numbers\<close>

text \<open>\<^verbatim>\<open>char::to_digit\<close>.\<close>

definition to_digit :: "nat \<Rightarrow> byte \<Rightarrow> nat option" where
  "to_digit radix b =
     (let n = unat b;
          d = (if 48 \<le> n \<and> n \<le> 57 then n - 48
               else if 97 \<le> n \<and> n \<le> 122 then n - 87
               else if 65 \<le> n \<and> n \<le> 90 then n - 55 else 36)
      in if d < radix then Some d else None)"

definition is_digit :: "nat \<Rightarrow> byte \<Rightarrow> bool" where
  "is_digit radix b \<longleftrightarrow> to_digit radix b \<noteq> None"

definition digits_value :: "nat \<Rightarrow> bytes \<Rightarrow> nat" where
  "digits_value radix = foldl (\<lambda>acc b. acc * radix + the (to_digit radix b)) 0"

text \<open>
  \<^verbatim>\<open>Parser::read_number\<close>. The checked arithmetic of the unbounded case stops at the first digit that
  exceeds the type's maximum, which is when the whole value does.
\<close>

definition read_number :: "nat \<Rightarrow> nat option \<Rightarrow> bool \<Rightarrow> nat \<Rightarrow> bytes \<Rightarrow> (nat \<times> bytes) option" where
  "read_number radix max_digits allow_zero_prefix max_value s =
     (let ds = takeWhile (is_digit radix) s; rest = dropWhile (is_digit radix) s in
      if (case max_digits of Some m \<Rightarrow> length ds > m | None \<Rightarrow> False) then None
      else if ds = [] then None
      else if \<not> allow_zero_prefix \<and> hd ds = 48 \<and> length ds > 1 then None
      else if digits_value radix ds > max_value then None
      else Some (digits_value radix ds, rest))"

definition read_given_char :: "byte \<Rightarrow> bytes \<Rightarrow> bytes option" where
  "read_given_char c s = (case s of [] \<Rightarrow> None | b # r \<Rightarrow> if b = c then Some r else None)"

definition read_separator :: "byte \<Rightarrow> nat \<Rightarrow> (bytes \<Rightarrow> ('a \<times> bytes) option) \<Rightarrow> bytes \<Rightarrow> ('a \<times> bytes) option" where
  "read_separator sep index inner s = (if index > 0 then Option.bind (read_given_char sep s) inner else inner s)"

text \<open>Printing, \<^verbatim>\<open>{}\<close> and \<^verbatim>\<open>{:x}\<close>.\<close>

definition digit_byte :: "nat \<Rightarrow> byte" where
  "digit_byte d = (if d < 10 then of_nat (48 + d) else of_nat (87 + d))"

function num_string :: "nat \<Rightarrow> nat \<Rightarrow> bytes" where
  "num_string radix n = (if n < radix \<or> radix < 2 then [digit_byte n] else num_string radix (n div radix) @ [digit_byte (n mod radix)])"
  by pat_completeness auto
termination
  by (relation "measure snd") (auto intro: div_less_dividend)

declare num_string.simps [simp del]

section \<open>Addresses\<close>

text \<open>The octets of an IPv4 address and the segments of an IPv6 address.\<close>

type_synonym Ipv4Addr = "u8 list"
type_synonym Ipv6Addr = "u16 list"

datatype IpAddr = V4 Ipv4Addr | V6 Ipv6Addr

text \<open>The port, and the scope of an IPv6 socket address.\<close>

datatype SocketAddr = SocketV4 Ipv4Addr u16 | SocketV6 Ipv6Addr u16 u32

fun ip_wf :: "IpAddr \<Rightarrow> bool" where
  "ip_wf (V4 a) \<longleftrightarrow> length a = 4"
| "ip_wf (V6 a) \<longleftrightarrow> length a = 8"

fun sock_ip :: "SocketAddr \<Rightarrow> IpAddr" where
  "sock_ip (SocketV4 a _) = V4 a"
| "sock_ip (SocketV6 a _ _) = V6 a"

fun sock_port :: "SocketAddr \<Rightarrow> u16" where
  "sock_port (SocketV4 _ p) = p"
| "sock_port (SocketV6 _ p _) = p"

definition socket_new :: "IpAddr \<Rightarrow> u16 \<Rightarrow> SocketAddr" where
  "socket_new ip port = (case ip of V4 a \<Rightarrow> SocketV4 a port | V6 a \<Rightarrow> SocketV6 a port 0)"

definition pair_u16 :: "u8 \<Rightarrow> u8 \<Rightarrow> u16" where
  "pair_u16 a b = of_nat (unat a * 256 + unat b)"

definition high_u8 :: "u16 \<Rightarrow> u8" where
  "high_u8 g = of_nat (unat g div 256)"

definition low_u8 :: "u16 \<Rightarrow> u8" where
  "low_u8 g = of_nat (unat g mod 256)"

fun segments_of :: "bytes \<Rightarrow> Ipv6Addr" where
  "segments_of (a # b # rest) = pair_u16 a b # segments_of rest"
| "segments_of _ = []"

definition v6_octets :: "Ipv6Addr \<Rightarrow> bytes" where
  "v6_octets gs = concat (map (\<lambda>g. [high_u8 g, low_u8 g]) gs)"

definition to_ipv4_mapped :: "Ipv6Addr \<Rightarrow> Ipv4Addr option" where
  "to_ipv4_mapped gs =
     (if take 6 gs = [0, 0, 0, 0, 0, 0xFFFF] then Some (v6_octets (drop 6 gs)) else None)"

subsection \<open>Parsing\<close>

definition read_octet :: "bytes \<Rightarrow> (u8 \<times> bytes) option" where
  "read_octet s = map_option (map_prod of_nat id) (read_number 10 (Some 3) False 255 s)"

definition read_ipv4_addr :: "bytes \<Rightarrow> (Ipv4Addr \<times> bytes) option" where
  "read_ipv4_addr s =
     do {
       (a, s) \<leftarrow> read_separator 46 0 read_octet s;
       (b, s) \<leftarrow> read_separator 46 1 read_octet s;
       (c, s) \<leftarrow> read_separator 46 2 read_octet s;
       (d, s) \<leftarrow> read_separator 46 3 read_octet s;
       Some ([a, b, c, d], s)
     }"

definition read_group :: "bytes \<Rightarrow> (u16 \<times> bytes) option" where
  "read_group s = map_option (map_prod of_nat id) (read_number 16 (Some 4) True 65535 s)"

text \<open>\<open>n\<close> groups may still be read; the flag says that an embedded IPv4 address ended the groups.\<close>

fun read_groups :: "nat \<Rightarrow> nat \<Rightarrow> bytes \<Rightarrow> u16 list \<times> bool \<times> bytes" where
  "read_groups 0 i s = ([], False, s)"
| "read_groups (Suc n) i s =
     (case (if n > 0 then read_separator 58 i read_ipv4_addr s else None) of
        Some (v4, s') \<Rightarrow> (segments_of v4, True, s')
      | None \<Rightarrow>
          (case read_separator 58 i read_group s of
             Some (g, s') \<Rightarrow> (case read_groups n (Suc i) s' of (gs, v4, s'') \<Rightarrow> (g # gs, v4, s''))
           | None \<Rightarrow> ([], False, s)))"

definition read_ipv6_addr :: "bytes \<Rightarrow> (Ipv6Addr \<times> bytes) option" where
  "read_ipv6_addr s =
     (case read_groups 8 0 s of
        (head, head_ipv4, s) \<Rightarrow>
          if length head = 8 then Some (head, s)
          else if head_ipv4 then None
          else
            do {
              s \<leftarrow> read_given_char 58 s;
              s \<leftarrow> read_given_char 58 s;
              (case read_groups (8 - (length head + 1)) 0 s of
                 (tail, _, s) \<Rightarrow> Some (head @ replicate (8 - length head - length tail) 0 @ tail, s))
            })"

definition parse_all :: "(bytes \<Rightarrow> ('a \<times> bytes) option) \<Rightarrow> bytes \<Rightarrow> 'a option" where
  "parse_all reader s = (case reader s of Some (a, []) \<Rightarrow> Some a | _ \<Rightarrow> None)"

definition parse_ipv4 :: "bytes \<Rightarrow> Ipv4Addr option" where
  "parse_ipv4 s = (if length s > 15 then None else parse_all read_ipv4_addr s)"

definition parse_ipv6 :: "bytes \<Rightarrow> Ipv6Addr option" where
  "parse_ipv6 = parse_all read_ipv6_addr"

definition read_ip_addr :: "bytes \<Rightarrow> (IpAddr \<times> bytes) option" where
  "read_ip_addr s =
     (case read_ipv4_addr s of
        Some (a, r) \<Rightarrow> Some (V4 a, r)
      | None \<Rightarrow> map_option (map_prod V6 id) (read_ipv6_addr s))"

definition parse_ip :: "bytes \<Rightarrow> IpAddr option" where
  "parse_ip = parse_all read_ip_addr"

definition read_port :: "bytes \<Rightarrow> (u16 \<times> bytes) option" where
  "read_port s =
     do {
       s \<leftarrow> read_given_char 58 s;
       (n, s) \<leftarrow> read_number 10 None True 65535 s;
       Some (of_nat n, s)
     }"

definition read_scope_id :: "bytes \<Rightarrow> (u32 \<times> bytes) option" where
  "read_scope_id s =
     do {
       s \<leftarrow> read_given_char 37 s;
       (n, s) \<leftarrow> read_number 10 None True u32_max s;
       Some (of_nat n, s)
     }"

definition read_socket_v4 :: "bytes \<Rightarrow> (SocketAddr \<times> bytes) option" where
  "read_socket_v4 s =
     do {
       (ip, s) \<leftarrow> read_ipv4_addr s;
       (port, s) \<leftarrow> read_port s;
       Some (SocketV4 ip port, s)
     }"

definition read_socket_v6 :: "bytes \<Rightarrow> (SocketAddr \<times> bytes) option" where
  "read_socket_v6 s =
     do {
       s \<leftarrow> read_given_char 91 s;
       (ip, s) \<leftarrow> read_ipv6_addr s;
       (case (case read_scope_id s of Some x \<Rightarrow> x | None \<Rightarrow> (0, s)) of
          (scope, s) \<Rightarrow>
            do {
              s \<leftarrow> read_given_char 93 s;
              (port, s) \<leftarrow> read_port s;
              Some (SocketV6 ip port scope, s)
            })
     }"

definition read_socket_addr :: "bytes \<Rightarrow> (SocketAddr \<times> bytes) option" where
  "read_socket_addr s = (case read_socket_v4 s of Some x \<Rightarrow> Some x | None \<Rightarrow> read_socket_v6 s)"

definition parse_socket :: "bytes \<Rightarrow> SocketAddr option" where
  "parse_socket = parse_all read_socket_addr"

subsection \<open>Printing\<close>

definition dec :: "nat \<Rightarrow> bytes" where
  "dec = num_string 10"

definition hex :: "u16 \<Rightarrow> bytes" where
  "hex g = num_string 16 (unat g)"

fun dotted :: "nat \<Rightarrow> Ipv4Addr \<Rightarrow> bytes" where
  "dotted i [] = []"
| "dotted i (a # as) = (if i > 0 then [46] else []) @ dec (unat a) @ dotted (Suc i) as"

definition v4_string :: "Ipv4Addr \<Rightarrow> bytes" where
  "v4_string a = dotted 0 a"

fun groups_text :: "nat \<Rightarrow> u16 list \<Rightarrow> bytes" where
  "groups_text i [] = []"
| "groups_text i (g # gs) = (if i > 0 then [58] else []) @ hex g @ groups_text (Suc i) gs"

text \<open>The first longest run of zero segments, as start and length; \<open>cs\<close> and \<open>cl\<close> are the current run.\<close>

fun zero_span :: "nat \<Rightarrow> nat \<Rightarrow> nat \<Rightarrow> nat \<times> nat \<Rightarrow> u16 list \<Rightarrow> nat \<times> nat" where
  "zero_span i cs cl longest [] = longest"
| "zero_span i cs cl longest (g # gs) =
     (if g = 0 then
        let cs = (if cl = 0 then i else cs); cl = cl + 1
        in zero_span (i + 1) cs cl (if cl > snd longest then (cs, cl) else longest) gs
      else zero_span (i + 1) 0 0 longest gs)"

definition v6_string :: "Ipv6Addr \<Rightarrow> bytes" where
  "v6_string gs =
     (case to_ipv4_mapped gs of
        Some v4 \<Rightarrow> ascii ''::ffff:'' @ v4_string v4
      | None \<Rightarrow>
          (case zero_span 0 0 0 (0, 0) gs of
             (start, len) \<Rightarrow>
               if len > 1 then groups_text 0 (take start gs) @ [58, 58] @ groups_text 0 (drop (start + len) gs)
               else groups_text 0 gs))"

fun ip_string :: "IpAddr \<Rightarrow> bytes" where
  "ip_string (V4 a) = v4_string a"
| "ip_string (V6 a) = v6_string a"

section \<open>Numbers are read back\<close>

lemma to_digit_byte: "d < radix \<Longrightarrow> radix \<le> 16 \<Longrightarrow> to_digit radix (digit_byte d) = Some d"
proof -
  assume a: "d < radix" "radix \<le> 16"
  then have "48 + d < 256" "87 + d < 256" by simp_all
  then have "unat (digit_byte d) = (if d < 10 then 48 + d else 87 + d)"
    unfolding digit_byte_def by (simp only: unat_of_nat_byte split: if_split) simp
  with a show ?thesis unfolding to_digit_def Let_def by simp
qed

lemma digits_value_snoc: "digits_value radix (ds @ [b]) = digits_value radix ds * radix + the (to_digit radix b)"
  by (simp add: digits_value_def)

lemma digits_value_single: "digits_value radix [b] = the (to_digit radix b)"
  by (simp add: digits_value_def)

lemma num_string_not_Nil [simp]: "num_string radix n \<noteq> []"
  by (subst num_string.simps) simp

lemma num_string_value:
  assumes "2 \<le> radix" "radix \<le> 16"
  shows "digits_value radix (num_string radix n) = n \<and> (\<forall>b \<in> set (num_string radix n). is_digit radix b)"
  using assms
proof (induction radix n rule: num_string.induct)
  case (1 radix n)
  show ?case
  proof (cases "n < radix")
    case True
    with 1 show ?thesis by (simp add: num_string.simps [of radix n] to_digit_byte digits_value_single is_digit_def)
  next
    case False
    with 1 have IH: "digits_value radix (num_string radix (n div radix)) = n div radix \<and>
      (\<forall>b \<in> set (num_string radix (n div radix)). is_digit radix b)" by simp
    have "n mod radix < radix" using 1(2) by simp
    with 1 False IH show ?thesis
      by (simp add: num_string.simps [of radix n] digits_value_snoc to_digit_byte is_digit_def mult.commute)
  qed
qed

lemma num_string_length:
  assumes "2 \<le> radix"
  shows "n < radix ^ Suc k \<Longrightarrow> length (num_string radix n) \<le> Suc k"
proof (induction k arbitrary: n)
  case 0
  then show ?case by (simp add: num_string.simps [of radix n])
next
  case (Suc k)
  show ?case
  proof (cases "n < radix")
    case False
    have "n div radix < radix ^ Suc k"
      using Suc.prems assms by (simp add: less_mult_imp_div_less mult.commute)
    from Suc.IH [OF this] False assms show ?thesis by (simp add: num_string.simps [of radix n])
  qed (simp add: num_string.simps [of radix n])
qed

lemma digit_byte_zero: "d < 16 \<Longrightarrow> digit_byte d = 48 \<Longrightarrow> d = 0"
proof -
  assume a: "d < 16" "digit_byte d = 48"
  from a(1) have "to_digit 16 (digit_byte d) = Some d" by (rule to_digit_byte) simp
  moreover have "to_digit 16 48 = Some 0" by (simp add: to_digit_def)
  ultimately show "d = 0" using a(2) by simp
qed

lemma num_string_hd:
  assumes "2 \<le> radix" "radix \<le> 16"
  shows "hd (num_string radix n) = 48 \<Longrightarrow> n = 0"
  using assms
proof (induction radix n rule: num_string.induct)
  case (1 radix n)
  show ?case
  proof (cases "n < radix")
    case True
    with 1 digit_byte_zero [of n] show ?thesis by (simp add: num_string.simps [of radix n])
  next
    case False
    with 1 have "n div radix = 0" by (simp add: num_string.simps [of radix n])
    with False 1(3) show ?thesis by (simp add: div_eq_0_iff)
  qed
qed

text \<open>A number is read back when what follows it is no digit.\<close>

definition no_digit :: "nat \<Rightarrow> bytes \<Rightarrow> bool" where
  "no_digit radix s \<longleftrightarrow> (case s of [] \<Rightarrow> True | b # _ \<Rightarrow> \<not> is_digit radix b)"

lemma span_digits:
  assumes "\<forall>b \<in> set ds. is_digit radix b" "no_digit radix rest"
  shows "takeWhile (is_digit radix) (ds @ rest) = ds" "dropWhile (is_digit radix) (ds @ rest) = rest"
proof -
  have "takeWhile (is_digit radix) rest = []" "dropWhile (is_digit radix) rest = rest"
    using assms(2) by (cases rest; simp add: no_digit_def)+
  with assms(1) show "takeWhile (is_digit radix) (ds @ rest) = ds" "dropWhile (is_digit radix) (ds @ rest) = rest"
    by (simp_all add: takeWhile_append2 dropWhile_append2)
qed

lemma read_number_print:
  assumes "2 \<le> radix" "radix \<le> 16" "no_digit radix rest" "n \<le> max_value"
    and "case max_digits of None \<Rightarrow> True | Some m \<Rightarrow> length (num_string radix n) \<le> m"
  shows "read_number radix max_digits allow max_value (num_string radix n @ rest) = Some (n, rest)"
proof -
  note v = num_string_value [OF assms(1,2), of n]
  note s = span_digits [OF v [THEN conjunct2] assms(3)]
  have z: "length (num_string radix n) = 1" if "hd (num_string radix n) = 48"
    using num_string_hd [OF assms(1,2) that] assms(1) by (simp add: num_string.simps [of radix 0])
  show ?thesis
    unfolding read_number_def s Let_def using v z assms(4,5) by (auto split: option.splits)
qed

lemma read_octet_print:
  assumes "no_digit 10 rest"
  shows "read_octet (dec (unat (a :: u8)) @ rest) = Some (a, rest)"
proof -
  have a: "unat a < 256" using unsigned_less [of a] by simp
  then have "length (num_string 10 (unat a)) \<le> Suc 2" by (intro num_string_length) simp_all
  with read_number_print [of 10 rest "unat a" 255 "Some 3" False] assms a show ?thesis
    by (simp add: read_octet_def dec_def)
qed

lemma read_group_print:
  assumes "no_digit 16 rest"
  shows "read_group (hex g @ rest) = Some (g, rest)"
proof -
  have g: "unat g < 65536" using unsigned_less [of g] by simp
  then have "length (num_string 16 (unat g)) \<le> Suc 3" by (intro num_string_length) simp_all
  with read_number_print [of 16 rest "unat g" 65535 "Some 4" True] assms g show ?thesis
    by (simp add: read_group_def hex_def)
qed

lemma read_port_print:
  assumes "no_digit 10 rest"
  shows "read_port (58 # dec (unat (port :: u16)) @ rest) = Some (port, rest)"
proof -
  have "unat port < 2 ^ 16" using unsigned_less [of port] by simp
  then have "unat port \<le> 65535" by simp
  with read_number_print [of 10 rest "unat port" 65535 None True] assms show ?thesis
    by (simp add: read_port_def read_given_char_def dec_def)
qed

section \<open>Addresses are read back\<close>

lemma no_digit_simps [simp]: "no_digit radix []" "no_digit 10 (46 # r)" "no_digit 10 (58 # r)" "no_digit 16 (58 # r)"
  "no_digit 10 (93 # r)" "no_digit 16 (93 # r)" "no_digit 16 (37 # r)"
  by (simp_all add: no_digit_def is_digit_def to_digit_def)

lemma read_ipv4_print:
  assumes "length a = 4" "no_digit 10 rest"
  shows "read_ipv4_addr (v4_string a @ rest) = Some (a, rest)"
proof -
  from assms(1) obtain a0 a1 a2 a3 where a: "a = [a0, a1, a2, a3]"
    by (auto simp: length_Suc_conv eval_nat_numeral)
  show ?thesis
    by (simp add: a v4_string_def read_ipv4_addr_def read_separator_def read_given_char_def read_octet_print assms(2))
qed

lemma is_digit_not_dot: "\<not> is_digit 16 46"
  by (simp add: is_digit_def to_digit_def)

lemma hex_digits: "\<forall>b \<in> set (hex g). is_digit 16 b"
  using num_string_value [of 16 "unat g"] by (simp add: hex_def)

lemma read_octet_rest: "read_octet s = Some (a, r) \<Longrightarrow> r = dropWhile (is_digit 10) s"
  by (auto simp: read_octet_def read_number_def Let_def split: if_splits option.splits)

text \<open>What may follow the groups of a printed IPv6 address.\<close>

definition stops :: "bytes \<Rightarrow> bool" where
  "stops s \<longleftrightarrow> s = [] \<or> (\<exists>r. s = 58 # 58 # r \<or> s = 93 # r \<or> s = 37 # r)"

definition ends_group :: "bytes \<Rightarrow> bool" where
  "ends_group s \<longleftrightarrow> s = [] \<or> (\<exists>r. s = 58 # r \<or> s = 93 # r \<or> s = 37 # r)"

lemma stops_ends_group: "stops s \<Longrightarrow> ends_group s"
  by (auto simp: stops_def ends_group_def)

lemma ends_group_no_digit: "ends_group s \<Longrightarrow> no_digit 16 s"
  by (auto simp: ends_group_def)

lemma dropWhile_append_stop: "(case r of [] \<Rightarrow> True | b # _ \<Rightarrow> \<not> P b) \<Longrightarrow> dropWhile P (xs @ r) = dropWhile P xs @ r"
  by (induction xs) (auto split: list.splits)

lemma ipv4_not_at_group:
  assumes "ends_group r"
  shows "read_ipv4_addr (hex g @ r) = None"
proof (cases "read_octet (hex g @ r)")
  case (Some x)
  obtain a s where x: "x = (a, s)" by force
  have "no_digit 10 r" using assms by (auto simp: ends_group_def no_digit_def is_digit_def to_digit_def)
  then have s: "s = dropWhile (is_digit 10) (hex g) @ r"
    using read_octet_rest [of "hex g @ r" a s] Some x
    by (simp add: dropWhile_append_stop no_digit_def split: list.splits)
  have "read_given_char 46 s = None"
  proof (cases "dropWhile (is_digit 10) (hex g)")
    case Nil
    with s assms show ?thesis by (auto simp: read_given_char_def ends_group_def)
  next
    case (Cons b bs)
    then have "b \<in> set (hex g)" by (metis list.set_intros(1) set_dropWhileD)
    then have "b \<noteq> 46" using hex_digits [of g] is_digit_not_dot by auto
    with s Cons show ?thesis by (simp add: read_given_char_def)
  qed
  with Some x show ?thesis by (simp add: read_ipv4_addr_def read_separator_def)
qed (simp add: read_ipv4_addr_def read_separator_def)

lemma no_number: "no_digit radix s \<Longrightarrow> read_number radix m z mx s = None"
  by (auto simp: read_number_def no_digit_def split: list.splits option.splits)

lemma nothing_at_stop:
  assumes "stops s"
  shows "read_separator 58 i read_ipv4_addr s = None" "read_separator 58 i read_group s = None"
proof -
  have n: "no_digit 10 (b # r)" "no_digit 16 (b # r)" if "b = 58 \<or> b = 93 \<or> b = 37" for b r
    using that by (auto simp: no_digit_def is_digit_def to_digit_def)
  have g: "read_octet r = None" "read_ipv4_addr r = None" "read_group r = None" if "no_digit 10 r" "no_digit 16 r" for r
    using that by (simp_all add: read_octet_def read_ipv4_addr_def read_group_def read_separator_def no_number)
  from assms show "read_separator 58 i read_ipv4_addr s = None" "read_separator 58 i read_group s = None"
    by (auto simp: stops_def read_separator_def read_given_char_def g n)
qed

lemma groups_text_ends: "stops rest \<Longrightarrow> 0 < i \<Longrightarrow> ends_group (groups_text i gs @ rest)"
  using stops_ends_group by (cases gs) (auto simp: ends_group_def)

lemma read_groups_print:
  "stops rest \<Longrightarrow> length gs \<le> n \<Longrightarrow> read_groups n i (groups_text i gs @ rest) = (gs, False, rest)"
proof (induction gs arbitrary: n i)
  case Nil
  then show ?case by (cases n) (simp_all add: nothing_at_stop)
next
  case (Cons g gs)
  then obtain m where n: "n = Suc m" by (cases n) auto
  let ?r = "groups_text (Suc i) gs @ rest"
  have e: "ends_group ?r" using Cons.prems(1) by (rule groups_text_ends) simp
  have "read_separator 58 i read_ipv4_addr (groups_text i (g # gs) @ rest) = None"
    using ipv4_not_at_group [OF e] by (cases i) (simp_all add: read_separator_def read_given_char_def)
  moreover have "read_separator 58 i read_group (groups_text i (g # gs) @ rest) = Some (g, ?r)"
    using read_group_print [OF ends_group_no_digit [OF e]]
    by (cases i) (simp_all add: read_separator_def read_given_char_def)
  ultimately show ?case using Cons.IH [of m "Suc i"] Cons.prems by (cases gs) (simp_all add: n)
qed

text \<open>The run of zero segments that is left out.\<close>

lemma zero_span_zeros:
  assumes "drop i xs = gs" "i \<le> length xs"
    and "fst longest + snd longest \<le> length xs" "\<forall>j < snd longest. xs ! (fst longest + j) = 0"
    and "0 < cl \<Longrightarrow> cs + cl = i \<and> (\<forall>j < cl. xs ! (cs + j) = 0)"
  shows "case zero_span i cs cl longest gs of (start, len) \<Rightarrow>
    start + len \<le> length xs \<and> (\<forall>j < len. xs ! (start + j) = 0)"
  using assms
proof (induction gs arbitrary: i cs cl longest)
  case Nil
  then show ?case by (cases longest) simp
next
  case (Cons g gs)
  have len: "i < length xs" using Cons.prems(1) by (rule_tac ccontr) simp
  have nth: "xs ! i = g" using Cons.prems(1) by (rule nth_via_drop)
  have split: "drop (i + 1) xs = gs" using Cons.prems(1) by (metis Suc_eq_plus1 drop_Suc list.sel(3) tl_drop)
  show ?case
  proof (cases "g = 0")
    case False
    have "case zero_span (i + 1) 0 0 longest gs of (start, len) \<Rightarrow>
      start + len \<le> length xs \<and> (\<forall>j < len. xs ! (start + j) = 0)"
      by (rule Cons.IH) (use split len Cons.prems(3,4) in simp_all)
    with False show ?thesis by (simp only: zero_span.simps if_False)
  next
    case True
    define cs' where "cs' = (if cl = 0 then i else cs)"
    have run: "cs' + (cl + 1) = i + 1" "\<forall>j < cl + 1. xs ! (cs' + j) = 0"
      using Cons.prems(5) nth True by (cases "cl = 0"; auto simp: cs'_def less_Suc_eq)+
    have "case zero_span (i + 1) cs' (cl + 1) (if cl + 1 > snd longest then (cs', cl + 1) else longest) gs of (start, len) \<Rightarrow>
      start + len \<le> length xs \<and> (\<forall>j < len. xs ! (start + j) = 0)"
      by (rule Cons.IH [OF split]) (use len run Cons.prems(3,4) in \<open>simp_all split: if_split\<close>)
    then show ?thesis by (simp only: zero_span.simps Let_def True simp_thms if_True flip: cs'_def)
  qed
qed

lemma zero_span_split:
  assumes "zero_span 0 0 0 (0, 0) gs = (start, len)"
  shows "gs = take start gs @ replicate len 0 @ drop (start + len) gs" "start + len \<le> length gs"
proof -
  from zero_span_zeros [of 0 gs gs "(0, 0)" 0 0] assms
  have z: "start + len \<le> length gs" "\<forall>j < len. gs ! (start + j) = 0" by simp_all
  have "take len (drop start gs) = replicate len 0"
    using z by (intro nth_equalityI) auto
  then show "gs = take start gs @ replicate len 0 @ drop (start + len) gs"
    by (metis append_take_drop_id drop_drop add.commute)
  show "start + len \<le> length gs" by (rule z)
qed

lemma pair_high_low [simp]: "pair_u16 (high_u8 g) (low_u8 g) = g"
proof -
  have "unat g < 65536" using unsigned_less [of g] by simp
  then have "unat (high_u8 g) = unat g div 256" "unat (low_u8 g) = unat g mod 256"
    by (simp_all add: high_u8_def low_u8_def unat_of_nat_byte)
  then show ?thesis by (simp add: pair_u16_def)
qed

lemma segments_of_octets [simp]: "segments_of (v6_octets gs) = gs"
  by (induction gs) (simp_all add: v6_octets_def)

lemma v6_octets_length [simp]: "length (v6_octets gs) = 2 * length gs"
  by (induction gs) (simp_all add: v6_octets_def)

lemma read_groups_mapped:
  assumes "length v4 = 4" "no_digit 10 rest"
  shows "read_groups 7 0 (ascii ''ffff:'' @ v4_string v4 @ rest) = (0xFFFF # segments_of v4, True, rest)"
proof -
  have f: "ascii ''ffff:'' @ v4_string v4 @ rest = hex 0xFFFF @ 58 # v4_string v4 @ rest"
    by (simp add: ascii_def hex_def num_string.simps digit_byte_def of_char_def)
  have e: "ends_group (58 # v4_string v4 @ rest)" by (simp add: ends_group_def)
  have 1: "read_separator 58 0 read_ipv4_addr (hex 0xFFFF @ 58 # v4_string v4 @ rest) = None"
    "read_separator 58 0 read_group (hex 0xFFFF @ 58 # v4_string v4 @ rest) = Some (0xFFFF, 58 # v4_string v4 @ rest)"
    using ipv4_not_at_group [OF e] read_group_print [OF ends_group_no_digit [OF e]] by (simp_all add: read_separator_def)
  have 2: "read_separator 58 1 read_ipv4_addr (58 # v4_string v4 @ rest) = Some (v4, rest)"
    using read_ipv4_print [OF assms] by (simp add: read_separator_def read_given_char_def)
  have "7 = Suc (Suc (5 :: nat))" by simp
  then show ?thesis unfolding f by (simp only: read_groups.simps 1 2) (simp add: 2 [simplified])
qed

lemma read_ipv6_print:
  assumes "length gs = 8" "rest = [] \<or> (\<exists>r. rest = 93 # r)"
  shows "read_ipv6_addr (v6_string gs @ rest) = Some (gs, rest)"
proof (cases "to_ipv4_mapped gs")
  case (Some v4)
  then have v: "take 6 gs = [0, 0, 0, 0, 0, 0xFFFF]" "v4 = v6_octets (drop 6 gs)"
    by (simp_all add: to_ipv4_mapped_def split: if_splits)
  have v4: "take 6 gs = [0, 0, 0, 0, 0, 0xFFFF]" "v4 = v6_octets (drop 6 gs)" "length v4 = 4"
    by (rule v)+ (simp add: v(2) assms(1))
  have gs: "gs = [0, 0, 0, 0, 0, 0xFFFF] @ drop 6 gs" using v4(1) append_take_drop_id [of 6 gs] by simp
  have "no_digit 10 rest" using assms(2) by auto
  note tail = read_groups_mapped [OF v4(3) this]
  have s: "v6_string gs @ rest = 58 # 58 # ascii ''ffff:'' @ v4_string v4 @ rest"
    by (simp add: v6_string_def Some ascii_def of_char_def)
  have "stops (58 # 58 # ascii ''ffff:'' @ v4_string v4 @ rest)" by (simp add: stops_def)
  from read_groups_print [OF this, of "[]" 8 0]
  have head: "read_groups 8 0 (58 # 58 # ascii ''ffff:'' @ v4_string v4 @ rest) = ([], False, 58 # 58 # ascii ''ffff:'' @ v4_string v4 @ rest)"
    by simp
  have "length (drop 6 gs) = 2" using assms(1) by simp
  then have "replicate (8 - Suc (length (drop 6 gs))) 0 @ 0xFFFF # drop 6 gs = gs"
    using gs by (simp add: eval_nat_numeral)
  moreover have "segments_of v4 = drop 6 gs" by (simp add: v(2))
  ultimately show ?thesis
    unfolding s read_ipv6_addr_def using assms(1) by (simp add: head read_given_char_def tail)
next
  case None
  obtain start len where sl: "zero_span 0 0 0 (0, 0) gs = (start, len)" by force
  note z = zero_span_split [OF sl]
  have st: "stops rest" using assms(2) by (auto simp: stops_def)
  show ?thesis
  proof (cases "len > 1")
    case True
    let ?tail = "drop (start + len) gs"
    have s: "v6_string gs @ rest = groups_text 0 (take start gs) @ 58 # 58 # groups_text 0 ?tail @ rest"
      using True by (simp add: v6_string_def None sl)
    have head: "read_groups 8 0 (groups_text 0 (take start gs) @ 58 # 58 # groups_text 0 ?tail @ rest) =
      (take start gs, False, 58 # 58 # groups_text 0 ?tail @ rest)"
      using assms(1) by (intro read_groups_print) (simp_all add: stops_def)
    have l: "length (take start gs) = start" "start < 7" using z(2) assms(1) True by simp_all
    have tail: "read_groups (8 - (start + 1)) 0 (groups_text 0 ?tail @ rest) = (?tail, False, rest)"
      using assms(1) True by (intro read_groups_print [OF st]) simp
    have "8 - start - length ?tail = len" using z(2) assms(1) by simp
    then show ?thesis
      unfolding s read_ipv6_addr_def using l z(1) tail by (simp add: head read_given_char_def)
  next
    case False
    then have "v6_string gs = groups_text 0 gs" by (simp add: v6_string_def None sl)
    with read_groups_print [OF st, of gs 8 0] assms(1) show ?thesis by (simp add: read_ipv6_addr_def)
  qed
qed

text \<open>An IPv6 address is never mistaken for an IPv4 address.\<close>

lemma v4_string_length: "length a = 4 \<Longrightarrow> length (v4_string a) \<le> 15"
proof -
  assume a: "length a = 4"
  then obtain a0 a1 a2 a3 where a: "a = [a0, a1, a2, a3]" by (auto simp: length_Suc_conv eval_nat_numeral)
  have l: "length (dec (unat x)) \<le> 3" for x :: u8
  proof -
    have "unat x < 2 ^ 8" using unsigned_less [of x] by simp
    then show ?thesis unfolding dec_def using num_string_length [of 10 "unat x" 2] by simp
  qed
  show ?thesis using l [of a0] l [of a1] l [of a2] l [of a3] by (simp add: a v4_string_def)
qed

lemma groups_not_ipv4:
  assumes "stops rest \<or> ends_group rest \<and> gs \<noteq> []"
  shows "read_ipv4_addr (groups_text 0 gs @ rest) = None"
proof (cases gs)
  case Nil
  with assms nothing_at_stop(1) [of rest 0] show ?thesis by (simp add: read_separator_def)
next
  case (Cons g gs')
  have "ends_group (groups_text (Suc 0) gs' @ rest)"
    using assms stops_ends_group by (cases gs') (auto simp: ends_group_def)
  from ipv4_not_at_group [OF this] Cons show ?thesis by simp
qed

lemma v6_not_ipv4:
  assumes "rest = [] \<or> (\<exists>r. rest = 93 # r)"
  shows "read_ipv4_addr (v6_string gs @ rest) = None"
proof -
  have st: "stops rest" "stops (58 # 58 # x)" for x using assms by (auto simp: stops_def)
  show ?thesis
  proof (cases "to_ipv4_mapped gs")
    case (Some v4)
    with groups_not_ipv4 [of "58 # 58 # ascii ''ffff:'' @ v4_string v4 @ rest" "[]"] st(2) show ?thesis
      by (simp add: v6_string_def ascii_def of_char_def)
  next
    case None
    obtain start len where "zero_span 0 0 0 (0, 0) gs = (start, len)" by force
    with None st groups_not_ipv4 [of rest gs]
      groups_not_ipv4 [of "58 # 58 # groups_text 0 (drop (start + len) gs) @ rest" "take start gs"] show ?thesis
      by (simp add: v6_string_def)
  qed
qed

lemma parse_ip_string: "ip_wf ip \<Longrightarrow> parse_ip (ip_string ip) = Some ip"
  using read_ipv4_print [of _ "[]"] read_ipv6_print [of _ "[]"] v6_not_ipv4 [of "[]"]
  by (cases ip) (simp_all add: parse_ip_def parse_all_def read_ip_addr_def)

lemma parse_ipv4_string: "length a = 4 \<Longrightarrow> parse_ipv4 (v4_string a) = Some a"
  using read_ipv4_print [of a "[]"] v4_string_length [of a] by (simp add: parse_ipv4_def parse_all_def)

lemma parse_ipv6_string: "length a = 8 \<Longrightarrow> parse_ipv6 (v6_string a) = Some a"
  using read_ipv6_print [of a "[]"] by (simp add: parse_ipv6_def parse_all_def)

lemma parse_ipv4_v6_string: "parse_ipv4 (v6_string a) = None"
  using v6_not_ipv4 [of "[]" a] by (simp add: parse_ipv4_def parse_all_def)

end
