(* ===== verification/Esp_Text.thy ===== *)
theory Esp_Text
  imports Esp_Prelude
begin

text \<open>
  The string operations of the standard library that the ingress and egress components use. A string
  is its UTF-8 bytes; ASCII bytes never occur inside a longer character, so splitting at one of them
  works on bytes.
\<close>

section \<open>Searching and splitting\<close>

definition strip_prefix :: "bytes \<Rightarrow> bytes \<Rightarrow> bytes option" where
  "strip_prefix p s = (if take (length p) s = p then Some (drop (length p) s) else None)"

definition ends_with :: "bytes \<Rightarrow> bytes \<Rightarrow> bool" where
  "ends_with p s \<longleftrightarrow> length p \<le> length s \<and> drop (length s - length p) s = p"

definition starts_with :: "bytes \<Rightarrow> bytes \<Rightarrow> bool" where
  "starts_with p s \<longleftrightarrow> take (length p) s = p"

fun contains_str :: "bytes \<Rightarrow> bytes \<Rightarrow> bool" where
  "contains_str p [] = (p = [])"
| "contains_str p (b # s) = (starts_with p (b # s) \<or> contains_str p s)"

definition split_once :: "byte \<Rightarrow> bytes \<Rightarrow> (bytes \<times> bytes) option" where
  "split_once c s = (if c \<in> set s then Some (takeWhile (\<lambda>b. b \<noteq> c) s, tl (dropWhile (\<lambda>b. b \<noteq> c) s)) else None)"

definition rsplit_once :: "byte \<Rightarrow> bytes \<Rightarrow> (bytes \<times> bytes) option" where
  "rsplit_once c s = map_option (\<lambda>(x, y). (rev y, rev x)) (split_once c (rev s))"

fun split_byte :: "byte \<Rightarrow> bytes \<Rightarrow> bytes list" where
  "split_byte c [] = [[]]"
| "split_byte c (b # s) =
     (if b = c then [] # split_byte c s
      else (case split_byte c s of [] \<Rightarrow> [[b]] | x # xs \<Rightarrow> (b # x) # xs))"

text \<open>\<^verbatim>\<open>trim_matches\<close> with a set of ASCII characters.\<close>

definition trim_bytes :: "byte set \<Rightarrow> bytes \<Rightarrow> bytes" where
  "trim_bytes cs s = rev (dropWhile (\<lambda>b. b \<in> cs) (rev (dropWhile (\<lambda>b. b \<in> cs) s)))"

section \<open>Case and white space\<close>

definition lower :: "byte \<Rightarrow> byte" where
  "lower b = (if 65 \<le> unat b \<and> unat b \<le> 90 then b + 32 else b)"

definition to_ascii_lowercase :: "bytes \<Rightarrow> bytes" where
  "to_ascii_lowercase = map lower"

definition eq_ignore_ascii_case :: "bytes \<Rightarrow> bytes \<Rightarrow> bool" where
  "eq_ignore_ascii_case a b \<longleftrightarrow> to_ascii_lowercase a = to_ascii_lowercase b"

text \<open>The characters with the Unicode property \<^verbatim>\<open>White_Space\<close>.\<close>

definition is_white :: "bytes \<Rightarrow> bool" where
  "is_white c \<longleftrightarrow>
     (case c of
        [a] \<Rightarrow> 9 \<le> unat a \<and> unat a \<le> 13 \<or> a = 32
      | [a, b] \<Rightarrow> a = 0xC2 \<and> (b = 0x85 \<or> b = 0xA0)
      | [a, b, d] \<Rightarrow>
          a = 0xE1 \<and> b = 0x9A \<and> d = 0x80 \<or>
          a = 0xE2 \<and> b = 0x80 \<and> (0x80 \<le> unat d \<and> unat d \<le> 0x8A \<or> d = 0xA8 \<or> d = 0xA9 \<or> d = 0xAF) \<or>
          a = 0xE2 \<and> b = 0x81 \<and> d = 0x9F \<or>
          a = 0xE3 \<and> b = 0x80 \<and> d = 0x80
      | _ \<Rightarrow> False)"

definition white_prefix :: "bytes \<Rightarrow> nat" where
  "white_prefix s = (if is_white (take 1 s) then 1 else if is_white (take 2 s) then 2 else if is_white (take 3 s) then 3 else 0)"

definition white_suffix :: "bytes \<Rightarrow> nat" where
  "white_suffix s =
     (if is_white (drop (length s - 1) s) then 1 else if is_white (drop (length s - 2) s) then 2
      else if is_white (drop (length s - 3) s) then 3 else 0)"

lemma is_white_Nil [simp]: "\<not> is_white []"
  by (simp add: is_white_def)

lemma white_Nil [simp]: "white_prefix [] = 0" "white_suffix [] = 0"
  by (simp_all add: white_prefix_def white_suffix_def)

lemma white_shorter [simp]: "0 < white_prefix s \<Longrightarrow> length s - white_prefix s < length s"
  "0 < white_suffix s \<Longrightarrow> length s - white_suffix s < length s"
  by (cases s; simp)+

function trim_start :: "bytes \<Rightarrow> bytes" where
  "trim_start s = (if white_prefix s = 0 then s else trim_start (drop (white_prefix s) s))"
  by pat_completeness auto
termination
  by (relation "measure length") auto

function trim_end :: "bytes \<Rightarrow> bytes" where
  "trim_end s = (if white_suffix s = 0 then s else trim_end (take (length s - white_suffix s) s))"
  by pat_completeness auto
termination
  by (relation "measure length") auto

declare trim_start.simps [simp del] trim_end.simps [simp del]

definition trim :: "bytes \<Rightarrow> bytes" where
  "trim s = trim_end (trim_start s)"

text \<open>\<^verbatim>\<open>split_whitespace\<close>: the maximal non-empty pieces without white space; \<open>cur\<close> is the piece so far.\<close>

function split_white :: "bytes \<Rightarrow> bytes \<Rightarrow> bytes list" where
  "split_white cur s =
     (if s = [] then (if cur = [] then [] else [cur])
      else if white_prefix s = 0 then split_white (cur @ [hd s]) (tl s)
      else (if cur = [] then [] else [cur]) @ split_white [] (drop (white_prefix s) s))"
  by pat_completeness auto
termination
  by (relation "measure (length \<circ> snd)") auto

declare split_white.simps [simp del]

definition split_whitespace :: "bytes \<Rightarrow> bytes list" where
  "split_whitespace s = split_white [] s"

text \<open>The first line that \<^verbatim>\<open>lines\<close> gives: up to a line feed, and a carriage return before it is dropped.\<close>

definition first_line :: "bytes \<Rightarrow> bytes" where
  "first_line s =
     (if 10 \<in> set s then
        let l = takeWhile (\<lambda>b. b \<noteq> 10) s in if l \<noteq> [] \<and> List.last l = 13 then butlast l else l
      else s)"

section \<open>Numbers\<close>

definition is_ascii_digit :: "byte \<Rightarrow> bool" where
  "is_ascii_digit b \<longleftrightarrow> 48 \<le> unat b \<and> unat b \<le> 57"

definition decimal :: "bytes \<Rightarrow> nat" where
  "decimal = foldl (\<lambda>acc b. acc * 10 + (unat b - 48)) 0"

text \<open>\<^verbatim>\<open>parse\<close> to an unsigned type with the given maximum: a plus sign may stand in front.\<close>

definition parse_unsigned :: "nat \<Rightarrow> bytes \<Rightarrow> nat option" where
  "parse_unsigned max_value s =
     (let ds = (case s of b # r \<Rightarrow> if b = 43 then r else s | [] \<Rightarrow> []) in
      if ds = [] \<or> \<not> list_all is_ascii_digit ds then None
      else if decimal ds > max_value then None else Some (decimal ds))"

section \<open>Laws\<close>

lemma split_once_first: "c \<notin> set x \<Longrightarrow> split_once c (x @ c # y) = Some (x, y)"
  by (induction x) (auto simp: split_once_def)

lemma rsplit_once_last: "c \<notin> set y \<Longrightarrow> rsplit_once c (x @ c # y) = Some (x, y)"
  using split_once_first [of c "rev y" "rev x"] by (simp add: rsplit_once_def)

lemma rsplit_onceD:
  assumes "rsplit_once c s = Some (x, y)"
  shows "s = x @ c # y" "c \<notin> set y"
proof -
  let ?t = "takeWhile (\<lambda>b. b \<noteq> c) (rev s)" and ?d = "dropWhile (\<lambda>b. b \<noteq> c) (rev s)"
  from assms have c: "c \<in> set (rev s)" and xy: "y = rev ?t" "x = rev (tl ?d)"
    by (auto simp: rsplit_once_def split_once_def split: if_splits)
  have "?d \<noteq> []" using c by (simp add: dropWhile_eq_Nil_conv)
  moreover from this have "hd ?d = c" using hd_dropWhile [of "\<lambda>b. b \<noteq> c" "rev s"] by simp
  ultimately have "?d = c # tl ?d" by (metis list.collapse)
  then have "rev s = ?t @ c # tl ?d" by (metis takeWhile_dropWhile_id)
  then show "s = x @ c # y" by (metis append.assoc append_Cons append_Nil rev.simps(2) rev_append rev_rev_ident xy)
  show "c \<notin> set y" unfolding xy by (auto dest: set_takeWhileD)
qed

lemma trim_bytes_id: "s = [] \<or> hd s \<notin> cs \<and> last s \<notin> cs \<Longrightarrow> trim_bytes cs s = s"
  using dropWhile_eq_self_iff [of "\<lambda>b. b \<in> cs" s] dropWhile_eq_self_iff [of "\<lambda>b. b \<in> cs" "rev s"]
  by (auto simp: trim_bytes_def hd_rev)

lemma to_ascii_lowercase_idem [simp]: "to_ascii_lowercase (to_ascii_lowercase s) = to_ascii_lowercase s"
proof -
  have "lower (lower b) = lower b" for b
  proof (cases "65 \<le> unat b \<and> unat b \<le> 90")
    case True
    then have "unat (b + 32) = unat b + 32" by (simp add: unat_word_ariths)
    with True show ?thesis by (simp add: lower_def)
  qed (simp add: lower_def)
  then show ?thesis by (simp add: to_ascii_lowercase_def)
qed

end
