(* ===== verification/Esp_Egress.thy ===== *)
theory Esp_Egress
  imports Esp_Net_Addr Esp_Text Esp_Collections
begin

text \<open>
  Where the server connects to: the destination policy of \<^verbatim>\<open>egress.rs\<close>, name resolution with its cache
  (\<^verbatim>\<open>dns.rs\<close>) and the choice among the resolved addresses (\<^verbatim>\<open>relay.rs\<close>). The system's resolver and the
  outcome of a connection attempt come from outside and are arguments.
\<close>

section \<open>Destination policy\<close>

record EgressPolicy =
  deny_private_ips :: bool
  allow_hosts :: "rstring list"
  block_hosts :: "rstring list"
  allow_ports :: "u16 list"
  block_ports :: "u16 list"
  e_proxy :: "rstring option"
  e_socks5_proxy :: "rstring option"

definition policy_default :: EgressPolicy where
  "policy_default = \<lparr>deny_private_ips = False, allow_hosts = [], block_hosts = [], allow_ports = [], block_ports = [],
     e_proxy = None, e_socks5_proxy = None\<rparr>"

datatype EgressProxyKind = Socks4 | Socks4a | Socks5 | Http | Https

record EgressProxy =
  x_kind :: EgressProxyKind
  x_endpoint :: rstring
  x_username :: "rstring option"
  x_password :: "rstring option"

definition split_authority :: "rstring \<Rightarrow> (rstring \<times> u16) result" where
  "split_authority authority =
     (case parse_socket authority of
        Some addr \<Rightarrow> Inr (ip_string (sock_ip addr), sock_port addr)
      | None \<Rightarrow>
          (case rsplit_once 58 authority of
             None \<Rightarrow> Inl (Bail ''target authority must include a port'')
           | Some (host, port) \<Rightarrow>
               let host = trim_bytes {91, 93} host in
               (case parse_unsigned 65535 port of
                  None \<Rightarrow> Inl (Bail ''target authority port must be an integer from 0 to 65535'')
                | Some n \<Rightarrow>
                    if host = [] then Inl (Bail ''target host is empty'')
                    else Inr (host, of_nat n))))"

definition host_matches :: "rstring \<Rightarrow> rstring \<Rightarrow> bool" where
  "host_matches host pattern =
     (let pattern = to_ascii_lowercase pattern in
      case strip_prefix (ascii ''*.'') pattern of
        Some suffix \<Rightarrow> host = suffix \<or> ends_with (46 # suffix) host
      | None \<Rightarrow> host = pattern)"

text \<open>\<^verbatim>\<open>is_private\<close>, \<^verbatim>\<open>is_loopback\<close>, \<^verbatim>\<open>is_link_local\<close>, \<^verbatim>\<open>is_broadcast\<close> and \<^verbatim>\<open>is_documentation\<close> of an IPv4 address.\<close>

definition std_special_v4 :: "nat \<Rightarrow> nat \<Rightarrow> nat \<Rightarrow> nat \<Rightarrow> bool" where
  "std_special_v4 a b c d \<longleftrightarrow>
     a = 10 \<or> a = 172 \<and> 16 \<le> b \<and> b \<le> 31 \<or> a = 192 \<and> b = 168 \<or>
     a = 127 \<or>
     a = 169 \<and> b = 254 \<or>
     a = 255 \<and> b = 255 \<and> c = 255 \<and> d = 255 \<or>
     a = 192 \<and> b = 0 \<and> c = 2 \<or> a = 198 \<and> b = 51 \<and> c = 100 \<or> a = 203 \<and> b = 0 \<and> c = 113"

definition is_private_v4 :: "Ipv4Addr \<Rightarrow> bool" where
  "is_private_v4 ip =
     (let a = unat (ip ! 0); b = unat (ip ! 1); c = unat (ip ! 2); d = unat (ip ! 3) in
      std_special_v4 a b c d
      \<or> a = 0
      \<or> a = 100 \<and> 64 \<le> b \<and> b \<le> 127
      \<or> a = 192 \<and> (b = 0 \<or> b = 88 \<and> c = 99)
      \<or> a = 198 \<and> (b = 18 \<or> b = 19 \<or> b = 51 \<and> c = 100)
      \<or> a = 203 \<and> b = 0 \<and> c = 113
      \<or> a \<ge> 224)"

text \<open>
  The IPv6 tests look at the first segment: \<^verbatim>\<open>fc00::/7\<close>, \<^verbatim>\<open>fe80::/10\<close>, \<^verbatim>\<open>ff00::/8\<close>.
\<close>

definition is_private_v6 :: "Ipv6Addr \<Rightarrow> bool" where
  "is_private_v6 ip =
     (case to_ipv4_mapped ip of
        Some mapped \<Rightarrow> is_private_v4 mapped
      | None \<Rightarrow>
          let s = unat (ip ! 0) in
          ip = [0, 0, 0, 0, 0, 0, 0, 1]
          \<or> ip = [0, 0, 0, 0, 0, 0, 0, 0]
          \<or> s div 512 = 0xFC00 div 512
          \<or> s div 64 = 0xFE80 div 64
          \<or> s div 256 = 0xFF
          \<or> ip ! 0 = 0x2001 \<and> ip ! 1 = 0x0DB8)"

definition is_private_or_special :: "IpAddr \<Rightarrow> bool" where
  "is_private_or_special ip = (case ip of V4 a \<Rightarrow> is_private_v4 a | V6 a \<Rightarrow> is_private_v6 a)"

definition validate_authority :: "EgressPolicy \<Rightarrow> rstring \<Rightarrow> unit result" where
  "validate_authority policy authority =
     res_bind (split_authority authority) (\<lambda>(host, port).
       let normalized_host = to_ascii_lowercase host in
       if list_ex (host_matches normalized_host) (block_hosts policy)
       then Inl (Bail ''egress target host is blocked by remote.egress.block_hosts'')
       else if allow_hosts policy \<noteq> [] \<and> \<not> list_ex (host_matches normalized_host) (allow_hosts policy)
       then Inl (Bail ''egress target host is not in remote.egress.allow_hosts'')
       else if port \<in> set (block_ports policy)
       then Inl (BailNum ''egress target port is blocked by remote.egress.block_ports'' (unat port))
       else if allow_ports policy \<noteq> [] \<and> port \<notin> set (allow_ports policy)
       then Inl (BailNum ''egress target port is not in remote.egress.allow_ports'' (unat port))
       else if deny_private_ips policy \<and>
         (case parse_ip normalized_host of Some ip \<Rightarrow> is_private_or_special ip | None \<Rightarrow> False)
       then Inl (Bail ''egress target IP is private or special and remote.egress.deny_private_ips is enabled'')
       else Inr ())"

definition validate_resolved_addr :: "EgressPolicy \<Rightarrow> SocketAddr \<Rightarrow> unit result" where
  "validate_resolved_addr policy addr =
     (if deny_private_ips policy \<and> is_private_or_special (sock_ip addr)
      then Inl (Bail ''resolved egress address has a private or special IP and remote.egress.deny_private_ips is enabled'')
      else if sock_port addr \<in> set (block_ports policy)
      then Inl (BailNum ''resolved egress address uses a port blocked by remote.egress.block_ports'' (unat (sock_port addr)))
      else if allow_ports policy \<noteq> [] \<and> sock_port addr \<notin> set (allow_ports policy)
      then Inl (BailNum ''resolved egress address uses a port not in remote.egress.allow_ports'' (unat (sock_port addr)))
      else Inr ())"

section \<open>Upstream proxy\<close>

definition parse_parts :: "EgressProxyKind \<Rightarrow> rstring \<Rightarrow> EgressProxy result" where
  "parse_parts kind rest =
     (let rest = trim rest in
      if rest = [] then Inl (Bail ''egress proxy endpoint is empty'')
      else if 47 \<in> set rest \<or> 63 \<in> set rest \<or> 35 \<in> set rest
      then Inl (Bail ''egress proxy URL must not contain path, query, or fragment'')
      else
        let (auth, endpoint) = (case rsplit_once 64 rest of Some (auth, endpoint) \<Rightarrow> (Some auth, endpoint) | None \<Rightarrow> (None, rest)) in
        res_bind
          (case auth of
             Some auth \<Rightarrow>
               let (username, password) = (case split_once 58 auth of Some x \<Rightarrow> x | None \<Rightarrow> (auth, [])) in
               if username = [] then Inl (Bail ''egress proxy username is empty'')
               else Inr (Some username, Some password)
           | None \<Rightarrow> Inr (None, None))
          (\<lambda>(username, password).
             let endpoint = trim endpoint in
             res_bind (split_authority endpoint) (\<lambda>_.
               Inr \<lparr>x_kind = kind, x_endpoint = endpoint, x_username = username, x_password = password\<rparr>)))"

definition schemes :: "(string \<times> EgressProxyKind) list" where
  "schemes = [(''socks://'', Socks5), (''socks5://'', Socks5), (''socks4://'', Socks4), (''socks4a://'', Socks4a),
     (''http://'', Http), (''https://'', Https)]"

fun strip_scheme :: "(string \<times> EgressProxyKind) list \<Rightarrow> rstring \<Rightarrow> (EgressProxyKind \<times> rstring) option" where
  "strip_scheme [] s = None"
| "strip_scheme ((prefix, kind) # rest) s =
     (case strip_prefix (ascii prefix) s of Some r \<Rightarrow> Some (kind, r) | None \<Rightarrow> strip_scheme rest s)"

definition proxy_parse :: "rstring \<Rightarrow> EgressProxy result" where
  "proxy_parse s =
     (let s = trim s in
      if s = [] then Inl (Bail ''remote.egress.proxy must not be empty'')
      else
        (case strip_scheme schemes s of
           Some (kind, rest) \<Rightarrow> parse_parts kind rest
         | None \<Rightarrow> Inl (Bail ''remote.egress.proxy must start with socks://, socks4://, socks4a://, socks5://, http://, or https://'')))"

definition parse_legacy_socks5 :: "rstring \<Rightarrow> EgressProxy result" where
  "parse_legacy_socks5 s =
     (let s = trim s in
      if s = [] then Inl (Bail ''remote.egress.socks5_proxy must not be empty'')
      else if contains_str (ascii ''://'') s then proxy_parse s
      else parse_parts Socks5 s)"

definition upstream_proxy :: "EgressPolicy \<Rightarrow> EgressProxy option result" where
  "upstream_proxy policy =
     (case e_proxy policy of
        Some proxy \<Rightarrow> res_bind (proxy_parse proxy) (\<lambda>x. Inr (Some x))
      | None \<Rightarrow>
          (case e_socks5_proxy policy of
             Some proxy \<Rightarrow> res_bind (parse_legacy_socks5 proxy) (\<lambda>x. Inr (Some x))
           | None \<Rightarrow> Inr None))"

section \<open>Name resolution\<close>

text \<open>Instants and durations in milliseconds.\<close>

definition DNS_RESOLUTION_TIMEOUT :: nat where
  "DNS_RESOLUTION_TIMEOUT = 10000"

definition DNS_CACHE_TTL :: nat where
  "DNS_CACHE_TTL = 60000"

definition DNS_CACHE_CAPACITY :: nat where
  "DNS_CACHE_CAPACITY = 256"

definition DNS_MAX_ATTEMPTS :: nat where
  "DNS_MAX_ATTEMPTS = 3"

definition dns_retry_delay_after_failure :: "nat \<Rightarrow> nat option" where
  "dns_retry_delay_after_failure attempt = (if attempt = 0 then Some 100 else if attempt = 1 then Some 250 else None)"

type_synonym DnsCache = "(rstring, SocketAddr list \<times> nat) hmap"

definition dns_get :: "rstring \<Rightarrow> nat \<Rightarrow> DnsCache \<Rightarrow> SocketAddr list option \<times> DnsCache" where
  "dns_get authority now entries =
     (case map_of entries authority of
        Some (addrs, expires) \<Rightarrow>
          if now < expires then (Some addrs, entries) else (None, hm_remove authority entries)
      | None \<Rightarrow> (None, entries))"

text \<open>\<^verbatim>\<open>min_by_key\<close>: the first entry with the least expiry in the order of iteration.\<close>

fun oldest_entry :: "DnsCache \<Rightarrow> (rstring \<times> nat) option" where
  "oldest_entry [] = None"
| "oldest_entry ((k, _, expires) # rest) =
     (case oldest_entry rest of
        Some (k', expires') \<Rightarrow> if expires' < expires then Some (k', expires') else Some (k, expires)
      | None \<Rightarrow> Some (k, expires))"

definition dns_insert_with_ttl :: "rstring \<Rightarrow> SocketAddr list \<Rightarrow> nat \<Rightarrow> nat \<Rightarrow> DnsCache \<Rightarrow> DnsCache" where
  "dns_insert_with_ttl authority addrs now ttl entries =
     (let entries = filter (\<lambda>(_, _, expires). now < expires) entries;
          entries =
            (if length entries \<ge> DNS_CACHE_CAPACITY \<and> map_of entries authority = None then
               (case oldest_entry entries of Some (k, _) \<Rightarrow> hm_remove k entries | None \<Rightarrow> entries)
             else entries)
      in hm_insert authority (addrs, now + min ttl DNS_CACHE_TTL) entries)"

definition dns_insert :: "rstring \<Rightarrow> SocketAddr list \<Rightarrow> nat \<Rightarrow> DnsCache \<Rightarrow> DnsCache" where
  "dns_insert authority addrs now = dns_insert_with_ttl authority addrs now DNS_CACHE_TTL"

fun first_occurrences :: "SocketAddr set \<Rightarrow> SocketAddr list \<Rightarrow> SocketAddr list" where
  "first_occurrences seen [] = []"
| "first_occurrences seen (a # as) =
     (if a \<in> seen then first_occurrences seen as else a # first_occurrences (insert a seen) as)"

definition collect_addresses :: "SocketAddr list \<Rightarrow> SocketAddr list result" where
  "collect_addresses addrs =
     (let addrs = first_occurrences {} addrs in
      if addrs = [] then Inl (Bail ''DNS lookup returned no addresses'') else Inr addrs)"

text \<open>
  \<^verbatim>\<open>with_retry\<close>: \<open>resolve k\<close> is how long the \<open>k\<close>-th attempt takes and what it gives; \<open>elapsed\<close> is the
  time used up, \<open>err\<close> the latest error.
\<close>

fun retry_loop :: "nat \<Rightarrow> (nat \<Rightarrow> nat \<times> 'a result) \<Rightarrow> nat \<Rightarrow> nat \<Rightarrow> nat \<Rightarrow> error \<Rightarrow> 'a result" where
  "retry_loop limit resolve 0 attempt elapsed err = Inl err"
| "retry_loop limit resolve (Suc left) attempt elapsed err =
     (case resolve attempt of
        (took, r) \<Rightarrow>
          let elapsed = elapsed + took in
          if elapsed > limit then Inl (Bail ''DNS resolution timed out'')
          else
            (case r of
               Inr value \<Rightarrow> Inr value
             | Inl e \<Rightarrow>
                 let elapsed = elapsed + (case dns_retry_delay_after_failure attempt of Some delay \<Rightarrow> delay | None \<Rightarrow> 0) in
                 if elapsed > limit then Inl (Bail ''DNS resolution timed out'')
                 else retry_loop limit resolve left (Suc attempt) elapsed e))"

definition with_retry :: "(nat \<Rightarrow> nat \<times> 'a result) \<Rightarrow> nat \<Rightarrow> 'a result" where
  "with_retry resolve limit =
     retry_loop limit resolve DNS_MAX_ATTEMPTS 0 0 (Bail ''DNS retry policy always makes at least one attempt'')"

text \<open>\<open>lookup\<close> is the system's resolver; the clock is read before the lookup and after it.\<close>

definition resolve_socket_addrs ::
  "(nat \<Rightarrow> nat \<times> SocketAddr list result) \<Rightarrow> nat \<Rightarrow> nat \<Rightarrow> rstring \<Rightarrow> DnsCache \<Rightarrow> SocketAddr list result \<times> DnsCache"
where
  "resolve_socket_addrs lookup now now' authority cache =
     (case parse_socket authority of
        Some addr \<Rightarrow> (Inr [addr], cache)
      | None \<Rightarrow>
          (case dns_get authority now cache of
             (Some addrs, cache) \<Rightarrow> (Inr addrs, cache)
           | (None, cache) \<Rightarrow>
               (case res_bind (with_retry lookup DNS_RESOLUTION_TIMEOUT) collect_addresses of
                  Inl e \<Rightarrow> (Inl e, cache)
                | Inr addrs \<Rightarrow> (Inr addrs, dns_insert authority addrs now' cache))))"

section \<open>Connecting\<close>

datatype 'a attempt = TimedOut | Refused error | Connected 'a

text \<open>The result and the addresses that were dialled, in order.\<close>

fun connect_loop ::
  "EgressPolicy \<Rightarrow> (SocketAddr \<Rightarrow> 'a attempt) \<Rightarrow> SocketAddr list \<Rightarrow> error option \<Rightarrow> 'a result \<times> SocketAddr list"
where
  "connect_loop egress connect [] last_error =
     (Inl (case last_error of Some e \<Rightarrow> e | None \<Rightarrow> Bail ''no resolved egress address''), [])"
| "connect_loop egress connect (addr # addrs) last_error =
     (case validate_resolved_addr egress addr of
        Inl e \<Rightarrow> connect_loop egress connect addrs (Some e)
      | Inr _ \<Rightarrow>
          (case connect addr of
             Connected stream \<Rightarrow> (Inr stream, [addr])
           | TimedOut \<Rightarrow>
               map_prod id (Cons addr) (connect_loop egress connect addrs (Some (Bail ''connection timed out'')))
           | Refused e \<Rightarrow> map_prod id (Cons addr) (connect_loop egress connect addrs (Some e))))"

definition connect_first_allowed ::
  "SocketAddr list \<Rightarrow> EgressPolicy \<Rightarrow> (SocketAddr \<Rightarrow> 'a attempt) \<Rightarrow> 'a result \<times> SocketAddr list"
where
  "connect_first_allowed addrs egress connect = connect_loop egress connect addrs None"

text \<open>The UDP relay takes the first allowed address.\<close>

definition select_udp_target :: "EgressPolicy \<Rightarrow> SocketAddr list \<Rightarrow> SocketAddr result" where
  "select_udp_target egress addrs =
     (case find (\<lambda>addr. validate_resolved_addr egress addr = Inr ()) addrs of
        Some addr \<Rightarrow> Inr addr
      | None \<Rightarrow> Inl (Bail ''no allowed UDP egress address''))"

section \<open>Address literals\<close>

text \<open>A printed address is in lower case.\<close>

definition lower_case :: "bytes \<Rightarrow> bool" where
  "lower_case s \<longleftrightarrow> to_ascii_lowercase s = s"

lemma lower_case_append [simp]: "lower_case (a @ b) \<longleftrightarrow> lower_case a \<and> lower_case b"
  by (auto simp: lower_case_def to_ascii_lowercase_def append_eq_append_conv)

lemma lower_case_Cons: "lower_case (b # s) \<longleftrightarrow> lower b = b \<and> lower_case s"
  by (auto simp: lower_case_def to_ascii_lowercase_def)

lemma lower_case_Nil [simp]: "lower_case []"
  by (simp add: lower_case_def to_ascii_lowercase_def)

lemma lower_punct [simp]: "lower 46 = 46" "lower 58 = 58"
  by (simp_all add: lower_def)

lemma lower_digit: "d < 16 \<Longrightarrow> lower (digit_byte d) = digit_byte d"
proof -
  assume d: "d < 16"
  have "unat (digit_byte d) = (if d < 10 then 48 + d else 87 + d)"
    using d unfolding digit_byte_def by (simp only: unat_of_nat_byte split: if_split) simp
  with d show ?thesis unfolding lower_def by simp
qed

lemma lower_num: "2 \<le> radix \<Longrightarrow> radix \<le> 16 \<Longrightarrow> lower_case (num_string radix n)"
proof (induction radix n rule: num_string.induct)
  case (1 radix n)
  have "n mod radix < 16" using 1(2,3) mod_less_divisor [of radix n] by linarith
  with 1 lower_digit [of n] lower_digit [of "n mod radix"] show ?case
    by (subst num_string.simps) (auto simp: lower_case_Cons)
qed

lemma lower_dotted: "lower_case (dotted i a)"
  by (induction a arbitrary: i) (simp_all add: dec_def lower_num lower_case_Cons)

lemma lower_groups: "lower_case (groups_text i gs)"
  by (induction gs arbitrary: i) (simp_all add: hex_def lower_num lower_case_Cons)

lemma lower_ip_string: "lower_case (ip_string ip)"
proof -
  have "lower_case (ascii ''::ffff:'')" by (simp add: ascii_def of_char_def lower_case_Cons lower_def)
  then show ?thesis
    by (cases ip) (auto simp: v4_string_def v6_string_def lower_dotted lower_groups lower_case_Cons split: option.splits prod.splits)
qed

text \<open>The text of a socket address, as \<^verbatim>\<open>SocksTarget::authority\<close> writes it.\<close>

definition literal_authority :: "IpAddr \<Rightarrow> u16 \<Rightarrow> rstring" where
  "literal_authority ip port =
     (case ip of
        V4 a \<Rightarrow> v4_string a @ 58 # dec (unat port)
      | V6 a \<Rightarrow> 91 # v6_string a @ 93 # 58 # dec (unat port))"

lemma parse_literal:
  assumes "ip_wf ip"
  shows "parse_socket (literal_authority ip port) = Some (socket_new ip port)"
proof (cases ip)
  case (V4 a)
  have "read_port (58 # dec (unat port)) = Some (port, [])" using read_port_print [of "[]" port] by simp
  moreover have "read_ipv4_addr (v4_string a @ 58 # dec (unat port)) = Some (a, 58 # dec (unat port))"
    using assms V4 by (intro read_ipv4_print) simp_all
  ultimately show ?thesis
    by (simp add: V4 literal_authority_def parse_socket_def parse_all_def read_socket_addr_def read_socket_v4_def socket_new_def)
next
  case (V6 a)
  let ?r = "93 # 58 # dec (unat port)"
  have p: "read_port (58 # dec (unat port)) = Some (port, [])" using read_port_print [of "[]" port] by simp
  have ip: "read_ipv6_addr (v6_string a @ ?r) = Some (a, ?r)"
    using assms V6 by (intro read_ipv6_print) simp_all
  have "no_digit 10 (91 # x)" for x by (simp add: no_digit_def is_digit_def to_digit_def)
  then have "read_ipv4_addr (91 # v6_string a @ ?r) = None"
    by (simp add: read_ipv4_addr_def read_separator_def read_octet_def no_number)
  with p ip show ?thesis
    by (simp add: V6 literal_authority_def parse_socket_def parse_all_def read_socket_addr_def read_socket_v4_def
      read_socket_v6_def read_given_char_def read_scope_id_def socket_new_def)
qed

lemma split_literal: "ip_wf ip \<Longrightarrow> split_authority (literal_authority ip port) = Inr (ip_string ip, port)"
  by (cases ip) (simp_all add: split_authority_def parse_literal socket_new_def)

lemma private_literal_refused:
  assumes "ip_wf ip" "is_private_or_special ip" "deny_private_ips policy"
  shows "\<exists>e. validate_authority policy (literal_authority ip port) = Inl e"
  using assms lower_ip_string [of ip] parse_ip_string [OF assms(1)]
  by (auto simp: validate_authority_def split_literal lower_case_def Let_def)

section \<open>Connecting only where the policy allows\<close>

definition addr_allowed :: "EgressPolicy \<Rightarrow> SocketAddr \<Rightarrow> bool" where
  "addr_allowed policy addr \<longleftrightarrow>
     (deny_private_ips policy \<longrightarrow> \<not> is_private_or_special (sock_ip addr)) \<and>
     sock_port addr \<notin> set (block_ports policy) \<and>
     (allow_ports policy \<noteq> [] \<longrightarrow> sock_port addr \<in> set (allow_ports policy))"

lemma validate_resolved_iff: "validate_resolved_addr policy addr = Inr () \<longleftrightarrow> addr_allowed policy addr"
  by (auto simp: validate_resolved_addr_def addr_allowed_def)

lemma validate_resolved_cases:
  obtains "addr_allowed policy addr" "validate_resolved_addr policy addr = Inr ()"
  | e where "\<not> addr_allowed policy addr" "validate_resolved_addr policy addr = Inl e"
  using validate_resolved_iff [of policy addr] by (cases "validate_resolved_addr policy addr") auto

lemma connect_loop_allowed:
  "connect_loop egress connect addrs err = (r, dialled) \<Longrightarrow>
     (\<forall>a \<in> set dialled. a \<in> set addrs \<and> addr_allowed egress a) \<and>
     (case r of
        Inr s \<Rightarrow> dialled \<noteq> [] \<and> connect (last dialled) = Connected s
      | Inl _ \<Rightarrow> \<forall>a \<in> set addrs. addr_allowed egress a \<longrightarrow> (\<forall>s. connect a \<noteq> Connected s))"
proof (induction addrs arbitrary: err r dialled)
  case Nil
  then show ?case by (auto split: option.splits)
next
  case (Cons a addrs)
  show ?case
  proof (cases rule: validate_resolved_cases [of egress a])
    case 1
    show ?thesis
    proof (cases "connect a")
      case (Connected s)
      with 1 Cons.prems show ?thesis by auto
    next
      case TimedOut
      with 1 Cons.prems obtain d where d: "dialled = a # d"
        "connect_loop egress connect addrs (Some (Bail ''connection timed out'')) = (r, d)" by (auto simp: map_prod_def split: prod.splits)
      from Cons.IH [OF d(2)] 1(1) TimedOut d(1) show ?thesis by (auto split: sum.splits)
    next
      case (Refused e)
      with 1 Cons.prems obtain d where d: "dialled = a # d"
        "connect_loop egress connect addrs (Some e) = (r, d)" by (auto simp: map_prod_def split: prod.splits)
      from Cons.IH [OF d(2)] 1(1) Refused d(1) show ?thesis by (auto split: sum.splits)
    qed
  next
    case (2 e)
    with Cons.prems have "connect_loop egress connect addrs (Some e) = (r, dialled)" by simp
    from Cons.IH [OF this] 2(1) show ?thesis by (auto split: sum.splits)
  qed
qed

section \<open>The cache\<close>

datatype dns_op = DnsGet rstring nat | DnsInsert rstring "SocketAddr list" nat nat

fun dns_step :: "dns_op \<Rightarrow> DnsCache \<Rightarrow> DnsCache" where
  "dns_step (DnsGet authority now) c = snd (dns_get authority now c)"
| "dns_step (DnsInsert authority addrs now ttl) c = dns_insert_with_ttl authority addrs now ttl c"

definition dns_inv :: "dns_op set \<Rightarrow> DnsCache \<Rightarrow> bool" where
  "dns_inv hist c \<longleftrightarrow> hm_wf c \<and> length c \<le> DNS_CACHE_CAPACITY \<and>
     (\<forall>(k, addrs, expires) \<in> set c. \<exists>t ttl. DnsInsert k addrs t ttl \<in> hist \<and> expires = t + min ttl DNS_CACHE_TTL)"

lemma oldest_in: "oldest_entry c = Some (k, e) \<Longrightarrow> k \<in> fst ` set c"
  by (induction c arbitrary: k e rule: oldest_entry.induct) (force split: option.splits if_splits)+

lemma oldest_None: "oldest_entry c = None \<longleftrightarrow> c = []"
  by (induction c rule: oldest_entry.induct) (auto split: option.splits if_splits)

lemma hm_remove_present: "k \<in> fst ` set c \<Longrightarrow> length (hm_remove k c) < length c"
  by (force simp: hm_remove_def intro!: length_filter_less)

lemma dns_inv_step: "dns_inv hist c \<Longrightarrow> dns_inv (insert x hist) (dns_step x c)"
proof (cases x)
  case (DnsGet a now)
  assume inv: "dns_inv hist c"
  have "dns_inv (insert x hist) (hm_remove k c)" "dns_inv (insert x hist) c" for k
    using inv hm_remove_length [of k c] hm_set_remove [of k c] unfolding dns_inv_def by (auto, blast+)
  with DnsGet show ?thesis by (auto simp: dns_get_def split: option.splits)
next
  case (DnsInsert a addrs now ttl)
  assume inv: "dns_inv hist c"
  define c1 where "c1 = filter (\<lambda>(_, _, expires). now < expires) c"
  define c2 where "c2 = (if length c1 \<ge> DNS_CACHE_CAPACITY \<and> map_of c1 a = None then
      (case oldest_entry c1 of Some (k, _) \<Rightarrow> hm_remove k c1 | None \<Rightarrow> c1) else c1)"
  have step: "dns_step x c = hm_insert a (addrs, now + min ttl DNS_CACHE_TTL) c2"
    by (simp only: DnsInsert dns_step.simps dns_insert_with_ttl_def Let_def c2_def c1_def)
  have "length c1 \<le> length c" unfolding c1_def by (rule length_filter_le)
  also have "length c \<le> DNS_CACHE_CAPACITY" using inv by (simp add: dns_inv_def)
  finally have c1: "length c1 \<le> DNS_CACHE_CAPACITY" "hm_wf c1" "set c1 \<subseteq> set c"
    using inv by (simp_all add: c1_def dns_inv_def hm_wf_def distinct_map_filter)
  have c2: "hm_wf c2" "set c2 \<subseteq> set c1" unfolding c2_def
    using c1(2) by (auto split: option.splits dest: hm_set_remove [THEN subsetD])
  have len: "length (hm_insert a (addrs, now + min ttl DNS_CACHE_TTL) c2) \<le> DNS_CACHE_CAPACITY"
  proof (cases "a \<in> fst ` set c2")
    case True
    then have "length (hm_insert a v c2) \<le> length c2" for v
      using hm_remove_present [OF True] by (simp add: hm_insert_def)
    moreover have "length c2 \<le> length c1"
      by (auto simp: c2_def hm_remove_length split: option.splits)
    ultimately show ?thesis using c1(1) by (meson order_trans)
  next
    case False
    have "length c2 < DNS_CACHE_CAPACITY"
    proof (cases "length c1 \<ge> DNS_CACHE_CAPACITY")
      case True
      have "0 < DNS_CACHE_CAPACITY" by (simp add: DNS_CACHE_CAPACITY_def)
      with True obtain k e where o: "oldest_entry c1 = Some (k, e)"
        using oldest_None [of c1] by (cases "oldest_entry c1") auto
      show ?thesis
      proof (cases "map_of c1 a = None")
        case True
        with o \<open>length c1 \<ge> DNS_CACHE_CAPACITY\<close> have "c2 = hm_remove k c1" by (simp add: c2_def)
        with hm_remove_present [OF oldest_in [OF o]] c1(1) show ?thesis by simp
      next
        case present: False
        then have "c2 = c1" by (auto simp: c2_def)
        with present False show ?thesis by (simp add: map_of_eq_None_iff)
      qed
    next
      case False
      then show ?thesis by (simp add: c2_def)
    qed
    then show ?thesis using hm_insert_length [of a "(addrs, now + min ttl DNS_CACHE_TTL)" c2] by linarith
  qed
  have "\<forall>(k, as, expires) \<in> set (dns_step x c). \<exists>t ttl. DnsInsert k as t ttl \<in> insert x hist \<and> expires = t + min ttl DNS_CACHE_TTL"
  proof safe
    fix k as expires
    assume "(k, as, expires) \<in> set (dns_step x c)"
    then consider "k = a" "as = addrs" "expires = now + min ttl DNS_CACHE_TTL" | "(k, as, expires) \<in> set c"
      using hm_set_insert [of a "(addrs, now + min ttl DNS_CACHE_TTL)" c2] c2(2) c1(3) unfolding step by blast
    then show "\<exists>t ttl. DnsInsert k as t ttl \<in> insert x hist \<and> expires = t + min ttl DNS_CACHE_TTL"
    proof cases
      case 1
      with DnsInsert show ?thesis by blast
    next
      case 2
      with inv show ?thesis unfolding dns_inv_def by fast
    qed
  qed
  with c2(1) len show ?thesis unfolding dns_inv_def step by blast
qed

lemma dns_inv_run: "dns_inv hist c \<Longrightarrow> dns_inv (hist \<union> set xs) (fold dns_step xs c)"
proof (induction xs arbitrary: hist c)
  case (Cons x xs)
  from Cons.IH [OF dns_inv_step [OF Cons.prems, of x]] show ?case by simp
qed simp

text \<open>
  C36: the resolver's cache is bounded and its answers are fresh. After any lookups and insertions it
  holds at most 256 names, and an answer it gives at some time was inserted for that name less than
  60 seconds before, or less than the time to live it was inserted with.
\<close>

theorem dns_answers_fresh:
  "length (fold dns_step xs []) \<le> DNS_CACHE_CAPACITY \<and>
   (fst (dns_get authority now (fold dns_step xs [])) = Some addrs \<longrightarrow>
      (\<exists>t ttl. DnsInsert authority addrs t ttl \<in> set xs \<and> now < t + DNS_CACHE_TTL \<and> now < t + ttl))"
proof -
  have inv: "dns_inv (set xs) (fold dns_step xs [])"
    using dns_inv_run [of "{}" "[]" xs] by (simp add: dns_inv_def)
  have "\<exists>t ttl. DnsInsert authority addrs t ttl \<in> set xs \<and> now < t + DNS_CACHE_TTL \<and> now < t + ttl"
    if got: "fst (dns_get authority now (fold dns_step xs [])) = Some addrs"
  proof -
    from got obtain e where e: "map_of (fold dns_step xs []) authority = Some (addrs, e)" "now < e"
      by (auto simp: dns_get_def split: option.splits if_splits)
    then have "(authority, addrs, e) \<in> set (fold dns_step xs [])" by (simp add: map_of_SomeD)
    with inv obtain t ttl where "DnsInsert authority addrs t ttl \<in> set xs" "e = t + min ttl DNS_CACHE_TTL"
      unfolding dns_inv_def by fast
    moreover from this e(2) have "now < t + DNS_CACHE_TTL" "now < t + ttl" by simp_all
    ultimately show ?thesis by blast
  qed
  with inv show ?thesis by (auto simp: dns_inv_def)
qed

theorem dns_answers_fresh_witness:
  "fst (dns_get [97] 59999 (fold dns_step [DnsInsert [97] [SocketV4 [9, 9, 9, 9] 53] 0 90000, DnsGet [98] 7] [])) =
     Some [SocketV4 [9, 9, 9, 9] 53] \<and>
   (\<exists>t ttl. DnsInsert [97] [SocketV4 [9, 9, 9, 9] 53] t ttl \<in> set [DnsInsert [97] [SocketV4 [9, 9, 9, 9] 53] 0 90000, DnsGet [98] 7] \<and>
     59999 < t + DNS_CACHE_TTL \<and> 59999 < t + ttl)"
proof -
  let ?xs = "[DnsInsert [97] [SocketV4 [9, 9, 9, 9] 53] 0 90000, DnsGet [98] 7]"
  have "fst (dns_get [97] 59999 (fold dns_step ?xs [])) = Some [SocketV4 [9, 9, 9, 9] 53]"
    by (simp add: dns_insert_with_ttl_def dns_get_def hm_insert_def hm_remove_def DNS_CACHE_TTL_def DNS_CACHE_CAPACITY_def Let_def)
  with dns_answers_fresh [of ?xs "[97]" 59999 "[SocketV4 [9, 9, 9, 9] 53]"] show ?thesis by blast
qed

end
