(* ===== verification/Esp_Socks5.thy ===== *)
theory Esp_Socks5
  imports Esp_Net_Addr Esp_Request
begin

text \<open>
  The SOCKS5 ingress (\<^verbatim>\<open>ingress/socks5.rs\<close>) and the credentials it checks (\<^verbatim>\<open>ingress/auth.rs\<close>): the
  negotiation and the request on a stream, the datagram format, and the reassembly of fragmented
  datagrams. Instants are milliseconds.
\<close>

section \<open>Credentials\<close>

record ProxyAuth =
  pa_username :: rstring
  pa_password :: rstring

definition auth_validate :: "ProxyAuth \<Rightarrow> unit result" where
  "auth_validate a =
     (if pa_username a = [] then Inl (Bail ''local.auth.username must not be empty'')
      else if length (pa_username a) > 255 then Inl (Bail ''local.auth.username must be at most 255 bytes'')
      else if pa_password a = [] then Inl (Bail ''local.auth.password must not be empty'')
      else if length (pa_password a) > 255 then Inl (Bail ''local.auth.password must be at most 255 bytes'')
      else Inr ())"

text \<open>The comparison takes constant time in the code; its result is equality.\<close>

definition auth_matches :: "ProxyAuth \<Rightarrow> bytes \<Rightarrow> bytes \<Rightarrow> bool" where
  "auth_matches a username password =
     (if length username \<noteq> length (pa_username a) \<or> length password \<noteq> length (pa_password a) then False
      else username = pa_username a \<and> password = pa_password a)"

section \<open>Requests on a stream\<close>

record SocksTarget =
  t_host :: rstring
  t_port :: u16

datatype SocksRequest = Connect SocksTarget | UdpAssociate

definition socks_authority :: "SocksTarget \<Rightarrow> rstring" where
  "socks_authority t =
     (if parse_ipv6 (t_host t) \<noteq> None
      then 91 # t_host t @ 93 # 58 # dec (unat (t_port t))
      else t_host t @ 58 # dec (unat (t_port t)))"

definition socks_reply :: "u8 \<Rightarrow> (conn, unit) io" where
  "socks_reply code = write_all [5, code, 0, 1, 0, 0, 0, 0, 0, 0]"

definition verify_password_auth :: "ProxyAuth \<Rightarrow> (conn, unit) io" where
  "verify_password_auth auth =
     io_bind read_u8 (\<lambda>ver.
       if ver \<noteq> 1 then
         io_then (write_all [1, 1]) (io_fail (BailNum ''unsupported SOCKS username/password auth version'' (unat ver)))
       else
         io_bind read_u8 (\<lambda>username_len.
           if username_len = 0 then io_then (write_all [1, 1]) (io_fail (Bail ''SOCKS username must not be empty''))
           else
             io_bind (read_exact (unat username_len)) (\<lambda>username.
             io_bind read_u8 (\<lambda>password_len.
               if password_len = 0 then io_then (write_all [1, 1]) (io_fail (Bail ''SOCKS password must not be empty''))
               else
                 io_bind (read_exact (unat password_len)) (\<lambda>password.
                   if \<not> auth_matches auth username password
                   then io_then (write_all [1, 1]) (io_fail (Bail ''SOCKS username/password auth failed''))
                   else write_all [1, 0])))))"

definition negotiate_auth :: "bytes \<Rightarrow> ProxyAuth option \<Rightarrow> (conn, unit) io" where
  "negotiate_auth methods auth =
     (case auth of
        Some auth \<Rightarrow>
          if 2 \<notin> set methods
          then io_then (write_all [5, 0xFF]) (io_fail (Bail ''SOCKS client did not offer username/password auth''))
          else io_then (write_all [5, 2]) (verify_password_auth auth)
      | None \<Rightarrow>
          if 0 \<notin> set methods
          then io_then (write_all [5, 0xFF]) (io_fail (Bail ''SOCKS client did not offer no-auth method''))
          else write_all [5, 0])"

definition read_host :: "u8 \<Rightarrow> (conn, rstring) io" where
  "read_host atyp =
     (if atyp = 1 then io_bind (read_exact 4) (\<lambda>ip. io_return (v4_string ip))
      else if atyp = 3 then
        io_bind read_u8 (\<lambda>len.
        io_bind (read_exact (unat len)) (\<lambda>name.
          if utf8_valid name \<and> name \<noteq> [] \<and> 0 \<notin> set name then io_return name
          else io_then (socks_reply 8) (io_fail (Bail ''invalid SOCKS5 domain name''))))
      else if atyp = 4 then io_bind (read_exact 16) (\<lambda>ip. io_return (v6_string (segments_of ip)))
      else io_then (socks_reply 8) (io_fail (BailNum ''unsupported address type'' (unat atyp))))"

definition accept_request_with_auth :: "ProxyAuth option \<Rightarrow> (conn, SocksRequest) io" where
  "accept_request_with_auth auth =
     io_bind read_u8 (\<lambda>ver.
       if ver \<noteq> 5 then io_fail (BailNum ''unsupported SOCKS version'' (unat ver))
       else
         io_bind read_u8 (\<lambda>methods_len.
         io_bind (read_exact (unat methods_len)) (\<lambda>methods.
         io_then (negotiate_auth methods auth)
         (io_bind read_u8 (\<lambda>ver.
         io_bind read_u8 (\<lambda>cmd.
         io_bind read_u8 (\<lambda>rsv.
         io_bind read_u8 (\<lambda>atyp.
           if ver \<noteq> 5 then io_then (socks_reply 7) (io_fail (BailNum ''unsupported SOCKS request version'' (unat ver)))
           else if rsv \<noteq> 0 then io_then (socks_reply 1) (io_fail (Bail ''SOCKS request reserved byte must be zero''))
           else
             io_bind (read_host atyp) (\<lambda>host.
             io_bind read_u16 (\<lambda>port.
               if cmd = 1 then
                 io_then (socks_reply 0) (io_return (Connect \<lparr>t_host = host, t_port = port\<rparr>))
               else if cmd = 3 then io_return UdpAssociate
               else io_then (socks_reply 7) (io_fail (BailNum ''unsupported SOCKS5 command'' (unat cmd)))))))))))))"

definition accept_connect_with_auth :: "ProxyAuth option \<Rightarrow> (conn, SocksTarget) io" where
  "accept_connect_with_auth auth =
     io_bind (accept_request_with_auth auth) (\<lambda>request.
       case request of
         Connect target \<Rightarrow> io_return target
       | UdpAssociate \<Rightarrow> io_fail (Bail ''SOCKS5 UDP ASSOCIATE is not a CONNECT request''))"

definition accept_connect :: "(conn, SocksTarget) io" where
  "accept_connect = accept_connect_with_auth None"

definition reply_udp_associate :: "SocketAddr \<Rightarrow> (conn, unit) io" where
  "reply_udp_associate bound =
     (case bound of
        SocketV4 ip port \<Rightarrow> write_all ([5, 0, 0, 1] @ ip @ to_be_u16 port)
      | SocketV6 ip port _ \<Rightarrow> write_all ([5, 0, 0, 4] @ v6_octets ip @ to_be_u16 port))"

section \<open>Datagrams\<close>

record SocksUdpPacket =
  sp_target :: SocksTarget
  sp_payload :: bytes

text \<open>What follows the address type: the host, and the bytes from the port on.\<close>

definition parse_udp_host :: "u8 \<Rightarrow> bytes \<Rightarrow> (rstring \<times> bytes) result" where
  "parse_udp_host atyp rest =
     (if atyp = 1 then
        if length rest < 4 + 2 then Inl (Bail ''SOCKS UDP IPv4 packet too short'')
        else Inr (v4_string (take 4 rest), drop 4 rest)
      else if atyp = 3 then
        if length rest < 1 then Inl (Bail ''SOCKS UDP domain packet too short'')
        else
          let len = unat (hd rest); rest = tl rest in
          if length rest < len + 2 then Inl (Bail ''SOCKS UDP domain packet too short'')
          else
            let host = take len rest in
            if \<not> utf8_valid host then Inl Utf8Error
            else if host = [] \<or> 0 \<in> set host then Inl (Bail ''invalid SOCKS UDP domain name'')
            else Inr (host, drop len rest)
      else if atyp = 4 then
        if length rest < 16 + 2 then Inl (Bail ''SOCKS UDP IPv6 packet too short'')
        else Inr (v6_string (segments_of (take 16 rest)), drop 16 rest)
      else Inl (BailNum ''unsupported SOCKS UDP address type'' (unat atyp)))"

definition parse_udp_packet_inner :: "bytes \<Rightarrow> (u8 \<times> SocksUdpPacket) result" where
  "parse_udp_packet_inner input =
     (if length input < 4 then Inl (Bail ''SOCKS UDP packet too short'')
      else if input ! 0 \<noteq> 0 \<or> input ! 1 \<noteq> 0 then Inl (Bail ''SOCKS UDP reserved bytes are invalid'')
      else
        res_bind (parse_udp_host (input ! 3) (drop 4 input)) (\<lambda>(host, rest).
          Inr (input ! 2, \<lparr>sp_target = \<lparr>t_host = host, t_port = from_be_u16 (take 2 rest)\<rparr>, sp_payload = drop 2 rest\<rparr>)))"

definition parse_udp_packet :: "bytes \<Rightarrow> SocksUdpPacket result" where
  "parse_udp_packet input =
     res_bind (parse_udp_packet_inner input) (\<lambda>(frag, packet).
       if frag \<noteq> 0 then Inl (Bail ''SOCKS UDP fragmentation is not supported by packet parser'')
       else Inr packet)"

definition build_udp_packet :: "SocksTarget \<Rightarrow> bytes \<Rightarrow> bytes result" where
  "build_udp_packet target payload =
     res_bind
       (case parse_ipv4 (t_host target) of
          Some ip \<Rightarrow> Inr (1 # ip)
        | None \<Rightarrow>
            (case parse_ipv6 (t_host target) of
               Some ip \<Rightarrow> Inr (4 # v6_octets ip)
             | None \<Rightarrow>
                 let host = t_host target in
                 if host = [] \<or> 0 \<in> set host then Inl (Bail ''invalid SOCKS UDP domain name'')
                 else if length host > 255 then Inl (Bail ''SOCKS UDP domain name too long'')
                 else Inr (3 # of_nat (length host) # host)))
       (\<lambda>address. Inr ([0, 0, 0] @ address @ to_be_u16 (t_port target) @ payload))"

section \<open>Reassembly\<close>

definition SOCKS_UDP_FRAGMENT_TIMEOUT :: nat where
  "SOCKS_UDP_FRAGMENT_TIMEOUT = 5000"

record SocksUdpReassembler =
  u_target :: "SocksTarget option"
  u_payload :: bytes
  u_next_fragment :: nat
  u_expires_at :: "nat option"
  u_peer :: "SocketAddr option"

definition reassembler_default :: SocksUdpReassembler where
  "reassembler_default = \<lparr>u_target = None, u_payload = [], u_next_fragment = 1, u_expires_at = None, u_peer = None\<rparr>"

definition reassembler_reset :: "SocksUdpReassembler \<Rightarrow> SocksUdpReassembler" where
  "reassembler_reset u =
     u\<lparr>u_target := None, u_payload := [], u_next_fragment := 1, u_expires_at := None, u_peer := None\<rparr>"

definition push_for_peer ::
  "nat \<Rightarrow> SocketAddr option \<Rightarrow> bytes \<Rightarrow> SocksUdpReassembler \<Rightarrow> SocksUdpPacket option result \<times> SocksUdpReassembler"
where
  "push_for_peer now peer input u =
     (case parse_udp_packet_inner input of
        Inl e \<Rightarrow> (Inl e, reassembler_reset u)
      | Inr (frag, packet) \<Rightarrow>
          if frag = 0 then (Inr (Some packet), reassembler_reset u)
          else
            let u = (case u_expires_at u of Some deadline \<Rightarrow> if now \<ge> deadline then reassembler_reset u else u | None \<Rightarrow> u);
                sequence = unat frag mod 128;
                final_fragment = unat frag \<ge> 128
            in if sequence = 0 then (Inr None, reassembler_reset u)
               else if sequence \<noteq> 1 \<and> u_target u = None then (Inr None, u)
               else
                 let u = (if sequence = 1 then
                            (reassembler_reset u)\<lparr>u_target := Some (sp_target packet),
                              u_expires_at := Some (now + SOCKS_UDP_FRAGMENT_TIMEOUT), u_peer := peer\<rparr>
                          else u)
                 in if sequence \<noteq> u_next_fragment u \<or> u_peer u \<noteq> peer \<or> u_target u \<noteq> Some (sp_target packet) \<or>
                       sat_add (length (u_payload u)) (length (sp_payload packet)) > MAX_UDP_PAYLOAD_LEN
                    then (Inr None, reassembler_reset u)
                    else
                      let u = u\<lparr>u_payload := u_payload u @ sp_payload packet\<rparr> in
                      if final_fragment then
                        (Inr (Some \<lparr>sp_target = the (u_target u), sp_payload = u_payload u\<rparr>), reassembler_reset u)
                      else
                        let u = u\<lparr>u_next_fragment := min (u_next_fragment u + 1) 255\<rparr> in
                        (Inr None, if u_next_fragment u > 127 then reassembler_reset u else u))"

definition push :: "nat \<Rightarrow> bytes \<Rightarrow> SocksUdpReassembler \<Rightarrow> SocksUdpPacket option result \<times> SocksUdpReassembler" where
  "push now input = push_for_peer now None input"

definition push_from ::
  "nat \<Rightarrow> SocketAddr \<Rightarrow> bytes \<Rightarrow> SocksUdpReassembler \<Rightarrow> SocksUdpPacket option result \<times> SocksUdpReassembler"
where
  "push_from now peer input = push_for_peer now (Some peer) input"

end
