(* ===== verification/Esp_Chain.thy ===== *)
theory Esp_Chain
  imports Esp_Egress Esp_Socks5
begin

text \<open>
  The server's way out: the client sides of SOCKS4, SOCKS5 and HTTP proxies (\<^verbatim>\<open>socks5_chain.rs\<close>,
  \<^verbatim>\<open>http_chain.rs\<close>) and the connector that applies the policy and goes through the proxy or resolves
  and dials (\<^verbatim>\<open>relay.rs\<close>). The network, the resolver, TLS and the base64 encoder come from outside.
\<close>

section \<open>The outside\<close>

text \<open>
  A connection is what the peer sends and what was written to it. \<open>n_udp a d\<close> is the datagram that
  answers \<open>d\<close> sent to \<open>a\<close>, or the error of the socket or of the timeout; \<open>n_short k\<close> bounds the
  \<open>k\<close>-th read of a response.
\<close>

record net =
  n_connect :: "rstring \<Rightarrow> conn result"
  n_peer_ip :: "rstring \<Rightarrow> IpAddr"
  n_tls :: "rstring \<Rightarrow> conn \<Rightarrow> conn result"
  n_base64 :: "bytes \<Rightarrow> bytes"
  n_short :: "nat \<Rightarrow> nat"
  n_udp :: "SocketAddr \<Rightarrow> bytes \<Rightarrow> bytes result"
  n_dial :: "SocketAddr \<Rightarrow> conn attempt"
  n_lookup :: "nat \<Rightarrow> nat \<times> SocketAddr list result"
  n_before :: nat
  n_after :: nat

definition on_stream :: "(conn, unit) io \<Rightarrow> conn \<Rightarrow> conn result" where
  "on_stream m c = (case m c of (Inl e, _) \<Rightarrow> Inl e | (Inr _, d) \<Rightarrow> Inr d)"

section \<open>SOCKS proxies\<close>

definition authenticate_username_password :: "EgressProxy \<Rightarrow> (conn, unit) io" where
  "authenticate_username_password proxy =
     (case x_username proxy of
        None \<Rightarrow> io_fail (Bail ''SOCKS5 proxy requested username/password but username is missing'')
      | Some username \<Rightarrow>
          let password = (case x_password proxy of Some p \<Rightarrow> p | None \<Rightarrow> []) in
          if length username > 255 then io_fail (Bail ''SOCKS5 proxy username too long'')
          else if length password > 255 then io_fail (Bail ''SOCKS5 proxy password too long'')
          else
            io_then (write_all (1 # of_nat (length username) # username @ of_nat (length password) # password))
              (io_bind (read_exact 2) (\<lambda>response.
                if response = [1, 0] then io_return ()
                else io_fail (Bail ''SOCKS5 proxy username/password authentication failed''))))"

definition negotiate :: "EgressProxy \<Rightarrow> (conn, unit) io" where
  "negotiate proxy =
     io_then (if x_username proxy \<noteq> None then write_all [5, 2, 0, 2] else write_all [5, 1, 0])
       (io_bind (read_exact 2) (\<lambda>m.
         if m ! 0 \<noteq> 5 then io_fail (Bail ''SOCKS5 proxy returned invalid version'')
         else if m ! 1 = 0 then io_return ()
         else if m ! 1 = 2 then authenticate_username_password proxy
         else if m ! 1 = 0xFF then io_fail (Bail ''SOCKS5 proxy rejected offered auth methods'')
         else io_fail (BailNum ''SOCKS5 proxy selected unsupported auth method'' (unat (m ! 1)))))"

definition write_socks4_connect :: "EgressProxy \<Rightarrow> rstring \<Rightarrow> u16 \<Rightarrow> (conn, unit) io" where
  "write_socks4_connect proxy host port =
     (let user = (case x_username proxy of Some u \<Rightarrow> u | None \<Rightarrow> []) in
      if 0 \<in> set user then io_fail (Bail ''SOCKS4 proxy username must not contain NUL'')
      else
        (case x_kind proxy of
           Socks4 \<Rightarrow>
             (case parse_ipv4 host of
                None \<Rightarrow> io_fail (Bail ''SOCKS4 proxy requires an IPv4 literal target; use socks4a:// for domain targets'')
              | Some ip \<Rightarrow> write_all ([4, 1] @ to_be_u16 port @ ip @ user @ [0]))
         | Socks4a \<Rightarrow>
             if 0 \<in> set host then io_fail (Bail ''SOCKS4a target host must not contain NUL'')
             else write_all ([4, 1] @ to_be_u16 port @ [0, 0, 0, 1] @ user @ [0] @ host @ [0])
         | _ \<Rightarrow> io_fail (Bail ''invalid proxy kind for SOCKS4 CONNECT'')))"

definition read_socks4_connect_reply :: "(conn, unit) io" where
  "read_socks4_connect_reply =
     io_bind (read_exact 8) (\<lambda>reply.
       if reply ! 0 = 0 \<and> reply ! 1 = 0x5A then io_return ()
       else io_fail (BailNum ''SOCKS4 proxy CONNECT failed with status'' (unat (reply ! 1))))"

definition write_socks5_connect :: "rstring \<Rightarrow> u16 \<Rightarrow> (conn, unit) io" where
  "write_socks5_connect host port =
     (if length host > 255 then io_fail (Bail ''SOCKS5 proxy target host too long'')
      else write_all ([5, 1, 0, 3, of_nat (length host)] @ host @ to_be_u16 port))"

definition read_socks5_connect_reply :: "(conn, unit) io" where
  "read_socks5_connect_reply =
     io_bind (read_exact 4) (\<lambda>head.
       if \<not> (head ! 0 = 5 \<and> head ! 1 = 0) then io_fail (Bail ''SOCKS5 proxy CONNECT failed'')
       else if head ! 3 = 1 then io_then (read_exact 6) (io_return ())
       else if head ! 3 = 3 then
         io_bind read_u8 (\<lambda>len. io_then (read_exact (unat len + 2)) (io_return ()))
       else if head ! 3 = 4 then io_then (read_exact 18) (io_return ())
       else io_fail (BailNum ''SOCKS5 proxy returned unsupported address type'' (unat (head ! 3))))"

definition is_unspecified :: "IpAddr \<Rightarrow> bool" where
  "is_unspecified ip = (case ip of V4 a \<Rightarrow> a = replicate 4 0 | V6 a \<Rightarrow> a = replicate 8 0)"

definition read_socks5_reply_addr :: "IpAddr \<Rightarrow> (conn, SocketAddr) io" where
  "read_socks5_reply_addr peer_ip =
     io_bind (read_exact 4) (\<lambda>head.
       if \<not> (head ! 0 = 5 \<and> head ! 1 = 0) then io_fail (Bail ''SOCKS5 UDP ASSOCIATE failed'')
       else
         io_bind
           (if head ! 3 = 1 then io_bind (read_exact 4) (\<lambda>ip. io_return (V4 ip))
            else if head ! 3 = 4 then io_bind (read_exact 16) (\<lambda>ip. io_return (V6 (segments_of ip)))
            else io_fail (BailNum ''SOCKS5 proxy returned unsupported UDP relay address type'' (unat (head ! 3))))
           (\<lambda>host. io_bind read_u16 (\<lambda>port.
             io_return (socket_new (if is_unspecified host then peer_ip else host) port))))"

definition encode_socks5_udp_datagram :: "rstring \<Rightarrow> u16 \<Rightarrow> bytes \<Rightarrow> bytes result" where
  "encode_socks5_udp_datagram host port payload =
     (if host = [] then Inl (Bail ''SOCKS5 UDP target host is empty'')
      else if length host > 255 then Inl (Bail ''SOCKS5 UDP target host too long'')
      else Inr ([0, 0, 0, 3, of_nat (length host)] @ host @ to_be_u16 port @ payload))"

definition decode_socks5_udp_datagram :: "bytes \<Rightarrow> bytes result" where
  "decode_socks5_udp_datagram input =
     (if length input < 6 then Inl (Bail ''SOCKS5 UDP response too short'')
      else if \<not> (input ! 0 = 0 \<and> input ! 1 = 0 \<and> input ! 2 = 0)
      then Inl (Bail ''SOCKS5 UDP response has unsupported fragmentation'')
      else
        res_bind
          (if input ! 3 = 1 then Inr (4 + 4)
           else if input ! 3 = 3 then
             if input ! 4 = 0 then Inl (Bail ''SOCKS5 UDP domain is empty'') else Inr (4 + 1 + unat (input ! 4))
           else if input ! 3 = 4 then Inr (4 + 16)
           else Inl (BailNum ''SOCKS5 UDP response has unsupported address type'' (unat (input ! 3))))
          (\<lambda>offset.
             let offset = offset + 2 in
             if length input < offset then Inl (Bail ''SOCKS5 UDP response truncated'')
             else Inr (drop offset input)))"

definition connect_via_socks4_proxy :: "net \<Rightarrow> EgressProxy \<Rightarrow> rstring \<Rightarrow> conn result" where
  "connect_via_socks4_proxy net proxy authority =
     res_bind (split_authority authority) (\<lambda>(host, port).
     res_bind (n_connect net (x_endpoint proxy))
       (on_stream (io_then (write_socks4_connect proxy host port) read_socks4_connect_reply)))"

definition socks5_connect :: "EgressProxy \<Rightarrow> rstring \<Rightarrow> u16 \<Rightarrow> (conn, unit) io" where
  "socks5_connect proxy host port =
     io_then (negotiate proxy) (io_then (write_socks5_connect host port) read_socks5_connect_reply)"

definition connect_via_socks5_proxy :: "net \<Rightarrow> EgressProxy \<Rightarrow> rstring \<Rightarrow> conn result" where
  "connect_via_socks5_proxy net proxy authority =
     res_bind (split_authority authority) (\<lambda>(host, port).
     res_bind (n_connect net (x_endpoint proxy)) (on_stream (socks5_connect proxy host port)))"

definition socks5_associate :: "EgressProxy \<Rightarrow> IpAddr \<Rightarrow> (conn, SocketAddr) io" where
  "socks5_associate proxy peer_ip =
     io_then (negotiate proxy)
       (io_then (write_all [5, 3, 0, 1, 0, 0, 0, 0, 0, 0]) (read_socks5_reply_addr peer_ip))"

definition relay_udp_via_socks5_proxy :: "net \<Rightarrow> EgressProxy \<Rightarrow> rstring \<Rightarrow> bytes \<Rightarrow> bytes result" where
  "relay_udp_via_socks5_proxy net proxy authority payload =
     res_bind (split_authority authority) (\<lambda>(host, port).
     res_bind (n_connect net (x_endpoint proxy)) (\<lambda>control.
     res_bind (fst (socks5_associate proxy (n_peer_ip net (x_endpoint proxy)) control)) (\<lambda>relay.
     res_bind (encode_socks5_udp_datagram host port payload) (\<lambda>request.
     res_bind (n_udp net relay request) decode_socks5_udp_datagram))))"

section \<open>HTTP proxies\<close>

definition MAX_HTTP_CONNECT_RESPONSE :: nat where
  "MAX_HTTP_CONNECT_RESPONSE = 16 * 1024"

definition build_connect_request :: "(bytes \<Rightarrow> bytes) \<Rightarrow> EgressProxy \<Rightarrow> rstring \<Rightarrow> rstring result" where
  "build_connect_request base64 proxy authority =
     res_bind (split_authority authority) (\<lambda>_.
       Inr (ascii ''CONNECT '' @ authority @ ascii '' HTTP/1.1'' @ [13, 10] @ ascii ''Host: '' @ authority @ [13, 10] @
         ascii ''Proxy-Connection: Keep-Alive'' @ [13, 10] @
         (case x_username proxy of
            Some username \<Rightarrow>
              ascii ''Proxy-Authorization: Basic '' @
              base64 (username @ 58 # (case x_password proxy of Some p \<Rightarrow> p | None \<Rightarrow> [])) @ [13, 10]
          | None \<Rightarrow> []) @ [13, 10]))"

text \<open>Reads of at most 512 bytes until the blank line; the result is everything that was read.\<close>

function response_loop :: "(nat \<Rightarrow> nat) \<Rightarrow> nat \<Rightarrow> bytes \<Rightarrow> (conn, bytes) io" where
  "response_loop short k response c =
     (let got = take (max 1 (min (short k) 512)) (rx c);
          d = c\<lparr>rx := drop (length got) (rx c)\<rparr>
      in if got = [] then (Inl (Bail ''HTTP proxy closed before CONNECT response''), c)
         else
           let response = response @ got in
           if length response > MAX_HTTP_CONNECT_RESPONSE then (Inl (Bail ''HTTP proxy CONNECT response too large''), d)
           else if contains_str [13, 10, 13, 10] response then (Inr response, d)
           else response_loop short (Suc k) response d)"
  by pat_completeness auto
termination
  by (relation "measure (\<lambda>(_, _, _, c). length (rx c))") auto

declare response_loop.simps [simp del]

definition check_status :: "bytes \<Rightarrow> unit result" where
  "check_status response =
     (if \<not> utf8_valid response then Inl (Bail ''HTTP proxy response is not UTF-8'')
      else if response = [] then Inl (Bail ''HTTP proxy response is empty'')
      else
        let parts = split_whitespace (first_line response);
            version = (if parts = [] then [] else parts ! 0);
            status = (if length parts < 2 then [] else parts ! 1)
        in if starts_with (ascii ''HTTP/'') version \<and> status = ascii ''200'' then Inr ()
           else Inl (Bail ''HTTP proxy CONNECT failed''))"

definition read_connect_response :: "(nat \<Rightarrow> nat) \<Rightarrow> (conn, unit) io" where
  "read_connect_response short = io_bind (response_loop short 0 []) (\<lambda>response. io_result (check_status response))"

definition http_connect :: "(nat \<Rightarrow> nat) \<Rightarrow> rstring \<Rightarrow> (conn, unit) io" where
  "http_connect short request = io_then (write_all request) (read_connect_response short)"

definition connect_via_http_proxy :: "net \<Rightarrow> EgressProxy \<Rightarrow> rstring \<Rightarrow> conn result" where
  "connect_via_http_proxy net proxy authority =
     res_bind (n_connect net (x_endpoint proxy)) (\<lambda>stream.
     res_bind (build_connect_request (n_base64 net) proxy authority) (\<lambda>request.
       case x_kind proxy of
         Http \<Rightarrow> on_stream (http_connect (n_short net) request) stream
       | Https \<Rightarrow>
           res_bind (split_authority (x_endpoint proxy)) (\<lambda>(host, _).
           res_bind (n_tls net host stream) (on_stream (http_connect (n_short net) request)))
       | _ \<Rightarrow> Inl (Bail ''invalid proxy kind for HTTP CONNECT'')))"

section \<open>The connector\<close>

text \<open>Whom the server contacts: the proxy's endpoint, or an address it resolved.\<close>

datatype contact = ToProxy rstring | ToAddr SocketAddr

definition connect_egress_tcp_inner ::
  "net \<Rightarrow> rstring \<Rightarrow> EgressPolicy \<Rightarrow> DnsCache \<Rightarrow> conn result \<times> contact list \<times> DnsCache"
where
  "connect_egress_tcp_inner net authority egress cache =
     (case validate_authority egress authority of
        Inl e \<Rightarrow> (Inl e, [], cache)
      | Inr _ \<Rightarrow>
          (case upstream_proxy egress of
             Inl e \<Rightarrow> (Inl e, [], cache)
           | Inr (Some proxy) \<Rightarrow>
               ((case x_kind proxy of
                   Socks5 \<Rightarrow> connect_via_socks5_proxy net proxy authority
                 | Http \<Rightarrow> connect_via_http_proxy net proxy authority
                 | Https \<Rightarrow> connect_via_http_proxy net proxy authority
                 | _ \<Rightarrow> connect_via_socks4_proxy net proxy authority),
                [ToProxy (x_endpoint proxy)], cache)
           | Inr None \<Rightarrow>
               (case resolve_socket_addrs (n_lookup net) (n_before net) (n_after net) authority cache of
                  (Inl e, cache) \<Rightarrow> (Inl e, [], cache)
                | (Inr addrs, cache) \<Rightarrow>
                    (case connect_first_allowed addrs egress (n_dial net) of
                       (r, dialled) \<Rightarrow> (r, map ToAddr dialled, cache)))))"

definition relay_udp_datagram_inner ::
  "net \<Rightarrow> rstring \<Rightarrow> bytes \<Rightarrow> EgressPolicy \<Rightarrow> DnsCache \<Rightarrow> bytes result \<times> contact list \<times> DnsCache"
where
  "relay_udp_datagram_inner net authority payload egress cache =
     (case validate_authority egress authority of
        Inl e \<Rightarrow> (Inl e, [], cache)
      | Inr _ \<Rightarrow>
          (case upstream_proxy egress of
             Inl e \<Rightarrow> (Inl e, [], cache)
           | Inr (Some proxy) \<Rightarrow>
               (case x_kind proxy of
                  Socks5 \<Rightarrow> (relay_udp_via_socks5_proxy net proxy authority payload, [ToProxy (x_endpoint proxy)], cache)
                | Http \<Rightarrow> (Inl (Bail ''HTTP/HTTPS egress proxy does not support UDP; use socks5:// for UDP relay''), [], cache)
                | Https \<Rightarrow> (Inl (Bail ''HTTP/HTTPS egress proxy does not support UDP; use socks5:// for UDP relay''), [], cache)
                | _ \<Rightarrow> (Inl (Bail ''SOCKS4/SOCKS4a egress proxy does not support UDP; use socks5:// for UDP relay''), [], cache))
           | Inr None \<Rightarrow>
               (case resolve_socket_addrs (n_lookup net) (n_before net) (n_after net) authority cache of
                  (Inl e, cache) \<Rightarrow> (Inl e, [], cache)
                | (Inr addrs, cache) \<Rightarrow>
                    (case select_udp_target egress addrs of
                       Inl e \<Rightarrow> (Inl e, [], cache)
                     | Inr target \<Rightarrow> (n_udp net target payload, [ToAddr target], cache)))))"

end
