(* ===== verification/Esp_Socks5_Props.thy ===== *)
theory Esp_Socks5_Props
  imports Esp_Socks5
begin

text \<open>
  What the SOCKS5 ingress accepts, the round trip of its datagrams, and what its reassembly gives.
\<close>

section \<open>Requests\<close>

text \<open>The bytes of an address, its type first, and the host they stand for.\<close>

definition socks_host_wire :: "bytes \<Rightarrow> rstring \<Rightarrow> bool" where
  "socks_host_wire w host \<longleftrightarrow>
     (\<exists>ip. length ip = 4 \<and> w = 1 # ip \<and> host = v4_string ip) \<or>
     w = 3 # of_nat (length host) # host \<and> length host \<le> 255 \<and> utf8_valid host \<and> host \<noteq> [] \<and> 0 \<notin> set host \<or>
     (\<exists>ip. length ip = 16 \<and> w = 4 # ip \<and> host = v6_string (segments_of ip))"

definition login_wire :: "ProxyAuth option \<Rightarrow> bytes" where
  "login_wire auth =
     (case auth of
        None \<Rightarrow> []
      | Some a \<Rightarrow> 1 # of_nat (length (pa_username a)) # pa_username a @ of_nat (length (pa_password a)) # pa_password a)"

definition auth_method :: "ProxyAuth option \<Rightarrow> u8" where
  "auth_method auth = (if auth = None then 0 else 2)"

definition login_replies :: "ProxyAuth option \<Rightarrow> bytes" where
  "login_replies auth = [5, auth_method auth] @ (if auth = None then [] else [1, 0])"

definition auth_valid :: "ProxyAuth option \<Rightarrow> bool" where
  "auth_valid auth \<longleftrightarrow> (case auth of None \<Rightarrow> True | Some a \<Rightarrow> auth_validate a = Inr ())"

lemma auth_validD:
  "auth_validate a = Inr () \<Longrightarrow>
     0 < length (pa_username a) \<and> length (pa_username a) \<le> 255 \<and> 0 < length (pa_password a) \<and> length (pa_password a) \<le> 255"
  by (auto simp: auth_validate_def split: if_splits)

lemma auth_matches_iff: "auth_matches a u p \<longleftrightarrow> u = pa_username a \<and> p = pa_password a"
  by (auto simp: auth_matches_def)

lemma byte_length [simp]: "n \<le> 255 \<Longrightarrow> unat (of_nat n :: u8) = n"
  by (simp add: unat_of_nat_byte)

lemma byte_length_0: "n \<le> 255 \<Longrightarrow> 0 < n \<Longrightarrow> (of_nat n :: u8) \<noteq> 0"
  by (metis byte_length less_irrefl unat_0)

lemma byte_le: "unat (b :: u8) \<le> 255"
proof -
  have "unat b < 2 ^ 8" using unsigned_less [of b] by simp
  then show ?thesis by simp
qed

lemma read_host_wire:
  assumes "socks_host_wire (atyp # w) host" "rx c = w @ rest"
  shows "read_host atyp c = (Inr host, c\<lparr>rx := rest\<rparr>)"
  using assms by (auto simp: socks_host_wire_def read_host_def io_simps)

lemma read_host_InrD:
  assumes "read_host atyp c = (Inr host, d)"
  shows "\<exists>w. socks_host_wire (atyp # w) host \<and> rx c = w @ rx d \<and> tx d = tx c"
proof -
  consider "atyp = 1" | "atyp = 3" | "atyp = 4" | "atyp \<noteq> 1 \<and> atyp \<noteq> 3 \<and> atyp \<noteq> 4" by blast
  then show ?thesis
  proof cases
    case 1
    with assms show ?thesis
      by (force simp: read_host_def socks_host_wire_def elim!: io_bind_result_cases dest!: read_exact_InrD)
  next
    case 2
    with assms obtain len where "rx c = len # host @ rx d" "length host = unat len" "utf8_valid host" "host \<noteq> []" "0 \<notin> set host" "tx d = tx c"
      by (auto simp: read_host_def io_simps socks_reply_def elim!: io_bind_result_cases dest!: read_exact_InrD read_u8_InrD split: if_splits)
    with 2 byte_le [of len] show ?thesis by (intro exI [of _ "len # host"]) (auto simp: socks_host_wire_def)
  next
    case 3
    with assms show ?thesis
      by (force simp: read_host_def socks_host_wire_def elim!: io_bind_result_cases dest!: read_exact_InrD)
  next
    case 4
    with assms show ?thesis by (simp add: read_host_def io_simps socks_reply_def)
  qed
qed

lemma negotiate_wire:
  assumes "auth_valid auth" "auth_method auth \<in> set methods" "rx c = login_wire auth @ rest"
  shows "negotiate_auth methods auth c = (Inr (), c\<lparr>rx := rest, tx := tx c @ login_replies auth\<rparr>)"
proof (cases auth)
  case None
  with assms show ?thesis by (cases c) (simp add: negotiate_auth_def auth_method_def login_replies_def login_wire_def io_simps)
next
  case (Some a)
  with assms auth_validD [of a] show ?thesis
    by (cases c)
      (simp add: negotiate_auth_def auth_method_def login_replies_def login_wire_def auth_valid_def verify_password_auth_def
        auth_matches_iff byte_length_0 io_simps)
qed

lemma verify_InrD:
  assumes "verify_password_auth a c = (Inr (), d)"
  shows "rx c = login_wire (Some a) @ rx d \<and> tx d = tx c @ [1, 0]"
  using assms
  by (auto simp: verify_password_auth_def login_wire_def auth_matches_iff io_simps
    elim!: io_bind_result_cases dest!: read_exact_InrD read_u8_InrD split: if_splits)

lemma negotiate_InrD:
  assumes "negotiate_auth methods auth c = (Inr u, d)"
  shows "auth_method auth \<in> set methods \<and> rx c = login_wire auth @ rx d \<and> tx d = tx c @ login_replies auth"
proof (cases auth)
  case None
  with assms show ?thesis by (auto simp: negotiate_auth_def auth_method_def login_replies_def login_wire_def io_simps split: if_splits)
next
  case (Some a)
  with assms show ?thesis
    by (auto simp: negotiate_auth_def auth_method_def login_replies_def io_simps split: if_splits dest!: verify_InrD)
qed

definition request_outcome :: "u8 \<Rightarrow> SocksTarget \<Rightarrow> (SocksRequest \<times> bytes) option" where
  "request_outcome cmd t =
     (if cmd = 1 then Some (Connect t, [5, 0, 0, 1, 0, 0, 0, 0, 0, 0])
      else if cmd = 3 then Some (UdpAssociate, [])
      else None)"

lemma accept_wire:
  assumes "auth_valid auth" "length methods \<le> 255" "auth_method auth \<in> set methods" "socks_host_wire w host"
    and "request_outcome cmd \<lparr>t_host = host, t_port = port\<rparr> = Some (req, reply)"
    and "rx c = [5, of_nat (length methods)] @ methods @ login_wire auth @ [5, cmd, 0] @ w @ to_be_u16 port @ rest"
  shows "accept_request_with_auth auth c = (Inr req, c\<lparr>rx := rest, tx := tx c @ login_replies auth @ reply\<rparr>)"
proof -
  from assms(4) obtain atyp w' where w: "w = atyp # w'" by (auto simp: socks_host_wire_def)
  let ?c = "c\<lparr>rx := login_wire auth @ [5, cmd, 0] @ w @ to_be_u16 port @ rest\<rparr>"
  have n: "negotiate_auth methods auth ?c =
     (Inr (), ?c\<lparr>rx := [5, cmd, 0] @ w @ to_be_u16 port @ rest, tx := tx c @ login_replies auth\<rparr>)"
    using negotiate_wire [OF assms(1,3), of ?c] by simp
  have h: "read_host atyp e = (Inr host, e\<lparr>rx := r\<rparr>)" if "rx e = w' @ r" for e r
    using assms(4) that unfolding w by (rule read_host_wire)
  show ?thesis
    using assms(2,5,6) n
    by (cases c) (auto simp: accept_request_with_auth_def request_outcome_def socks_reply_def w h io_simps split: if_splits)
qed

lemma accept_InrD:
  assumes "accept_request_with_auth auth c = (Inr req, d)"
  shows "\<exists>methods w host port cmd reply. length methods \<le> 255 \<and> auth_method auth \<in> set methods \<and> socks_host_wire w host \<and>
    request_outcome cmd \<lparr>t_host = host, t_port = port\<rparr> = Some (req, reply) \<and>
    rx c = [5, of_nat (length methods)] @ methods @ login_wire auth @ [5, cmd, 0] @ w @ to_be_u16 port @ rx d \<and>
    tx d = tx c @ login_replies auth @ reply"
proof -
  from assms obtain n methods c1 c2 cmd atyp c3 host c4 port c5 where
    head: "rx c = 5 # n # methods @ rx c1" "length methods = unat n" "tx c1 = tx c"
    and auth: "negotiate_auth methods auth c1 = (Inr (), c2)"
    and req: "rx c2 = [5, cmd, 0, atyp] @ rx c3" "tx c3 = tx c2"
    and host: "read_host atyp c3 = (Inr host, c4)"
    and port: "rx c4 = to_be_u16 port @ rx c5" "tx c5 = tx c4"
    and fin: "(if cmd = 1 then io_then (socks_reply 0) (io_return (Connect \<lparr>t_host = host, t_port = port\<rparr>))
               else if cmd = 3 then io_return UdpAssociate
               else io_then (socks_reply 7) (io_fail (BailNum ''unsupported SOCKS5 command'' (unat cmd)))) c5 = (Inr req, d)"
    unfolding accept_request_with_auth_def io_then_def
    by (auto simp: io_simps socks_reply_def elim!: io_bind_result_cases dest!: read_exact_InrD read_u8_InrD read_u16_InrD split: if_splits)
  note na = negotiate_InrD [OF auth]
  from read_host_InrD [OF host] obtain w where w: "socks_host_wire (atyp # w) host" "rx c3 = w @ rx c4" "tx c4 = tx c3" by blast
  from fin obtain reply where r: "request_outcome cmd \<lparr>t_host = host, t_port = port\<rparr> = Some (req, reply)"
    "rx d = rx c5" "tx d = tx c5 @ reply"
    by (auto simp: request_outcome_def io_simps socks_reply_def split: if_splits)
  show ?thesis
    using head na req w port r byte_le [of n]
    by (intro exI [of _ methods] exI [of _ "atyp # w"] exI [of _ host] exI [of _ port] exI [of _ cmd] exI [of _ reply]) simp
qed

text \<open>
  C9: the SOCKS5 ingress accepts exactly the well-formed requests of clients that may use it. With
  valid credentials configured, or none, a request is accepted if and only if the client greets with a
  list of methods that has the required one, sends the configured user name and password where
  they are required, and then a CONNECT or UDP ASSOCIATE request with a well-formed address; the
  target is the one in the request, the replies are the protocol's, and exactly these bytes are read.
\<close>

theorem socks_accepts_exactly:
  assumes "auth_valid auth"
  shows "accept_request_with_auth auth c = (Inr req, d) \<longleftrightarrow>
    (\<exists>methods w host port cmd reply. length methods \<le> 255 \<and> auth_method auth \<in> set methods \<and> socks_host_wire w host \<and>
      request_outcome cmd \<lparr>t_host = host, t_port = port\<rparr> = Some (req, reply) \<and>
      rx c = [5, of_nat (length methods)] @ methods @ login_wire auth @ [5, cmd, 0] @ w @ to_be_u16 port @ rx d \<and>
      tx d = tx c @ login_replies auth @ reply)"
proof
  assume "accept_request_with_auth auth c = (Inr req, d)"
  then show "\<exists>methods w host port cmd reply. length methods \<le> 255 \<and> auth_method auth \<in> set methods \<and> socks_host_wire w host \<and>
      request_outcome cmd \<lparr>t_host = host, t_port = port\<rparr> = Some (req, reply) \<and>
      rx c = [5, of_nat (length methods)] @ methods @ login_wire auth @ [5, cmd, 0] @ w @ to_be_u16 port @ rx d \<and>
      tx d = tx c @ login_replies auth @ reply"
    by (rule accept_InrD)
next
  have d: "c\<lparr>rx := rx d, tx := t\<rparr> = d" if "tx d = t" for t using that by (cases c; cases d) simp
  assume "\<exists>methods w host port cmd reply. length methods \<le> 255 \<and> auth_method auth \<in> set methods \<and> socks_host_wire w host \<and>
      request_outcome cmd \<lparr>t_host = host, t_port = port\<rparr> = Some (req, reply) \<and>
      rx c = [5, of_nat (length methods)] @ methods @ login_wire auth @ [5, cmd, 0] @ w @ to_be_u16 port @ rx d \<and>
      tx d = tx c @ login_replies auth @ reply"
  then show "accept_request_with_auth auth c = (Inr req, d)"
    using accept_wire [OF assms, where rest = "rx d"] d by metis
qed

theorem socks_accepts_exactly_witness:
  "accept_request_with_auth (Some \<lparr>pa_username = [117], pa_password = [112]\<rparr>)
     \<lparr>rx = [5, 2, 0, 2, 1, 1, 117, 1, 112, 5, 1, 0, 3, 1, 97, 0, 80, 9], tx = []\<rparr> =
   (Inr (Connect \<lparr>t_host = [97], t_port = 80\<rparr>), \<lparr>rx = [9], tx = [5, 2, 1, 0, 5, 0, 0, 1, 0, 0, 0, 0, 0, 0]\<rparr>)"
proof -
  let ?auth = "Some \<lparr>pa_username = [117], pa_password = [112]\<rparr>"
  have valid: "auth_valid ?auth" by (simp add: auth_valid_def auth_validate_def)
  have host: "socks_host_wire [3, 1, 97] [97]" by (simp add: socks_host_wire_def)
  have port: "to_be_u16 80 = [0, 80]" by (simp add: to_be_u16_def)
  show ?thesis
    unfolding socks_accepts_exactly [OF valid]
    by (rule exI [of _ "[0, 2]"], rule exI [of _ "[3, 1, 97]"], rule exI [of _ "[97]"], rule exI [of _ 80], rule exI [of _ 1],
        rule exI [of _ "[5, 0, 0, 1, 0, 0, 0, 0, 0, 0]"])
      (simp add: host port auth_method_def request_outcome_def login_wire_def login_replies_def)
qed

section \<open>Datagrams\<close>

text \<open>The targets that a datagram can carry and give back unchanged.\<close>

definition udp_target_ok :: "SocksTarget \<Rightarrow> bool" where
  "udp_target_ok t \<longleftrightarrow>
     (\<exists>ip. ip_wf ip \<and> t_host t = ip_string ip) \<or>
     parse_ipv4 (t_host t) = None \<and> parse_ipv6 (t_host t) = None \<and>
     utf8_valid (t_host t) \<and> t_host t \<noteq> [] \<and> 0 \<notin> set (t_host t) \<and> length (t_host t) \<le> 255"

lemma parse_udp_domain:
  assumes "utf8_valid host" "host \<noteq> []" "0 \<notin> set host" "length host \<le> 255"
  shows "parse_udp_packet_inner ([0, 0, frag, 3, of_nat (length host)] @ host @ to_be_u16 port @ payload) =
    Inr (frag, \<lparr>sp_target = \<lparr>t_host = host, t_port = port\<rparr>, sp_payload = payload\<rparr>)"
  using assms by (simp add: parse_udp_packet_inner_def parse_udp_host_def Let_def)

lemma parse_udp_v4:
  assumes "length ip = 4"
  shows "parse_udp_packet_inner ([0, 0, frag, 1] @ ip @ to_be_u16 port @ payload) =
    Inr (frag, \<lparr>sp_target = \<lparr>t_host = v4_string ip, t_port = port\<rparr>, sp_payload = payload\<rparr>)"
  using assms by (simp add: parse_udp_packet_inner_def parse_udp_host_def)

lemma parse_udp_v6:
  assumes "length ip = 8"
  shows "parse_udp_packet_inner ([0, 0, frag, 4] @ v6_octets ip @ to_be_u16 port @ payload) =
    Inr (frag, \<lparr>sp_target = \<lparr>t_host = v6_string ip, t_port = port\<rparr>, sp_payload = payload\<rparr>)"
  using assms by (simp add: parse_udp_packet_inner_def parse_udp_host_def)

lemma udp_packet_inverse:
  assumes "udp_target_ok t"
  shows "\<exists>out. build_udp_packet t payload = Inr out \<and> parse_udp_packet out = Inr \<lparr>sp_target = t, sp_payload = payload\<rparr>"
proof -
  consider (v4) ip where "length ip = 4" "t_host t = v4_string ip" | (v6) ip where "length ip = 8" "t_host t = v6_string ip"
    | (name) "parse_ipv4 (t_host t) = None" "parse_ipv6 (t_host t) = None"
      "utf8_valid (t_host t)" "t_host t \<noteq> []" "0 \<notin> set (t_host t)" "length (t_host t) \<le> 255"
    using assms unfolding udp_target_ok_def by (metis IpAddr.exhaust ip_string.simps ip_wf.simps)
  then show ?thesis
  proof cases
    case (v4 ip)
    with parse_udp_v4 [of ip 0 "t_port t" payload] show ?thesis
      by (simp add: build_udp_packet_def parse_ipv4_string parse_udp_packet_def)
  next
    case (v6 ip)
    with parse_udp_v6 [of ip 0 "t_port t" payload] show ?thesis
      by (simp add: build_udp_packet_def parse_ipv4_v6_string parse_ipv6_string parse_udp_packet_def)
  next
    case name
    with parse_udp_domain [of "t_host t" 0 "t_port t" payload] show ?thesis
      by (simp add: build_udp_packet_def parse_udp_packet_def Let_def)
  qed
qed

section \<open>Reassembly\<close>

text \<open>
  An event is a datagram with the time and the peer it came from. \<open>fragment_of\<close> says that an event is
  the fragment with the given number, target and payload, and whether it is the last one.
\<close>

type_synonym udp_event = "nat \<times> SocketAddr option \<times> bytes"

definition fragment_of :: "SocketAddr option \<Rightarrow> SocksTarget \<Rightarrow> nat \<Rightarrow> bool \<Rightarrow> udp_event \<Rightarrow> bytes \<Rightarrow> bool" where
  "fragment_of peer t i fin ev payload \<longleftrightarrow>
     (case ev of (now, peer', input) \<Rightarrow>
        peer' = peer \<and>
        (\<exists>frag. parse_udp_packet_inner input = Inr (frag, \<lparr>sp_target = t, sp_payload = payload\<rparr>) \<and>
           unat frag = i + (if fin then 128 else 0) \<and> 0 < i \<and> i < 128))"

text \<open>The events are fragments 1, 2, and so on of one datagram, each before the deadline set by the first.\<close>

definition fragments :: "SocketAddr option \<Rightarrow> SocksTarget \<Rightarrow> bool \<Rightarrow> udp_event list \<Rightarrow> bytes list \<Rightarrow> bool" where
  "fragments peer t fin evs ps \<longleftrightarrow>
     length ps = length evs \<and> length (concat ps) \<le> MAX_UDP_PAYLOAD_LEN \<and>
     (\<forall>i < length evs. fragment_of peer t (Suc i) (fin \<and> Suc i = length evs) (evs ! i) (ps ! i) \<and>
        (0 < i \<longrightarrow> fst (evs ! i) < fst (evs ! 0) + SOCKS_UDP_FRAGMENT_TIMEOUT))"

definition reassembler_run :: "udp_event list \<Rightarrow> SocksUdpReassembler" where
  "reassembler_run hist =
     fold (\<lambda>(now, peer, input) u. snd (push_for_peer now peer input u)) hist reassembler_default"

definition pending :: "SocketAddr option \<Rightarrow> SocksTarget \<Rightarrow> udp_event list \<Rightarrow> bytes list \<Rightarrow> SocksUdpReassembler" where
  "pending peer t evs ps =
     \<lparr>u_target = Some t, u_payload = concat ps, u_next_fragment = Suc (length evs),
      u_expires_at = Some (fst (hd evs) + SOCKS_UDP_FRAGMENT_TIMEOUT), u_peer = peer\<rparr>"

lemma all_less_Suc_split: "(\<forall>i < Suc n. P i) \<longleftrightarrow> (\<forall>i < n. P i) \<and> P n"
  by (auto simp: less_Suc_eq)

lemma fragments_snoc:
  "fragments peer t fin (evs @ [e]) qs \<longleftrightarrow>
     (\<exists>ps q. qs = ps @ [q] \<and> fragments peer t False evs ps \<and> fragment_of peer t (Suc (length evs)) fin e q \<and>
        length (concat ps) + length q \<le> MAX_UDP_PAYLOAD_LEN \<and>
        (evs \<noteq> [] \<longrightarrow> fst e < fst (hd evs) + SOCKS_UDP_FRAGMENT_TIMEOUT))"
proof (cases qs rule: rev_cases)
  case Nil
  then show ?thesis by (simp add: fragments_def)
next
  case (snoc ps q)
  let ?n = "length evs"
  show ?thesis
  proof (cases "length ps = ?n")
    case True
    have head: "(evs @ [e]) ! 0 = hd evs" if "evs \<noteq> []" using that by (simp add: hd_conv_nth nth_append)
    have last: "(0 < ?n \<longrightarrow> fst e < fst ((evs @ [e]) ! 0) + SOCKS_UDP_FRAGMENT_TIMEOUT) \<longleftrightarrow>
        (evs \<noteq> [] \<longrightarrow> fst e < fst (hd evs) + SOCKS_UDP_FRAGMENT_TIMEOUT)"
      using head by auto
    have init: "(\<forall>i < ?n. fragment_of peer t (Suc i) (fin \<and> Suc i = Suc ?n) ((evs @ [e]) ! i) ((ps @ [q]) ! i) \<and>
          (0 < i \<longrightarrow> fst ((evs @ [e]) ! i) < fst ((evs @ [e]) ! 0) + SOCKS_UDP_FRAGMENT_TIMEOUT)) \<longleftrightarrow>
        (\<forall>i < ?n. fragment_of peer t (Suc i) False (evs ! i) (ps ! i) \<and>
          (0 < i \<longrightarrow> fst (evs ! i) < fst (evs ! 0) + SOCKS_UDP_FRAGMENT_TIMEOUT))"
      (is "(\<forall>i < ?n. ?P i) \<longleftrightarrow> (\<forall>i < ?n. ?Q i)")
    proof -
      have "?P i \<longleftrightarrow> ?Q i" if i: "i < ?n" for i
      proof -
        have "(evs @ [e]) ! i = evs ! i" "(ps @ [q]) ! i = ps ! i" "(evs @ [e]) ! 0 = evs ! 0" "(fin \<and> Suc i = Suc ?n) = False"
          using i True by (auto simp: nth_append)
        then show ?thesis by (simp only:)
      qed
      then show ?thesis by blast
    qed
    have end_e: "(evs @ [e]) ! ?n = e" "(ps @ [q]) ! ?n = q" "(fin \<and> Suc ?n = Suc ?n) = fin"
      using True by (simp, metis nth_append_length, simp)
    have lens: "length (ps @ [q]) = length (evs @ [e])" "length (evs @ [e]) = Suc ?n"
      "length (concat (ps @ [q])) = length (concat ps) + length q" using True by simp_all
    have "fragments peer t fin (evs @ [e]) (ps @ [q]) \<longleftrightarrow>
        length (concat ps) + length q \<le> MAX_UDP_PAYLOAD_LEN \<and> (\<forall>i < ?n. ?Q i) \<and> fragment_of peer t (Suc ?n) fin e q \<and>
        (evs \<noteq> [] \<longrightarrow> fst e < fst (hd evs) + SOCKS_UDP_FRAGMENT_TIMEOUT)"
      unfolding fragments_def lens all_less_Suc_split init end_e last by blast
    moreover have "fragments peer t False evs ps \<longleftrightarrow> length (concat ps) \<le> MAX_UDP_PAYLOAD_LEN \<and> (\<forall>i < ?n. ?Q i)"
      using True by (simp only: fragments_def simp_thms)
    moreover have "length (concat ps) \<le> MAX_UDP_PAYLOAD_LEN" if "length (concat ps) + length q \<le> MAX_UDP_PAYLOAD_LEN"
      using that by (rule add_leD1)
    ultimately show ?thesis unfolding snoc append1_eq_conv by blast
  next
    case False
    then show ?thesis by (simp add: snoc fragments_def)
  qed
qed

lemma reassembler_reset_default [simp]: "reassembler_reset u = reassembler_default"
  by (simp add: reassembler_reset_def reassembler_default_def)

lemma sat_add_over: "MAX_UDP_PAYLOAD_LEN < sat_add a b \<longleftrightarrow> MAX_UDP_PAYLOAD_LEN < a + b"
  by (auto simp: sat_add_def MAX_UDP_PAYLOAD_LEN_def usize_max_def u16_max_def)

lemma fragment_numbers:
  assumes "unat (frag :: u8) = i + (if fin then 128 else 0)" "0 < i" "i < 128"
  shows "frag \<noteq> 0" "unat frag mod 128 = i" "128 \<le> unat frag \<longleftrightarrow> fin"
  using assms by (auto split: if_splits)

lemma push_first:
  assumes "fragment_of peer t 1 fin (now, peer, input) q" "length q \<le> MAX_UDP_PAYLOAD_LEN"
  shows "push_for_peer now peer input u =
    (if fin then (Inr (Some \<lparr>sp_target = t, sp_payload = q\<rparr>), reassembler_default)
     else (Inr None, pending peer t [(now, peer, input)] [q]))"
proof -
  from assms(1) obtain frag where f: "parse_udp_packet_inner input = Inr (frag, \<lparr>sp_target = t, sp_payload = q\<rparr>)"
    "unat frag = 1 + (if fin then 128 else 0)" by (auto simp: fragment_of_def)
  note n = fragment_numbers [OF f(2)]
  from n assms(2) show ?thesis
    by (simp add: push_for_peer_def f(1) Let_def sat_add_over not_less pending_def reassembler_default_def)
qed

lemma push_next:
  assumes "evs \<noteq> []" "fragment_of peer t (Suc (length evs)) fin (now, peer, input) q"
    and "now < fst (hd evs) + SOCKS_UDP_FRAGMENT_TIMEOUT" "length (concat ps) + length q \<le> MAX_UDP_PAYLOAD_LEN"
  shows "push_for_peer now peer input (pending peer t evs ps) =
    (if fin then (Inr (Some \<lparr>sp_target = t, sp_payload = concat (ps @ [q])\<rparr>), reassembler_default)
     else (Inr None, if Suc (length evs) < 127 then pending peer t (evs @ [(now, peer, input)]) (ps @ [q]) else reassembler_default))"
proof -
  from assms(2) obtain frag where f: "parse_udp_packet_inner input = Inr (frag, \<lparr>sp_target = t, sp_payload = q\<rparr>)"
    "unat frag = Suc (length evs) + (if fin then 128 else 0)" "Suc (length evs) < 128" by (auto simp: fragment_of_def)
  note n = fragment_numbers [OF f(2)]
  from assms(1) have "Suc (length evs) \<noteq> 1" by simp
  with n assms(3,4) f(3) show ?thesis
    by (simp add: push_for_peer_def f(1) Let_def sat_add_over not_less pending_def hd_append)
qed

lemma pending_run:
  "evs \<noteq> [] \<Longrightarrow> length evs < 127 \<Longrightarrow> fragments peer t False evs ps \<Longrightarrow>
     reassembler_run (pre @ evs) = pending peer t evs ps"
proof (induction evs arbitrary: ps rule: rev_induct)
  case (snoc e evs)
  from snoc.prems(3) obtain ps' q where q: "ps = ps' @ [q]" "fragments peer t False evs ps'"
    "fragment_of peer t (Suc (length evs)) False e q" "length (concat ps') + length q \<le> MAX_UDP_PAYLOAD_LEN"
    "evs \<noteq> [] \<longrightarrow> fst e < fst (hd evs) + SOCKS_UDP_FRAGMENT_TIMEOUT"
    unfolding fragments_snoc by blast
  obtain now input where e: "e = (now, peer, input)" using q(3) by (auto simp: fragment_of_def)
  have run: "reassembler_run (pre @ evs @ [e]) = snd (push_for_peer now peer input (reassembler_run (pre @ evs)))"
    by (simp add: reassembler_run_def e)
  show ?case
  proof (cases "evs = []")
    case True
    with q have "ps' = []" by (simp add: fragments_def)
    with True q e show ?thesis unfolding run by (simp add: push_first [where fin = False])
  next
    case False
    with snoc.IH [OF False _ q(2)] snoc.prems(2) q e show ?thesis
      unfolding run by (simp add: push_next [where fin = False])
  qed
qed simp

text \<open>What a push can do: nothing, or take the fragment that begins a datagram or comes next.\<close>

lemma push_cases:
  assumes "push_for_peer now peer input u = (r, u')"
  obtains (bad) e where "r = Inl e" "u' = reassembler_default"
    | (whole) pkt where "r = Inr (Some pkt)" "parse_udp_packet input = Inr pkt" "u' = reassembler_default"
    | (dropped) "r = Inr None" "u' = reassembler_default"
    | (ignored) "r = Inr None" "u_target u = None" "u' = u"
    | (first) t q fin where "fragment_of peer t 1 fin (now, peer, input) q" "length q \<le> MAX_UDP_PAYLOAD_LEN"
    | (later) t q fin where "fragment_of peer t (u_next_fragment u) fin (now, peer, input) q" "u_target u = Some t" "u_peer u = peer"
        "length (u_payload u) + length q \<le> MAX_UDP_PAYLOAD_LEN" "\<And>d. u_expires_at u = Some d \<Longrightarrow> now < d"
proof (cases "parse_udp_packet_inner input")
  case (Inl e)
  with assms have "r = Inl e" "u' = reassembler_default" by (simp_all add: push_for_peer_def)
  then show ?thesis by (rule bad)
next
  case (Inr x)
  obtain frag packet where x: "x = (frag, packet)" by (cases x)
  define i fin where "i = unat frag mod 128" and "fin = (128 \<le> unat frag)"
  obtain t q where packet: "packet = \<lparr>sp_target = t, sp_payload = q\<rparr>" by (cases packet)
  have num: "unat frag = i + (if fin then 128 else 0)" "i < 128"
    using byte_le [of frag] mod_less [of "unat frag - 128" 128] by (auto simp: i_def fin_def le_mod_geq)
  show ?thesis
  proof (cases "frag = 0")
    case True
    with assms Inr x have "r = Inr (Some packet)" "parse_udp_packet input = Inr packet" "u' = reassembler_default"
      by (simp_all add: push_for_peer_def parse_udp_packet_def)
    then show ?thesis by (rule whole)
  next
    case nonzero: False
    show ?thesis
    proof (cases "i = 0")
      case True
      with assms Inr x nonzero have "r = Inr None" "u' = reassembler_default" by (simp_all add: push_for_peer_def Let_def i_def)
      then show ?thesis by (rule dropped)
    next
      case i: False
      with num Inr x packet have frag: "fragment_of peer t i fin (now, peer, input) q"
        by (auto simp: fragment_of_def)
      show ?thesis
      proof (cases "i = 1")
        case True
        show ?thesis
        proof (cases "length q \<le> MAX_UDP_PAYLOAD_LEN")
          case ok: True
          with first frag True show ?thesis by blast
        next
          case False
          with True i_def assms Inr x nonzero packet have "r = Inr None" "u' = reassembler_default"
            by (simp_all add: push_for_peer_def Let_def sat_add_over reassembler_default_def)
          then show ?thesis by (rule dropped)
        qed
      next
        case later_i: False
        define v where "v = (case u_expires_at u of Some deadline \<Rightarrow> if now \<ge> deadline then reassembler_reset u else u | None \<Rightarrow> u)"
        have v: "v = u \<and> (\<forall>d. u_expires_at u = Some d \<longrightarrow> now < d) \<or> v = reassembler_default"
          by (auto simp: v_def split: option.splits)
        show ?thesis
        proof (cases "u_target v = None")
          case True
          with assms Inr x nonzero i later_i have "r = Inr None" "u' = v"
            by (simp_all add: push_for_peer_def Let_def i_def v_def [symmetric])
          with v True dropped ignored show ?thesis by blast
        next
          case False
          then have vu: "v = u" "\<forall>d. u_expires_at u = Some d \<longrightarrow> now < d" using v by (auto simp: reassembler_default_def)
          from False vu(1) obtain t' where t': "u_target u = Some t'" by auto
          show ?thesis
          proof (cases "i \<noteq> u_next_fragment u \<or> u_peer u \<noteq> peer \<or> u_target u \<noteq> Some t \<or>
              length (u_payload u) + length q > MAX_UDP_PAYLOAD_LEN")
            case True
            with assms Inr x nonzero i later_i t' vu(1) packet have "r = Inr None" "u' = reassembler_default"
              by (simp_all add: push_for_peer_def Let_def i_def v_def [symmetric] sat_add_over)
            then show ?thesis by (rule dropped)
          next
            case False
            then show ?thesis using later [of t fin q] frag vu(2) by auto
          qed
        qed
      qed
    qed
  qed
qed

definition reassembling :: "udp_event list \<Rightarrow> SocksUdpReassembler \<Rightarrow> bool" where
  "reassembling hist u \<longleftrightarrow> u = reassembler_default \<or>
     (\<exists>pre evs ps peer t. hist = pre @ evs \<and> evs \<noteq> [] \<and> length evs < 127 \<and> fragments peer t False evs ps \<and>
        u = pending peer t evs ps)"

text \<open>A datagram is complete when the events end in all its fragments.\<close>

definition completes :: "udp_event list \<Rightarrow> SocksUdpPacket \<Rightarrow> bool" where
  "completes hist pkt \<longleftrightarrow>
     (\<exists>pre evs ps peer. hist = pre @ evs \<and> evs \<noteq> [] \<and> fragments peer (sp_target pkt) True evs ps \<and> sp_payload pkt = concat ps)"

lemma single_fragment: "fragment_of peer t (Suc 0) fin ev q \<Longrightarrow> length q \<le> MAX_UDP_PAYLOAD_LEN \<Longrightarrow> fragments peer t fin [ev] [q]"
  by (simp add: fragments_def)

lemma reassembling_push:
  assumes "reassembling hist u" "push_for_peer now peer input u = (r, u')"
  shows "reassembling (hist @ [(now, peer, input)]) u' \<and>
    (\<forall>pkt. r = Inr (Some pkt) \<longrightarrow> parse_udp_packet input = Inr pkt \<or> completes (hist @ [(now, peer, input)]) pkt)"
  using assms(2)
proof (cases rule: push_cases)
  case ignored
  with assms(1) show ?thesis by (auto simp: reassembling_def pending_def)
next
  case (first t q fin)
  note push = push_first [OF first, of u]
  have f: "fragments peer t fin [(now, peer, input)] [q]" using first by (simp add: single_fragment)
  show ?thesis
  proof (cases fin)
    case True
    with push assms(2) have "r = Inr (Some \<lparr>sp_target = t, sp_payload = q\<rparr>)" "u' = reassembler_default" by simp_all
    moreover have "completes (hist @ [(now, peer, input)]) \<lparr>sp_target = t, sp_payload = q\<rparr>"
      unfolding completes_def using f True
      by (intro exI [of _ hist] exI [of _ "[(now, peer, input)]"] exI [of _ "[q]"] exI [of _ peer]) simp
    ultimately show ?thesis by (simp add: reassembling_def)
  next
    case False
    with push assms(2) have "r = Inr None" "u' = pending peer t [(now, peer, input)] [q]" by simp_all
    with f False show ?thesis by (fastforce simp: reassembling_def)
  qed
next
  case (later t q fin)
  from later(2) assms(1) obtain pre evs ps where s: "hist = pre @ evs" "evs \<noteq> []" "length evs < 127"
    "fragments peer t False evs ps" "u = pending peer t evs ps"
    using later(3) by (auto simp: reassembling_def pending_def reassembler_default_def)
  have frag: "fragment_of peer t (Suc (length evs)) fin (now, peer, input) q" and
    time: "now < fst (hd evs) + SOCKS_UDP_FRAGMENT_TIMEOUT" and
    room: "length (concat ps) + length q \<le> MAX_UDP_PAYLOAD_LEN"
    using later s(5) by (simp_all add: pending_def)
  note push = push_next [OF s(2) frag time room]
  have f: "fragments peer t fin (evs @ [(now, peer, input)]) (ps @ [q])"
    unfolding fragments_snoc using s(4) frag time room by auto
  show ?thesis
  proof (cases fin)
    case True
    with push assms(2) s(5) have "r = Inr (Some \<lparr>sp_target = t, sp_payload = concat (ps @ [q])\<rparr>)" "u' = reassembler_default"
      by simp_all
    moreover have "completes (hist @ [(now, peer, input)]) \<lparr>sp_target = t, sp_payload = concat (ps @ [q])\<rparr>"
      unfolding completes_def using f True s(1)
      by (intro exI [of _ pre] exI [of _ "evs @ [(now, peer, input)]"] exI [of _ "ps @ [q]"] exI [of _ peer]) simp
    ultimately show ?thesis by (simp add: reassembling_def)
  next
    case False
    with push assms(2) s(5) have u': "r = Inr None"
      "u' = (if Suc (length evs) < 127 then pending peer t (evs @ [(now, peer, input)]) (ps @ [q]) else reassembler_default)"
      by simp_all
    have "reassembling (hist @ [(now, peer, input)]) (pending peer t (evs @ [(now, peer, input)]) (ps @ [q]))"
      if "Suc (length evs) < 127"
      unfolding reassembling_def using f False s(1) that
      by (intro disjI2 exI [of _ pre] exI [of _ "evs @ [(now, peer, input)]"] exI [of _ "ps @ [q]"] exI [of _ peer] exI [of _ t]) simp
    with u' show ?thesis by (simp add: reassembling_def)
  qed
qed (simp_all add: reassembling_def)

lemma reassembling_run: "reassembling hist (reassembler_run hist)"
proof (induction hist rule: rev_induct)
  case (snoc e hist)
  obtain now peer input where e: "e = (now, peer, input)" by (cases e)
  obtain r u' where p: "push_for_peer now peer input (reassembler_run hist) = (r, u')" by (cases "push_for_peer now peer input (reassembler_run hist)")
  then have "reassembler_run (hist @ [e]) = u'" by (simp add: reassembler_run_def e)
  with reassembling_push [OF snoc p] e show ?case by simp
qed (simp add: reassembling_def reassembler_run_def)

text \<open>
  C10: reassembly of SOCKS datagrams gives exactly what was sent. After any datagrams from any peers at
  any times, the next one gives a packet if and only if it is unfragmented and parses to that packet,
  or it is the last of the fragments 1 to \<open>n\<close> of one datagram that came directly after each other, from
  one peer, for one target, within five seconds of the first and with at most 65535 bytes together;
  the packet then carries that target and the payloads in order.
\<close>

theorem reassembly_exact:
  "fst (push_for_peer now peer input (reassembler_run hist)) = Inr (Some pkt) \<longleftrightarrow>
     parse_udp_packet input = Inr pkt \<or> completes (hist @ [(now, peer, input)]) pkt"
proof
  assume "fst (push_for_peer now peer input (reassembler_run hist)) = Inr (Some pkt)"
  then obtain u' where "push_for_peer now peer input (reassembler_run hist) = (Inr (Some pkt), u')"
    by (metis prod.collapse)
  from reassembling_push [OF reassembling_run this]
  show "parse_udp_packet input = Inr pkt \<or> completes (hist @ [(now, peer, input)]) pkt" by simp
next
  assume "parse_udp_packet input = Inr pkt \<or> completes (hist @ [(now, peer, input)]) pkt"
  then show "fst (push_for_peer now peer input (reassembler_run hist)) = Inr (Some pkt)"
  proof
    assume "parse_udp_packet input = Inr pkt"
    then show ?thesis by (auto simp: parse_udp_packet_def push_for_peer_def res_bind_def split: sum.splits if_splits)
  next
    assume "completes (hist @ [(now, peer, input)]) pkt"
    then obtain pre evs ps peer' where c: "hist @ [(now, peer, input)] = pre @ evs" "evs \<noteq> []"
      "fragments peer' (sp_target pkt) True evs ps" "sp_payload pkt = concat ps" unfolding completes_def by blast
    then obtain evs' where e: "evs = evs' @ [(now, peer, input)]" "hist = pre @ evs'"
      by (cases evs rule: rev_cases) auto
    from c(3) obtain ps' q where f: "ps = ps' @ [q]" "fragments peer' (sp_target pkt) False evs' ps'"
      "fragment_of peer' (sp_target pkt) (Suc (length evs')) True (now, peer, input) q"
      "length (concat ps') + length q \<le> MAX_UDP_PAYLOAD_LEN"
      "evs' \<noteq> [] \<longrightarrow> now < fst (hd evs') + SOCKS_UDP_FRAGMENT_TIMEOUT"
      unfolding e(1) fragments_snoc by auto
    have peer: "peer' = peer" and len: "length evs' < 127" using f(3) by (auto simp: fragment_of_def)
    have pkt: "pkt = \<lparr>sp_target = sp_target pkt, sp_payload = concat ps\<rparr>" using c(4) by (cases pkt) simp
    show ?thesis
    proof (cases "evs' = []")
      case True
      with f have "ps' = []" by (simp add: fragments_def)
      with True f peer push_first [of peer "sp_target pkt" True now input q] pkt show ?thesis by simp
    next
      case False
      from pending_run [OF False len f(2), of pre] e(2) peer
      have "reassembler_run hist = pending peer (sp_target pkt) evs' ps'" by simp
      with push_next [OF False f(3) [unfolded peer] _ f(4)] f(5) False f(1) pkt show ?thesis by simp
    qed
  qed
qed

end
