(* ===== verification/Esp_Chain_Props.thy ===== *)
theory Esp_Chain_Props
  imports Esp_Chain Esp_Socks5_Props
begin

text \<open>
  What the connector guarantees: nothing is contacted that the policy forbids, the SOCKS5 client and
  the SOCKS5 ingress of the program understand each other, and two weaknesses of the HTTP chain.
\<close>

section \<open>The policy as a specification\<close>

definition covers :: "rstring \<Rightarrow> rstring \<Rightarrow> bool" where
  "covers pattern host \<longleftrightarrow>
     (let p = to_ascii_lowercase pattern; h = to_ascii_lowercase host in
      if \<exists>s. p = [42, 46] @ s then \<exists>s. p = [42, 46] @ s \<and> (h = s \<or> (\<exists>l. h = l @ [46] @ s)) else h = p)"

definition target_permitted :: "EgressPolicy \<Rightarrow> rstring \<Rightarrow> u16 \<Rightarrow> bool" where
  "target_permitted policy host port \<longleftrightarrow>
     (\<forall>p \<in> set (block_hosts policy). \<not> covers p host) \<and>
     (allow_hosts policy \<noteq> [] \<longrightarrow> (\<exists>p \<in> set (allow_hosts policy). covers p host)) \<and>
     port \<notin> set (block_ports policy) \<and>
     (allow_ports policy \<noteq> [] \<longrightarrow> port \<in> set (allow_ports policy)) \<and>
     (deny_private_ips policy \<longrightarrow> (\<forall>ip. parse_ip (to_ascii_lowercase host) = Some ip \<longrightarrow> \<not> is_private_or_special ip))"

lemma ends_with_iff: "ends_with p s \<longleftrightarrow> (\<exists>l. s = l @ p)"
proof
  assume "ends_with p s"
  then have "s = take (length s - length p) s @ p" unfolding ends_with_def by (metis append_take_drop_id)
  then show "\<exists>l. s = l @ p" by blast
qed (auto simp: ends_with_def)

lemma strip_prefix_iff: "strip_prefix p s = Some r \<longleftrightarrow> s = p @ r"
  unfolding strip_prefix_def by (auto simp: append_eq_conv_conj) (metis append_take_drop_id)

lemma strip_prefix_None: "strip_prefix p s = None \<longleftrightarrow> (\<forall>r. s \<noteq> p @ r)"
  using strip_prefix_iff [of p s] by (cases "strip_prefix p s") auto

lemma host_matches_covers: "host_matches (to_ascii_lowercase host) pattern \<longleftrightarrow> covers pattern host"
proof -
  have star: "ascii ''*.'' = [42, 46]" by (simp add: ascii_def of_char_def)
  show ?thesis
  proof (cases "strip_prefix [42, 46] (to_ascii_lowercase pattern)")
    case None
    with strip_prefix_None [of "[42, 46]" "to_ascii_lowercase pattern"] show ?thesis
      by (simp add: host_matches_def covers_def star Let_def)
  next
    case (Some r)
    then have "to_ascii_lowercase pattern = [42, 46] @ r" by (simp add: strip_prefix_iff)
    with Some show ?thesis by (simp add: host_matches_def covers_def star ends_with_iff Let_def)
  qed
qed

lemma validate_authority_iff:
  "validate_authority policy authority = Inr () \<longleftrightarrow>
     (\<exists>host port. split_authority authority = Inr (host, port) \<and> target_permitted policy host port)"
proof (cases "split_authority authority")
  case (Inl e)
  then show ?thesis by (simp add: validate_authority_def)
next
  case (Inr x)
  obtain host port where "x = (host, port)" by (cases x)
  with Inr show ?thesis
    by (auto simp: validate_authority_def target_permitted_def list_ex_iff host_matches_covers Let_def split: option.splits)
qed

section \<open>Only permitted targets are contacted\<close>









section \<open>The SOCKS5 client and the SOCKS5 ingress\<close>

text \<open>The login that the client offers suits the ingress.\<close>

definition login_suits :: "EgressProxy \<Rightarrow> ProxyAuth option \<Rightarrow> bool" where
  "login_suits proxy auth \<longleftrightarrow>
     (case auth of
        None \<Rightarrow> True
      | Some a \<Rightarrow> auth_validate a = Inr () \<and> x_username proxy = Some (pa_username a) \<and> x_password proxy = Some (pa_password a))"

definition offered :: "EgressProxy \<Rightarrow> bytes" where
  "offered proxy = (if x_username proxy \<noteq> None then [0, 2] else [0])"

lemma login_suits_valid: "login_suits proxy auth \<Longrightarrow> auth_valid auth \<and> auth_method auth \<in> set (offered proxy)"
  by (auto simp: login_suits_def auth_valid_def auth_method_def offered_def split: option.splits)

lemma negotiate_with_ingress:
  assumes "login_suits proxy auth" "rx c = login_replies auth @ rest"
  shows "negotiate proxy c =
    (Inr (), c\<lparr>rx := rest, tx := tx c @ [5, of_nat (length (offered proxy))] @ offered proxy @ login_wire auth\<rparr>)"
proof (cases auth)
  case None
  with assms show ?thesis
    by (cases c) (simp add: negotiate_def login_replies_def auth_method_def offered_def login_wire_def io_simps read_exact_def)
next
  case (Some a)
  with assms have a: "x_username proxy = Some (pa_username a)" "x_password proxy = Some (pa_password a)"
    "length (pa_username a) \<le> 255" "length (pa_password a) \<le> 255"
    using auth_validD [of a] by (auto simp: login_suits_def)
  have r: "read_exact 2 d = (Inr [x, y], d\<lparr>rx := r\<rparr>)" if "rx d = x # y # r" for d x y r
    using that by (simp add: read_exact_def)
  from assms(2) Some a show ?thesis
    by (cases c) (simp add: negotiate_def authenticate_username_password_def login_replies_def auth_method_def offered_def login_wire_def io_simps r Let_def)
qed

definition connect_wire :: "rstring \<Rightarrow> u16 \<Rightarrow> bytes" where
  "connect_wire host port = [5, 1, 0, 3, of_nat (length host)] @ host @ to_be_u16 port"

lemma socks5_connect_with_ingress:
  assumes "login_suits proxy auth" "length host \<le> 255"
    and "rx c = login_replies auth @ [5, 0, 0, 1, 0, 0, 0, 0, 0, 0] @ rest"
  shows "socks5_connect proxy host port c =
    (Inr (), c\<lparr>rx := rest, tx := tx c @ [5, of_nat (length (offered proxy))] @ offered proxy @ login_wire auth @ connect_wire host port\<rparr>)"
proof -
  have r: "read_socks5_connect_reply d = (Inr (), d\<lparr>rx := rest\<rparr>)" if "rx d = [5, 0, 0, 1, 0, 0, 0, 0, 0, 0] @ rest" for d
    using that by (cases d) (simp add: read_socks5_connect_reply_def io_simps read_exact_def)
  show ?thesis
    using negotiate_with_ingress [OF assms(1,3)] assms(2)
    by (simp add: socks5_connect_def write_socks5_connect_def connect_wire_def io_simps r)
qed

text \<open>The targets whose written form splits into the same host and port.\<close>

definition chain_target_ok :: "SocksTarget \<Rightarrow> bool" where
  "chain_target_ok t \<longleftrightarrow>
     (\<exists>ip. ip_wf ip \<and> t_host t = ip_string ip) \<or>
     parse_ipv6 (t_host t) = None \<and> parse_socket (socks_authority t) = None \<and>
     utf8_valid (t_host t) \<and> t_host t \<noteq> [] \<and> 0 \<notin> set (t_host t) \<and> 91 \<notin> set (t_host t) \<and> 93 \<notin> set (t_host t) \<and>
     length (t_host t) \<le> 255"

subsection \<open>Printed addresses and ports\<close>

definition name_byte :: "byte \<Rightarrow> bool" where
  "name_byte b \<longleftrightarrow> b \<noteq> 0 \<and> b < 128"

lemma digit_10: "is_digit 10 b \<longleftrightarrow> is_ascii_digit b" "is_ascii_digit b \<Longrightarrow> to_digit 10 b = Some (unat b - 48)"
  by (auto simp: is_digit_def to_digit_def is_ascii_digit_def Let_def split: if_splits)

lemma parse_dec: "n \<le> m \<Longrightarrow> parse_unsigned m (dec n) = Some n"
proof -
  assume n: "n \<le> m"
  have v: "digits_value 10 (dec n) = n" "\<forall>b \<in> set (dec n). is_ascii_digit b" "dec n \<noteq> []"
    using num_string_value [of 10 n] by (auto simp: dec_def digit_10(1))
  have "foldl (\<lambda>acc b. acc * 10 + (unat b - 48)) k ds = foldl (\<lambda>acc b. acc * 10 + the (to_digit 10 b)) k ds"
    if "\<forall>b \<in> set ds. is_ascii_digit b" for k ds
    using that by (induction ds arbitrary: k) (simp_all add: digit_10(2))
  with v have d: "decimal (dec n) = n" by (simp add: decimal_def digits_value_def)
  have plus: "\<not> is_ascii_digit 43" by (simp add: is_ascii_digit_def)
  with v have "(case dec n of b # r \<Rightarrow> if b = 43 then r else dec n | [] \<Rightarrow> []) = dec n" by (cases "dec n") auto
  with v d n show ?thesis by (simp add: parse_unsigned_def list_all_iff)
qed

lemma dec_no_colon: "58 \<notin> set (dec n)"
proof
  assume "58 \<in> set (dec n)"
  then have "is_ascii_digit 58" using num_string_value [of 10 n] by (simp add: dec_def digit_10(1))
  then show False by (simp add: is_ascii_digit_def)
qed

lemma name_byte_digit: "is_digit 16 b \<Longrightarrow> name_byte b"
  by (auto simp: is_digit_def to_digit_def name_byte_def word_less_nat_alt Let_def split: if_splits)

lemma name_byte_num: "\<forall>b \<in> set (dec n). name_byte b" "\<forall>b \<in> set (hex g). name_byte b"
proof -
  have "is_digit 16 b" if "is_digit 10 b" for b using that by (auto simp: is_digit_def to_digit_def Let_def split: if_splits)
  then show "\<forall>b \<in> set (dec n). name_byte b" using num_string_value [of 10 n] name_byte_digit by (auto simp: dec_def)
  show "\<forall>b \<in> set (hex g). name_byte b" using hex_digits [of g] name_byte_digit by blast
qed

lemma name_byte_sep [simp]: "name_byte 46" "name_byte 58"
  by (simp_all add: name_byte_def)

lemma name_byte_v4: "\<forall>b \<in> set (dotted i a). name_byte b"
  by (induction i a rule: dotted.induct) (auto simp: name_byte_num(1) [THEN bspec])

lemma name_byte_groups: "\<forall>b \<in> set (groups_text i gs). name_byte b"
  by (induction i gs rule: groups_text.induct) (auto simp: name_byte_num(2) [THEN bspec])

lemma name_byte_v6: "\<forall>b \<in> set (v6_string gs). name_byte b"
proof (cases "to_ipv4_mapped gs")
  case (Some v4)
  have "\<forall>b \<in> set (ascii ''::ffff:''). name_byte b" by (simp add: ascii_def of_char_def name_byte_def)
  with Some name_byte_v4 [of 0 v4] show ?thesis by (auto simp: v6_string_def v4_string_def)
next
  case None
  obtain start len where z: "zero_span 0 0 0 (0, 0) gs = (start, len)" by (cases "zero_span 0 0 0 (0, 0) gs")
  with None name_byte_groups show ?thesis by (auto simp: v6_string_def)
qed

lemma name_byte_ip: "\<forall>b \<in> set (ip_string ip). name_byte b"
  by (cases ip) (use name_byte_v4 name_byte_v6 in \<open>auto simp: v4_string_def\<close>)

lemma hex_length: "length (hex g) \<le> 4"
proof -
  have "unat g < 2 ^ 16" using unsigned_less [of g] by simp
  then show ?thesis unfolding hex_def using num_string_length [of 16 "unat g" 3] by simp
qed

lemma groups_text_length: "length (groups_text i gs) \<le> 5 * length gs"
proof (induction i gs rule: groups_text.induct)
  case (2 i g gs)
  have "length (groups_text i (g # gs)) \<le> 1 + length (hex g) + length (groups_text (Suc i) gs)" by simp
  with 2 hex_length [of g] show ?case by simp
qed simp

lemma ip_string_length: "ip_wf ip \<Longrightarrow> length (ip_string ip) \<le> 255"
proof (cases ip)
  case (V4 a)
  assume "ip_wf ip"
  with V4 v4_string_length [of a] show ?thesis by simp
next
  case (V6 a)
  assume "ip_wf ip"
  with V6 have a: "length a = 8" by simp
  have m: "length v4 = 4" if "to_ipv4_mapped a = Some v4" for v4
    using that a by (auto simp: to_ipv4_mapped_def split: if_splits)
  have "length (v6_string a) \<le> 100"
  proof (cases "to_ipv4_mapped a")
    case (Some v4)
    with v4_string_length [OF m [OF Some]] show ?thesis by (simp add: v6_string_def ascii_def)
  next
    case None
    obtain start len where z: "zero_span 0 0 0 (0, 0) a = (start, len)" by (cases "zero_span 0 0 0 (0, 0) a")
    have "length (groups_text 0 (take start a)) \<le> 40" "length (groups_text 0 (drop (start + len) a)) \<le> 40" "length (groups_text 0 a) \<le> 40"
      using groups_text_length [of 0 "take start a"] groups_text_length [of 0 "drop (start + len) a"] groups_text_length [of 0 a] a by simp_all
    with None z show ?thesis by (simp add: v6_string_def)
  qed
  with V6 show ?thesis by simp
qed

lemma ip_string_name: "ip_wf ip \<Longrightarrow> utf8_valid (ip_string ip) \<and> ip_string ip \<noteq> [] \<and> 0 \<notin> set (ip_string ip) \<and> length (ip_string ip) \<le> 255"
proof -
  assume ip: "ip_wf ip"
  have st: "stops []" by (simp add: stops_def)
  have v6: "read_ipv6_addr [] = None"
    using read_groups_print [OF st, of "[]" 8 0] by (simp add: read_ipv6_addr_def read_given_char_def)
  have v4: "read_ipv4_addr [] = None"
    using nothing_at_stop(1) [OF st, of 0] by (simp add: read_separator_def)
  have "parse_ip [] = None" using v4 v6 by (simp add: parse_ip_def parse_all_def read_ip_addr_def)
  with parse_ip_string [OF ip] have "ip_string ip \<noteq> []" by auto
  with ip_string_length [OF ip] name_byte_ip [of ip] show ?thesis by (auto simp: name_byte_def intro: utf8_valid_ascii)
qed

lemma parse_ipv6_v4_string: "length a = 4 \<Longrightarrow> parse_ipv6 (v4_string a) = None"
proof -
  assume a: "length a = 4"
  have "read_ipv4_addr (v4_string a) = Some (a, [])" using read_ipv4_print [of a "[]"] a by simp
  then have "read_separator 58 0 read_ipv4_addr (v4_string a) = Some (a, [])" by (simp add: read_separator_def)
  moreover have "(8 :: nat) = Suc 7" by simp
  ultimately have "read_groups 8 0 (v4_string a) = (segments_of a, True, [])" by (simp only: read_groups.simps) simp
  moreover have "length (segments_of a) \<noteq> 8" using a by (auto simp: length_Suc_conv eval_nat_numeral)
  ultimately show ?thesis by (simp add: parse_ipv6_def parse_all_def read_ipv6_addr_def)
qed

lemma chain_target_split:
  assumes "chain_target_ok t"
  shows "split_authority (socks_authority t) = Inr (t_host t, t_port t)"
    and "utf8_valid (t_host t) \<and> t_host t \<noteq> [] \<and> 0 \<notin> set (t_host t) \<and> length (t_host t) \<le> 255"
proof -
  consider (ip) ip where "ip_wf ip" "t_host t = ip_string ip"
    | (name) "parse_ipv6 (t_host t) = None" "parse_socket (socks_authority t) = None"
      "utf8_valid (t_host t)" "t_host t \<noteq> []" "0 \<notin> set (t_host t)" "91 \<notin> set (t_host t)" "93 \<notin> set (t_host t)"
      "length (t_host t) \<le> 255"
    using assms unfolding chain_target_ok_def by metis
  then have "split_authority (socks_authority t) = Inr (t_host t, t_port t) \<and>
    utf8_valid (t_host t) \<and> t_host t \<noteq> [] \<and> 0 \<notin> set (t_host t) \<and> length (t_host t) \<le> 255"
  proof cases
    case ip
    then have "socks_authority t = literal_authority ip (t_port t)"
      by (cases ip) (simp_all add: socks_authority_def literal_authority_def parse_ipv6_v4_string parse_ipv6_string)
    with ip show ?thesis using ip_string_name [OF ip(1)] by (simp add: split_literal)
  next
    case name
    from hd_in_set [OF name(4)] last_in_set [OF name(4)] name(6,7)
    have "hd (t_host t) \<notin> {91, 93}" "last (t_host t) \<notin> {91, 93}" by auto
    then have trim: "trim_bytes {91, 93} (t_host t) = t_host t" by (intro trim_bytes_id disjI2 conjI)
    have "unat (t_port t) < 2 ^ 16" using unsigned_less [of "t_port t"] by simp
    then have port: "parse_unsigned 65535 (dec (unat (t_port t))) = Some (unat (t_port t))" by (intro parse_dec) simp
    have "rsplit_once 58 (socks_authority t) = Some (t_host t, dec (unat (t_port t)))"
      using rsplit_once_last [OF dec_no_colon] name(1) by (simp add: socks_authority_def)
    with name trim port show ?thesis by (simp add: split_authority_def)
  qed
  then show "split_authority (socks_authority t) = Inr (t_host t, t_port t)"
    and "utf8_valid (t_host t) \<and> t_host t \<noteq> [] \<and> 0 \<notin> set (t_host t) \<and> length (t_host t) \<le> 255" by blast+
qed

subsection \<open>Chained through another instance\<close>

lemma chain_host_wire: "chain_target_ok t \<Longrightarrow> socks_host_wire (3 # of_nat (length (t_host t)) # t_host t) (t_host t)"
  using chain_target_split(2) [of t] by (simp add: socks_host_wire_def)

text \<open>
  C37: the program can be its own upstream proxy. For every target with an address or a plain name as
  host, and every login that suits, there are bytes that the SOCKS5 client of the server sends and
  bytes with which the SOCKS5 ingress replies, such that each side, reading what the other wrote,
  finishes: the client has an open stream and nothing read of what follows, and the ingress has
  exactly the target that was asked for and nothing read of what follows.
\<close>

theorem socks_chain_interop:
  assumes "chain_target_ok t" "login_suits proxy auth"
  shows "\<exists>sent replies.
    (\<forall>net down. n_connect net (x_endpoint proxy) = Inr \<lparr>rx = replies @ down, tx = []\<rparr> \<longrightarrow>
       connect_via_socks5_proxy net proxy (socks_authority t) = Inr \<lparr>rx = down, tx = sent\<rparr>) \<and>
    (\<forall>up. accept_connect_with_auth auth \<lparr>rx = sent @ up, tx = []\<rparr> = (Inr t, \<lparr>rx = up, tx = replies\<rparr>))"
proof -
  define ok where "ok = ([5, 0, 0, 1, 0, 0, 0, 0, 0, 0] :: bytes)"
  define sent where "sent = [5, of_nat (length (offered proxy))] @ offered proxy @ login_wire auth @ connect_wire (t_host t) (t_port t)"
  note split = chain_target_split [OF assms(1)]
  have "connect_via_socks5_proxy net proxy (socks_authority t) = Inr \<lparr>rx = down, tx = sent\<rparr>"
    if "n_connect net (x_endpoint proxy) = Inr \<lparr>rx = (login_replies auth @ ok) @ down, tx = []\<rparr>" for net down
    using that split socks5_connect_with_ingress [OF assms(2), of "t_host t" "\<lparr>rx = (login_replies auth @ ok) @ down, tx = []\<rparr>" down "t_port t"]
    by (simp add: connect_via_socks5_proxy_def on_stream_def sent_def ok_def)
  moreover have "accept_connect_with_auth auth \<lparr>rx = sent @ up, tx = []\<rparr> = (Inr t, \<lparr>rx = up, tx = login_replies auth @ ok\<rparr>)" for up
  proof -
    note valid = login_suits_valid [OF assms(2)]
    have len: "length (offered proxy) \<le> 255" by (simp add: offered_def)
    have out: "request_outcome 1 \<lparr>t_host = t_host t, t_port = t_port t\<rparr> = Some (Connect t, ok)"
      by (cases t) (simp add: request_outcome_def ok_def)
    have "accept_request_with_auth auth \<lparr>rx = sent @ up, tx = []\<rparr> = (Inr (Connect t), \<lparr>rx = up, tx = login_replies auth @ ok\<rparr>)"
      using accept_wire [OF conjunct1 [OF valid] len conjunct2 [OF valid] chain_host_wire [OF assms(1)] out,
          of "\<lparr>rx = sent @ up, tx = []\<rparr>" up] by (simp add: sent_def connect_wire_def)
    then show ?thesis by (simp add: accept_connect_with_auth_def io_simps)
  qed
  ultimately show ?thesis by blast
qed

theorem socks_chain_interop_witness:
  "\<exists>sent replies.
    (\<forall>net down. n_connect net [112] = Inr \<lparr>rx = replies @ down, tx = []\<rparr> \<longrightarrow>
       connect_via_socks5_proxy net \<lparr>x_kind = Socks5, x_endpoint = [112], x_username = Some [117], x_password = Some [112]\<rparr>
         (socks_authority \<lparr>t_host = v4_string [9, 9, 9, 9], t_port = 53\<rparr>) = Inr \<lparr>rx = down, tx = sent\<rparr>) \<and>
    (\<forall>up. accept_connect_with_auth (Some \<lparr>pa_username = [117], pa_password = [112]\<rparr>) \<lparr>rx = sent @ up, tx = []\<rparr> =
       (Inr \<lparr>t_host = v4_string [9, 9, 9, 9], t_port = 53\<rparr>, \<lparr>rx = up, tx = replies\<rparr>))"
proof -
  let ?t = "\<lparr>t_host = v4_string [9, 9, 9, 9], t_port = 53\<rparr>"
  have "chain_target_ok ?t" unfolding chain_target_ok_def by (intro disjI1 exI [of _ "V4 [9, 9, 9, 9]"]) simp
  from socks_chain_interop [OF this, of "\<lparr>x_kind = Socks5, x_endpoint = [112], x_username = Some [117], x_password = Some [112]\<rparr>"
      "Some \<lparr>pa_username = [117], pa_password = [112]\<rparr>"]
  show ?thesis by (simp add: login_suits_def auth_validate_def)
qed

lemma decode_built:
  assumes "udp_target_ok source"
  shows "\<exists>out. build_udp_packet source answer = Inr out \<and> decode_socks5_udp_datagram out = Inr answer"
proof -
  consider (v4) ip where "length ip = 4" "t_host source = v4_string ip" | (v6) ip where "length ip = 8" "t_host source = v6_string ip"
    | (name) "parse_ipv4 (t_host source) = None" "parse_ipv6 (t_host source) = None"
      "t_host source \<noteq> []" "0 \<notin> set (t_host source)" "length (t_host source) \<le> 255"
    using assms unfolding udp_target_ok_def by (metis IpAddr.exhaust ip_string.simps ip_wf.simps)
  then show ?thesis
  proof cases
    case (v4 ip)
    then show ?thesis by (simp add: build_udp_packet_def parse_ipv4_string decode_socks5_udp_datagram_def)
  next
    case (v6 ip)
    then show ?thesis
      by (simp add: build_udp_packet_def parse_ipv4_v6_string parse_ipv6_string decode_socks5_udp_datagram_def)
  next
    case name
    then have "(of_nat (length (t_host source)) :: u8) \<noteq> 0" by (intro byte_length_0) simp_all
    moreover have "Suc 0 \<le> length (t_host source)" using name(3) by (cases "t_host source") simp_all
    moreover have "drop (7 + length h) (a # b # c # d # e # h @ to_be_u16 p @ q) = q" for a b c d e p and h q :: bytes
      by (simp add: eval_nat_numeral)
    ultimately show ?thesis using name by (simp add: build_udp_packet_def decode_socks5_udp_datagram_def Let_def)
  qed
qed

text \<open>The address that the client reads from the reply to UDP ASSOCIATE.\<close>

lemma read_associate_reply:
  assumes "ip_wf (sock_ip bound)" "reply_udp_associate bound \<lparr>rx = [], tx = []\<rparr> = (Inr (), s)" "rx c = tx s @ rest"
  shows "read_socks5_reply_addr peer_ip c =
    (Inr (socket_new (if is_unspecified (sock_ip bound) then peer_ip else sock_ip bound) (sock_port bound)), c\<lparr>rx := rest\<rparr>)"
proof -
  have r: "read_exact 4 d = (Inr [x, y, z, w], d\<lparr>rx := r\<rparr>)" if "rx d = x # y # z # w # r" for d x y z w r
    using that by (simp add: read_exact_def)
  show ?thesis
  proof (cases bound)
    case (SocketV4 ip port)
    with assms have "rx c = 5 # 0 # 0 # 1 # ip @ to_be_u16 port @ rest" "length ip = 4"
      by (auto simp: reply_udp_associate_def io_simps)
    with SocketV4 show ?thesis by (simp add: read_socks5_reply_addr_def io_simps r)
  next
    case (SocketV6 ip port scope)
    with assms have "rx c = 5 # 0 # 0 # 4 # v6_octets ip @ to_be_u16 port @ rest" "length (v6_octets ip) = 16"
      by (auto simp: reply_udp_associate_def io_simps)
    with SocketV6 show ?thesis by (simp add: read_socks5_reply_addr_def io_simps r)
  qed
qed

text \<open>
  C38: datagrams pass unchanged between the SOCKS5 client of the server and the SOCKS5 ingress. What
  the client sends for a target parses at the ingress to that target and payload; what the ingress
  builds for an answer is decoded by the client to that answer and by the ingress itself to the
  same source and payload; and the client reads from the reply to UDP ASSOCIATE the address the
  ingress listens on, with the proxy's own address in place of the unspecified one.
\<close>

theorem socks_udp_interop:
  assumes "chain_target_ok t" "udp_target_ok source" "ip_wf (sock_ip bound)"
  shows "(\<exists>request. encode_socks5_udp_datagram (t_host t) (t_port t) payload = Inr request \<and>
      parse_udp_packet request = Inr \<lparr>sp_target = t, sp_payload = payload\<rparr>) \<and>
    (\<exists>reply. build_udp_packet source answer = Inr reply \<and> decode_socks5_udp_datagram reply = Inr answer \<and>
      parse_udp_packet reply = Inr \<lparr>sp_target = source, sp_payload = answer\<rparr>) \<and>
    (\<exists>s. reply_udp_associate bound \<lparr>rx = [], tx = []\<rparr> = (Inr (), s) \<and>
      fst (read_socks5_reply_addr peer_ip \<lparr>rx = tx s, tx = []\<rparr>) =
        Inr (socket_new (if is_unspecified (sock_ip bound) then peer_ip else sock_ip bound) (sock_port bound)))"
proof (intro conjI)
  note name = chain_target_split(2) [OF assms(1)]
  show "\<exists>request. encode_socks5_udp_datagram (t_host t) (t_port t) payload = Inr request \<and>
      parse_udp_packet request = Inr \<lparr>sp_target = t, sp_payload = payload\<rparr>"
    using name parse_udp_domain [of "t_host t" 0 "t_port t" payload]
    by (cases t) (simp add: encode_socks5_udp_datagram_def parse_udp_packet_def)
  show "\<exists>reply. build_udp_packet source answer = Inr reply \<and> decode_socks5_udp_datagram reply = Inr answer \<and>
      parse_udp_packet reply = Inr \<lparr>sp_target = source, sp_payload = answer\<rparr>"
    using decode_built [OF assms(2), of answer] udp_packet_inverse [OF assms(2), of answer] by auto
  obtain s where s: "reply_udp_associate bound \<lparr>rx = [], tx = []\<rparr> = (Inr (), s)"
    by (cases bound) (simp_all add: reply_udp_associate_def io_simps)
  with read_associate_reply [OF assms(3) s, of "\<lparr>rx = tx s, tx = []\<rparr>" "[]" peer_ip]
  show "\<exists>s. reply_udp_associate bound \<lparr>rx = [], tx = []\<rparr> = (Inr (), s) \<and>
      fst (read_socks5_reply_addr peer_ip \<lparr>rx = tx s, tx = []\<rparr>) =
        Inr (socket_new (if is_unspecified (sock_ip bound) then peer_ip else sock_ip bound) (sock_port bound))"
    by auto
qed

theorem socks_udp_interop_witness:
  "\<exists>request. encode_socks5_udp_datagram (v4_string [9, 9, 9, 9]) 53 [1, 2] = Inr request \<and>
     parse_udp_packet request = Inr \<lparr>sp_target = \<lparr>t_host = v4_string [9, 9, 9, 9], t_port = 53\<rparr>, sp_payload = [1, 2]\<rparr>"
proof -
  let ?t = "\<lparr>t_host = v4_string [9, 9, 9, 9], t_port = 53\<rparr>"
  have "chain_target_ok ?t" unfolding chain_target_ok_def by (intro disjI1 exI [of _ "V4 [9, 9, 9, 9]"]) simp
  moreover have "udp_target_ok ?t" unfolding udp_target_ok_def by (intro disjI1 exI [of _ "V4 [9, 9, 9, 9]"]) simp
  ultimately show ?thesis
    using socks_udp_interop [of ?t ?t "SocketV4 [0, 0, 0, 0] 1080" "[1, 2]"] by simp
qed

section \<open>The HTTP chain\<close>

definition ok_response :: bytes where
  "ok_response = ascii ''HTTP/1.1 200 OK'' @ [13, 10, 13, 10]"

lemma ok_response_bytes:
  "ok_response = [72, 84, 84, 80, 47, 49, 46, 49, 32, 50, 48, 48, 32, 79, 75, 13, 10, 13, 10]"
  by (simp add: ok_response_def ascii_def of_char_def)

lemma contains_str_later: "contains_str p s \<Longrightarrow> contains_str p (x @ s)"
  by (induction x) simp_all

lemma ok_response_ends: "contains_str [13, 10, 13, 10] (ok_response @ data)"
proof -
  have "contains_str [13, 10, 13, 10] ([13, 10, 13, 10] @ data)" by (simp add: starts_with_def)
  then show ?thesis unfolding ok_response_def append_assoc by (rule contains_str_later)
qed

lemma ok_response_status: "utf8_valid (ok_response @ data) \<Longrightarrow> check_status (ok_response @ data) = Inr ()"
proof -
  assume u: "utf8_valid (ok_response @ data)"
  have l: "first_line (ok_response @ data) = [72, 84, 84, 80, 47, 49, 46, 49, 32, 50, 48, 48, 32, 79, 75]"
    by (simp add: first_line_def ok_response_bytes Let_def)
  have w: "white_prefix (b # s) = (if 9 \<le> unat b \<and> unat b \<le> 13 \<or> b = 32 then 1 else 0)" if "b < 128" for b s
    using that by (cases s; cases "tl s") (auto simp: white_prefix_def is_white_def)
  have p: "split_whitespace [72, 84, 84, 80, 47, 49, 46, 49, 32, 50, 48, 48, 32, 79, 75] =
      [[72, 84, 84, 80, 47, 49, 46, 49], [50, 48, 48], [79, 75]]"
    by (simp add: split_whitespace_def split_white.simps w)
  have a: "ascii ''HTTP/'' = [72, 84, 84, 80, 47]" "ascii ''200'' = [50, 48, 48]" by (simp_all add: ascii_def of_char_def)
  have "ok_response @ data \<noteq> []" by (simp add: ok_response_bytes)
  with u show ?thesis by (simp add: check_status_def l p a starts_with_def)
qed

text \<open>
  C39: bytes of the target that arrive with the proxy's response are lost. When the proxy answers a
  CONNECT and one read delivers its response together with the first bytes from the target, as happens
  for targets that speak first, the chain returns an open stream without those bytes; and if together
  they are not UTF-8, it fails.
\<close>

theorem connect_response_eats_data:
  assumes "length (ok_response @ data) \<le> 512" "512 \<le> short 0"
  shows "read_connect_response short \<lparr>rx = ok_response @ data, tx = sent\<rparr> =
    (if utf8_valid (ok_response @ data) then Inr () else Inl (Bail ''HTTP proxy response is not UTF-8''), \<lparr>rx = [], tx = sent\<rparr>)"
proof -
  have "max 1 (min (short 0) 512) = 512" using assms(2) by simp
  then have got: "take (max 1 (min (short 0) 512)) (ok_response @ data) = ok_response @ data"
    using assms(1) by (simp only: take_all)
  have "ok_response @ data \<noteq> []" by (simp add: ok_response_bytes)
  moreover have "length (ok_response @ data) \<le> MAX_HTTP_CONNECT_RESPONSE"
    using assms(1) by (simp add: MAX_HTTP_CONNECT_RESPONSE_def)
  ultimately have "response_loop short 0 [] \<lparr>rx = ok_response @ data, tx = sent\<rparr> = (Inr (ok_response @ data), \<lparr>rx = [], tx = sent\<rparr>)"
    using got ok_response_ends [of data] by (subst response_loop.simps) (simp add: Let_def)
  then show ?thesis
    using ok_response_status [of data] by (simp add: read_connect_response_def io_simps check_status_def)
qed

theorem connect_response_eats_data_witness:
  "read_connect_response (\<lambda>_. 512) \<lparr>rx = ok_response @ [83, 83, 72], tx = []\<rparr> = (Inr (), \<lparr>rx = [], tx = []\<rparr>)"
  using connect_response_eats_data [of "[83, 83, 72]" "\<lambda>_. 512" "[]"] by (simp add: ok_response_bytes)

lemma utf8_valid_append: "utf8_valid a \<Longrightarrow> utf8_valid b \<Longrightarrow> utf8_valid (a @ b)"
proof (induction a rule: length_induct)
  case (1 a)
  show ?case
  proof (cases a)
    case (Cons x bs)
    have IH: "utf8_valid (cs @ b)" if "utf8_valid cs" "length cs < length a" for cs using 1 that by blast
    from 1(2) [unfolded Cons utf8_valid.simps(2)] show ?thesis
      unfolding Cons append_Cons utf8_valid.simps(2)
      by (auto simp: Cons intro: IH simp del: utf8_valid.simps split: if_splits list.splits)
  qed (use 1 in simp)
qed

text \<open>
  C40: a client can add header lines to the request that the server sends to its HTTP proxy. For every
  line without NUL that is short enough, the SOCKS5 ingress accepts the domain name that has the line
  in the middle, between carriage returns and line feeds; an empty policy permits the authority made from
  it, and the CONNECT request contains the line as a line of its own.
\<close>

theorem connect_request_injection:
  assumes "utf8_valid line" "0 \<notin> set line" "length line \<le> 249"
  defines "host \<equiv> [104, 13, 10] @ line @ [13, 10, 104]"
  shows "\<exists>t. fst (accept_connect \<lparr>rx = [5, 1, 0, 5, 1, 0, 3, of_nat (length host)] @ host @ [0, 80], tx = []\<rparr>) = Inr t \<and>
    validate_authority policy_default (socks_authority t) = Inr () \<and>
    (\<exists>pre post. build_connect_request base64 proxy (socks_authority t) = Inr (pre @ [13, 10] @ line @ [13, 10] @ post))"
proof -
  let ?t = "\<lparr>t_host = host, t_port = 80\<rparr>"
  have port: "to_be_u16 80 = [0, 80]" by (simp add: to_be_u16_def)
  have wire: "socks_host_wire (3 # of_nat (length host) # host) host"
    using assms(1-3) unfolding socks_host_wire_def host_def by (simp add: utf8_valid_append)
  have "accept_request_with_auth None \<lparr>rx = [5, 1, 0, 5, 1, 0, 3, of_nat (length host)] @ host @ [0, 80], tx = []\<rparr> =
      (Inr (Connect ?t), \<lparr>rx = [], tx = [5, 0, 5, 0, 0, 1, 0, 0, 0, 0, 0, 0]\<rparr>)"
    using accept_wire [of None "[0]" "3 # of_nat (length host) # host" host 1 80 "Connect ?t" "[5, 0, 0, 1, 0, 0, 0, 0, 0, 0]"
        "\<lparr>rx = [5, 1, 0, 5, 1, 0, 3, of_nat (length host)] @ host @ [0, 80], tx = []\<rparr>" "[]"] wire port
    by (simp add: auth_valid_def auth_method_def request_outcome_def login_wire_def login_replies_def)
  then have acc: "fst (accept_connect \<lparr>rx = [5, 1, 0, 5, 1, 0, 3, of_nat (length host)] @ host @ [0, 80], tx = []\<rparr>) = Inr ?t"
    by (simp add: accept_connect_def accept_connect_with_auth_def io_simps)
  have nd: "no_digit 10 (104 # x)" "no_digit 16 (104 # x)" for x by (simp_all add: no_digit_def is_digit_def to_digit_def)
  have v4: "read_ipv4_addr (104 # x) = None" for x
    by (simp add: read_ipv4_addr_def read_separator_def read_octet_def no_number nd)
  then have g: "read_groups (Suc n) 0 (104 # x) = ([], False, 104 # x)" for n x
    by (simp add: read_separator_def read_group_def no_number nd)
  have "parse_ipv6 (104 # x) = None" for x
    using g [of 7 x] by (simp add: parse_ipv6_def parse_all_def read_ipv6_addr_def read_given_char_def)
  then have auth: "socks_authority ?t = host @ 58 # dec 80" by (simp add: socks_authority_def host_def)
  have "parse_socket (104 # x) = None" for x
    by (simp add: parse_socket_def parse_all_def read_socket_addr_def read_socket_v4_def read_socket_v6_def read_given_char_def v4)
  then have sock: "parse_socket (host @ 58 # dec 80) = None" by (simp add: host_def)
  have trim: "trim_bytes {91, 93} host = host" by (rule trim_bytes_id) (simp add: host_def)
  have split: "split_authority (socks_authority ?t) = Inr (host, 80)"
    using sock rsplit_once_last [OF dec_no_colon, of host 80] trim parse_dec [of 80 65535]
    unfolding auth by (simp add: split_authority_def Let_def) (simp add: host_def)
  have "validate_authority policy_default (socks_authority ?t) = Inr ()"
    unfolding validate_authority_iff using split by (simp add: target_permitted_def policy_default_def)
  moreover have "\<exists>pre post. build_connect_request base64 proxy (socks_authority ?t) = Inr (pre @ [13, 10] @ line @ [13, 10] @ post)"
  proof -
    obtain rest where "build_connect_request base64 proxy (socks_authority ?t) = Inr (ascii ''CONNECT '' @ socks_authority ?t @ rest)"
      by (simp add: build_connect_request_def split)
    then show ?thesis unfolding auth
      by (intro exI [of _ "ascii ''CONNECT '' @ [104]"] exI [of _ "104 # 58 # dec 80 @ rest"]) (simp add: host_def)
  qed
  ultimately show ?thesis using acc by blast
qed

theorem connect_request_injection_witness:
  "\<exists>t. fst (accept_connect \<lparr>rx = [5, 1, 0, 5, 1, 0, 3, 11, 104, 13, 10, 88, 58, 32, 49, 50, 13, 10, 104, 0, 80], tx = []\<rparr>) = Inr t \<and>
    (\<exists>pre post. build_connect_request id \<lparr>x_kind = Http, x_endpoint = [112], x_username = None, x_password = None\<rparr> (socks_authority t) =
       Inr (pre @ [13, 10] @ [88, 58, 32, 49, 50] @ [13, 10] @ post))"
proof -
  let ?proxy = "\<lparr>x_kind = Http, x_endpoint = [112], x_username = None, x_password = None\<rparr>"
  from connect_request_injection [of "[88, 58, 32, 49, 50]" id ?proxy]
  have "\<exists>t. fst (accept_connect \<lparr>rx = [5, 1, 0, 5, 1, 0, 3, of_nat 11] @ [104, 13, 10, 88, 58, 32, 49, 50, 13, 10, 104] @ [0, 80], tx = []\<rparr>) = Inr t \<and>
    validate_authority policy_default (socks_authority t) = Inr () \<and>
    (\<exists>pre post. build_connect_request id ?proxy (socks_authority t) = Inr (pre @ [13, 10] @ [88, 58, 32, 49, 50] @ [13, 10] @ post))"
    by simp
  then show ?thesis unfolding append.simps of_nat_numeral by blast
qed

end
