(* ===== verification/Spec2Isabelle.thy ===== *)
theory Spec2Isabelle
  imports Esp_Request Esp_Udp Esp_Native_Mux_Props Esp_Handshake_Props Esp_Limits Esp_Chain_Props
begin

text \<open>
  \<^bold>\<open>A verification development for Espejismo\<close>, an encrypted tunnel written in Rust
  (\<^verbatim>\<open>src/crates\<close>). A client takes the connections of local applications (SOCKS5, HTTP proxy, TUN),
  opens one encrypted connection to a server and carries every application connection as a stream
  of a multiplexer over it. The server reads a request from each stream, checks it against its policy,
  connects to the target and relays bytes both ways within the limits of the user.

  \<^bold>\<open>The layers and their theories.\<close> From the wire upwards:

  \<^item> \<open>Esp_Prelude\<close> and \<open>Esp_Collections\<close> hold the vocabulary: machine words, error values, the
    state-and-error monad of the asynchronous readers and writers over a byte connection
    (\<open>conn\<close>: bytes to come and bytes written), big-endian integers, UTF-8 validity, the ordered map
    and the hash map of the standard library, and the interface \<open>wire_codec\<close> that the message formats interpret.
  \<^item> \<open>Esp_Replay\<close> (\<^verbatim>\<open>protocol/replay.rs\<close>): the replay cache as a record of queue and set, one function
    per method; the interface \<open>replay_guard\<close> and its two interpretations; pruning and refusal.
  \<^item> \<open>Esp_Puzzle\<close> (\<^verbatim>\<open>protocol/puzzle.rs\<close>): the proof-of-work search and check.
  \<^item> \<open>Esp_Crypto\<close>, \<open>Esp_Handshake\<close>, \<open>Esp_Handshake_Props\<close> (\<^verbatim>\<open>crypto/mod.rs\<close>): key schedule, masks, both
    sides of the handshake; agreement on mirrored keys, soundness of acceptance, no replay.
  \<^item> \<open>Esp_Framing\<close>, \<open>Esp_Framing_Props\<close> (\<^verbatim>\<open>protocol/framing.rs\<close>): the record layer; it refines a pair
    of first-in first-out queues, never reuses a nonce, and reads only what was written.
  \<^item> \<open>Esp_Transport\<close>, \<open>Esp_Transport_Props\<close> (\<^verbatim>\<open>transport/mod.rs\<close>): the pumps between an application
    stream and the record layer in plain and stealth mode, and the metered copy between two streams;
    end-to-end transparency; the interface \<open>copy_meter\<close> between the copy and its meter.
  \<^item> \<open>Esp_Native_Frame\<close>, \<open>Esp_Native_Mux\<close>, \<open>Esp_Native_Mux_Inv\<close>, \<open>Esp_Native_Mux_Flow\<close>,
    \<open>Esp_Native_Mux_Props\<close> (\<^verbatim>\<open>mux/native.rs\<close>, \<^verbatim>\<open>mux/native/*.rs\<close>): frames, the pending queue with the interface
    \<open>line_scheduler\<close>, the session task and the stream handles as a labelled step function \<open>exec\<close> with reachability
    \<open>mux_reach\<close>; bounds, order, windows, identifiers, drain.
  \<^item> \<open>Esp_Request\<close> (\<^verbatim>\<open>protocol/request.rs\<close>): the request at the head of a stream, an instance of
    \<open>wire_codec\<close>.
  \<^item> \<open>Esp_Udp\<close> (\<^verbatim>\<open>protocol/udp.rs\<close>): the reliable datagram layer over a network that loses, duplicates
    and reorders, and the congestion window.
  \<^item> \<open>Esp_Limits\<close> (server \<^verbatim>\<open>limits.rs\<close> and the metered relay of \<^verbatim>\<open>relay.rs\<close>): quotas and bandwidth, and the
    relay that interprets \<open>copy_meter\<close> with them.
  \<^item> \<open>Esp_Net_Addr\<close> and \<open>Esp_Text\<close>: the addresses of the standard
    library with their parser and printer, each printed address being read back, and its string
    operations.
  \<^item> \<open>Esp_Egress\<close> (\<^verbatim>\<open>egress.rs\<close>,
    \<^verbatim>\<open>dns.rs\<close>, part of \<^verbatim>\<open>relay.rs\<close>): the destination
    policy, name resolution with its cache, the choice among resolved addresses.
  \<^item> \<open>Esp_Socks5\<close>, \<open>Esp_Socks5_Props\<close>
    (\<^verbatim>\<open>ingress/socks5.rs\<close>, \<^verbatim>\<open>ingress/auth.rs\<close>): the
    SOCKS5 ingress; what it accepts, its datagrams, the reassembly of fragments.
  \<^item> \<open>Esp_Chain\<close>, \<open>Esp_Chain_Props\<close> (server
    \<^verbatim>\<open>socks5_chain.rs\<close>, \<^verbatim>\<open>http_chain.rs\<close>,
    \<^verbatim>\<open>relay.rs\<close>): the client sides of upstream proxies and the connector;
    the policy holds for every contact, the SOCKS5 client and ingress understand each other; the
    network is the record \<open>net\<close>.

  \<^bold>\<open>How the code is rendered.\<close> A struct is a record with the source's fields, an enum a datatype, a
  function that may fail returns \<open>error + 'a\<close>; an asynchronous function over a stream is a function
  of the connection. \<^verbatim>\<open>u8\<close> to \<^verbatim>\<open>u64\<close> that are encoded, compared modulo their width or wrap are words;
  lengths, instants and durations are natural numbers with the saturation or wrap-around written out. The release profile is
  modelled: plain arithmetic wraps. Random draws, clock readings, short reads, the branch a
  \<^verbatim>\<open>select!\<close> takes and the interleaving of tasks are arguments, and the theorems hold for all of them.
  Crates that are not part of the sources are parameters: the cryptographic primitives are the
  record \<open>prims\<close> with the hypothesis \<open>prims_ok\<close> (lengths, decryption inverts encryption, Diffie-Hellman
  agrees), instantiated by \<open>demo_prims\<close> in the witnesses; no secrecy is claimed.

  \<^bold>\<open>Bounds and fuel.\<close> Loops that always end are recursions with a termination proof (the reader of
  frames and the download by the bytes left, the puzzle search by the nonces left). Loops that wait for their
  surroundings recurse on the list of what the surroundings do and return \<open>None\<close> when the list ends
  before the loop does; the theorems about them say how many rounds are enough (\<open>upload_rounds\<close>, \<open>ends\<close>).
  Sequence-number and generation bounds of \<open>2 ^ 64\<close> appear as hypotheses where a counter
  would otherwise run out.

  \<^bold>\<open>Where the code falls short.\<close> Some theorems state what goes wrong: an all-zero digest is refused by the puzzle, the
  datagram layer stops after the largest sequence number, a timestamp \<open>2 ^ 63\<close> seconds old passes the freshness test,
  padding steps over a key update, the HTTP chain drops early bytes and lets a client add header lines, and three ways in which a native session loses credit or strands a writer.

  \<^bold>\<open>Not modelled.\<close>
  \<^item> multiplexer adapter (\<^verbatim>\<open>mux/mod.rs\<close>): chooses between the two
    multiplexers and forwards polling; the native one is modelled.
  \<^item> Yamux multiplexer (\<^verbatim>\<open>tokio-yamux/frame.rs\<close>,
    \<^verbatim>\<open>tokio-yamux/session.rs\<close>,
    \<^verbatim>\<open>tokio-yamux/stream.rs\<close>,
    \<^verbatim>\<open>tokio-yamux/config.rs\<close>,
    \<^verbatim>\<open>tokio-yamux/error.rs\<close>,
    \<^verbatim>\<open>tokio-yamux/control.rs\<close>,
    \<^verbatim>\<open>tokio-yamux/lib.rs\<close>): the vendored fork of the alternative
    multiplexer; its wakers, timers and channels are not modelled, the native multiplexer is.
  \<^item> HTTP proxy ingress (\<^verbatim>\<open>ingress/http_proxy.rs\<close>): header parsing of
    the HTTP proxy.
  \<^item> PROXY protocol (\<^verbatim>\<open>espejismo-server/proxy_protocol.rs\<close>): header in
    front of a connection from a load balancer.
  \<^item> fallback and tarpit (\<^verbatim>\<open>espejismo-server/fallback.rs\<close>,
    \<^verbatim>\<open>espejismo-server/tarpit.rs\<close>): what happens to connections that fail
    the handshake.
  \<^item> underlay transports (\<^verbatim>\<open>underlay.rs\<close>,
    \<^verbatim>\<open>tcp.rs\<close>): TCP, WebSocket, HTTP/2 and TLS carriers and socket options:
    wrappers of crates and of the operating system.
  \<^item> configuration (\<^verbatim>\<open>config/mod.rs\<close>,
    \<^verbatim>\<open>config/types.rs\<close>, \<^verbatim>\<open>config/defaults.rs\<close>,
    \<^verbatim>\<open>profile.rs\<close>): TOML parsing is generated by serde; validation of its
    values.
  \<^item> metrics, logging, administration, runtime state (\<^verbatim>\<open>metrics.rs\<close>,
    \<^verbatim>\<open>logging.rs\<close>, \<^verbatim>\<open>admin.rs\<close>,
    \<^verbatim>\<open>runtime_state.rs\<close>, \<^verbatim>\<open>cli_support.rs\<close>,
    \<^verbatim>\<open>updater.rs\<close>, \<^verbatim>\<open>extension.rs\<close>): counters, their
    rendering, an HTTP endpoint, files and command-line helpers around the tunnel.
  \<^item> server process (\<^verbatim>\<open>espejismo-server/main.rs\<close>,
    \<^verbatim>\<open>espejismo-server/handler.rs\<close>,
    \<^verbatim>\<open>espejismo-server/mux.rs\<close>,
    \<^verbatim>\<open>espejismo-server/bin/bench_http.rs\<close>): accept loop, wiring of the
    components, signals.
  \<^item> client process (\<^verbatim>\<open>espejismo-client/main.rs\<close>,
    \<^verbatim>\<open>espejismo-client/handler.rs\<close>,
    \<^verbatim>\<open>espejismo-client/tunnel.rs\<close>,
    \<^verbatim>\<open>espejismo-client/adaptive.rs\<close>,
    \<^verbatim>\<open>espejismo-client/mux.rs\<close>): listeners, tunnel pool, wiring of the
    components, signals.
  \<^item> TUN device and routes (\<^verbatim>\<open>espejismo-client/tun.rs\<close>,
    \<^verbatim>\<open>espejismo-client/route/mod.rs\<close>,
    \<^verbatim>\<open>espejismo-client/route/linux.rs\<close>,
    \<^verbatim>\<open>espejismo-client/route/macos.rs\<close>,
    \<^verbatim>\<open>espejismo-client/route/macos_parse.rs\<close>,
    \<^verbatim>\<open>espejismo-client/route/windows.rs\<close>): operating-system routes and a
    user-space network stack from a crate.
\<close>

end
